(* ===== verification/OscPrelude.thy ===== *)
theory OscPrelude
  imports Main "HOL-Library.Word"
begin

unbundle bit_operations_syntax

text \<open>
  Shared vocabulary of the development: bytes and C strings, the arithmetic of
  \<^verbatim>\<open>size_t\<close>, 4-byte alignment, and the list lemmas the components use.  A C string
  is a list of characters up to (and without) its terminating NUL; a pointer into one is the
  list of the characters that are left.  A byte buffer is a list of 8-bit words.
\<close>

named_theorems align_simps
  \<comment> \<open>facts about 4-byte alignment, for the codec proofs\<close>

named_theorems byte_simps
  \<comment> \<open>facts about the conversion between characters and bytes\<close>

type_synonym byte = "8 word"
type_synonym bytes = "8 word list"

subsection \<open>Characters and bytes\<close>

definition byte_of :: "char \<Rightarrow> byte" where
  "byte_of c = word_of_nat (of_char c)"

definition char_of_byte :: "byte \<Rightarrow> char" where
  "char_of_byte b = char_of (unat b)"

abbreviation to_bytes :: "string \<Rightarrow> bytes" where
  "to_bytes \<equiv> map byte_of"

abbreviation to_string :: "bytes \<Rightarrow> string" where
  "to_string \<equiv> map char_of_byte"

abbreviation NUL :: char where
  "NUL \<equiv> CHR 0x00"

abbreviation crlf :: string where
  "crlf \<equiv> [CHR 0x0D, CHR 0x0A]"

lemma of_char_less [simp]: "(of_char c :: nat) < 256"
  by (metis char_of_eq_iff mod_less_divisor of_char_mod_256 zero_less_numeral)

lemma char_of_byte_of [simp, byte_simps]: "char_of_byte (byte_of c) = c"
  by (simp add: byte_of_def char_of_byte_def unat_of_nat)

lemma byte_of_char_of [simp, byte_simps]: "byte_of (char_of_byte b) = b"
proof -
  have "unat b < 256" using unsigned_less [of b] by simp
  then show ?thesis by (simp add: byte_of_def char_of_byte_def)
qed

lemma byte_of_inj [simp, byte_simps]: "byte_of c = byte_of d \<longleftrightarrow> c = d"
  by (rule iffI, drule arg_cong [where f = char_of_byte], simp_all)

lemma byte_of_NUL [simp, byte_simps]: "byte_of NUL = 0"
  by (simp add: byte_of_def)

lemma byte_of_eq_0 [simp, byte_simps]: "byte_of c = 0 \<longleftrightarrow> c = NUL"
  using byte_of_inj [of c NUL] by (simp del: byte_of_inj)

lemma char_of_byte_eq_NUL [simp, byte_simps]: "char_of_byte b = NUL \<longleftrightarrow> b = 0"
  using byte_of_eq_0 [of "char_of_byte b"] by (simp del: byte_of_eq_0)

lemma char_of_byte_comp [simp, byte_simps]: "char_of_byte \<circ> byte_of = id"
  by (simp add: fun_eq_iff)

lemma byte_of_comp [simp, byte_simps]: "byte_of \<circ> char_of_byte = id"
  by (simp add: fun_eq_iff)

lemma to_string_to_bytes [simp, byte_simps]: "to_string (to_bytes s) = s"
  by (simp add: comp_def)

text \<open>A C string holds no NUL.\<close>

definition c_string :: "string \<Rightarrow> bool" where
  "c_string s \<longleftrightarrow> NUL \<notin> set s"

lemma c_string_Nil [simp]: "c_string []"
  and c_string_Cons [simp]: "c_string (c # s) \<longleftrightarrow> c \<noteq> NUL \<and> c_string s"
  and c_string_append [simp]: "c_string (s @ t) \<longleftrightarrow> c_string s \<and> c_string t"
  by (auto simp: c_string_def)

text \<open>The characters of a C string held in a \<^verbatim>\<open>std::string\<close>: up to its first NUL.\<close>

definition c_str :: "string \<Rightarrow> string" where
  "c_str s = takeWhile (\<lambda>c. c \<noteq> NUL) s"

lemma c_str_c_string [simp]: "c_string s \<Longrightarrow> c_str s = s"
  by (induction s) (auto simp: c_str_def)

lemma c_string_c_str [simp]: "c_string (c_str s)"
  by (auto simp: c_str_def c_string_def dest: set_takeWhileD)

subsection \<open>\<open>size_t\<close> subtraction\<close>

text \<open>The difference of two \<^verbatim>\<open>size_t\<close> values, which wraps around below zero.\<close>

definition size_sub :: "nat \<Rightarrow> nat \<Rightarrow> nat" where
  "size_sub a b = (a + 2 ^ 64 - b) mod 2 ^ 64"

lemma size_sub_mod: "b \<le> a \<Longrightarrow> size_sub a b = (a - b) mod 2 ^ 64"
proof -
  assume "b \<le> a"
  then have "a + 2 ^ 64 - b = (a - b) + 2 ^ 64" by simp
  then show ?thesis unfolding size_sub_def by (simp only: mod_add_self2)
qed

lemma size_sub_le: "b \<le> a \<Longrightarrow> size_sub a b \<le> a - b"
  by (simp only: size_sub_mod mod_less_eq_dividend)

lemma size_sub_eq: "b \<le> a \<Longrightarrow> a < 2 ^ 64 \<Longrightarrow> size_sub a b = a - b"
  by (simp only: size_sub_mod) (rule mod_less, simp)

subsection \<open>Alignment to four bytes\<close>

definition aligned4 :: "nat \<Rightarrow> bool" where
  "aligned4 n \<longleftrightarrow> 4 dvd n"

lemma aligned4_0 [simp, align_simps]: "aligned4 0"
  and aligned4_4 [simp, align_simps]: "aligned4 4"
  and aligned4_8 [simp, align_simps]: "aligned4 8"
  and aligned4_mult [simp, align_simps]: "aligned4 (n div 4 * 4)"
  by (auto simp: aligned4_def)

lemma aligned4_add [simp, align_simps]: "aligned4 a \<Longrightarrow> aligned4 b \<Longrightarrow> aligned4 (a + b)"
  by (simp add: aligned4_def)

lemma aligned4_add_iff [align_simps]: "aligned4 a \<Longrightarrow> aligned4 (a + b) \<longleftrightarrow> aligned4 b"
  unfolding aligned4_def by presburger

lemma aligned4_diff: "aligned4 a \<Longrightarrow> aligned4 b \<Longrightarrow> aligned4 (a - b)"
  by (simp add: aligned4_def)

lemma round_up_aligned_le: "aligned4 m \<Longrightarrow> n \<le> m \<Longrightarrow> (n + 3) div 4 * 4 \<le> m"
  unfolding aligned4_def by presburger

lemma pad_up4: "n + (4 - n mod 4) mod 4 = (n + 3) div 4 * (4 :: nat)"
proof -
  have "n mod 4 = 0 \<or> n mod 4 = 1 \<or> n mod 4 = 2 \<or> n mod 4 = 3" by linarith
  then show ?thesis by (elim disjE) (simp_all, presburger+)
qed

subsection \<open>Lists\<close>

lemma takeWhile_neq_append:
  "x \<notin> set xs \<Longrightarrow> takeWhile (\<lambda>y. y \<noteq> x) (xs @ x # ys) = xs"
  by (induction xs) auto

lemma length_takeWhile_less: "x \<in> set xs \<Longrightarrow> length (takeWhile (\<lambda>y. y \<noteq> x) xs) < length xs"
  by (induction xs) auto

lemma dropWhile_neq_append:
  "x \<notin> set xs \<Longrightarrow> dropWhile (\<lambda>y. y \<noteq> x) (xs @ x # ys) = x # ys"
  by (induction xs) auto

end
