(* ===== verification/OscFloat.thy ===== *)
theory OscFloat
  imports OscPrelude
begin

text \<open>
  The \<^verbatim>\<open>float\<close> arithmetic the plugin uses, on binary32 bit patterns: the wire format of an
  OSC \<^verbatim>\<open>f\<close> argument is the bit pattern itself (the code copies it with \<^verbatim>\<open>memcpy\<close>), so a
  float is a 32-bit word.  Comparison, truncation to \<^verbatim>\<open>int32_t\<close>, conversion from an integer,
  multiplication, division and square root follow IEEE 754 with rounding to nearest, ties to even.
  A conversion of a float that does not fit into \<^verbatim>\<open>int32_t\<close> is undefined in C++: what the
  platform returns there is a parameter (\<open>oor\<close>) of the operations that convert.
\<close>

type_synonym f32 = "32 word"
type_synonym int32 = "32 word"

subsection \<open>Fields and classes\<close>

definition f32_neg :: "f32 \<Rightarrow> bool" where
  "f32_neg x \<longleftrightarrow> 2 ^ 31 \<le> unat x"

definition f32_exp :: "f32 \<Rightarrow> nat" where
  "f32_exp x = unat x div 2 ^ 23 mod 256"

definition f32_frac :: "f32 \<Rightarrow> nat" where
  "f32_frac x = unat x mod 2 ^ 23"

definition f32_is_nan :: "f32 \<Rightarrow> bool" where
  "f32_is_nan x \<longleftrightarrow> f32_exp x = 255 \<and> f32_frac x \<noteq> 0"

definition f32_is_inf :: "f32 \<Rightarrow> bool" where
  "f32_is_inf x \<longleftrightarrow> f32_exp x = 255 \<and> f32_frac x = 0"

definition f32_mant :: "f32 \<Rightarrow> nat" where
  "f32_mant x = (if f32_exp x = 0 then f32_frac x else f32_frac x + 2 ^ 23)"

definition f32_scale :: "f32 \<Rightarrow> int" where
  "f32_scale x = (if f32_exp x = 0 then - 149 else int (f32_exp x) - 150)"

text \<open>A finite \<open>x\<close> stands for \<open>\<plusminus> f32_mant x * 2 powr f32_scale x\<close>.\<close>

definition f32_nan :: f32 where "f32_nan = 0x7FC00000"
definition f32_inf :: f32 where "f32_inf = 0x7F800000"
definition f32_zero :: f32 where "f32_zero = 0"
definition f32_one :: f32 where "f32_one = 0x3F800000"
definition f32_minus_one :: f32 where "f32_minus_one = 0xBF800000"

subsection \<open>Comparison\<close>

definition f32_key :: "f32 \<Rightarrow> int" where
  "f32_key x = (if f32_neg x then - int (unat x mod 2 ^ 31) else int (unat x))"

definition f32_eq :: "f32 \<Rightarrow> f32 \<Rightarrow> bool" where
  "f32_eq x y \<longleftrightarrow> \<not> f32_is_nan x \<and> \<not> f32_is_nan y \<and> f32_key x = f32_key y"

definition f32_lt :: "f32 \<Rightarrow> f32 \<Rightarrow> bool" where
  "f32_lt x y \<longleftrightarrow> \<not> f32_is_nan x \<and> \<not> f32_is_nan y \<and> f32_key x < f32_key y"

subsection \<open>Rounding\<close>

fun bit_length :: "nat \<Rightarrow> nat" where
  "bit_length n = (if n = 0 then 0 else Suc (bit_length (n div 2)))"

declare bit_length.simps [simp del]

definition round_half_even :: "nat \<Rightarrow> nat \<Rightarrow> nat" where
  "round_half_even m k =
     (let d = m div 2 ^ k; r = m mod 2 ^ k; h = 2 ^ (k - 1)
      in if r > h \<or> r = h \<and> odd d then d + 1 else d)"

definition f32_pack :: "bool \<Rightarrow> nat \<Rightarrow> f32" where
  "f32_pack neg n = word_of_nat (n + (if neg then 2 ^ 31 else 0))"

text \<open>The float nearest to \<open>\<plusminus> m * 2 powr e\<close>.\<close>

definition f32_round :: "bool \<Rightarrow> nat \<Rightarrow> int \<Rightarrow> f32" where
  "f32_round neg m e =
     (if m = 0 then f32_pack neg 0
      else
        let q = max (e + int (bit_length m) - 24) (- 149);
            r = (if q \<le> e then m * 2 ^ nat (e - q) else round_half_even m (nat (q - e)))
        in f32_pack neg (min (nat (q + 149) * 2 ^ 23 + r) (unat f32_inf)))"

subsection \<open>Arithmetic\<close>

definition f32_mul :: "f32 \<Rightarrow> f32 \<Rightarrow> f32" where
  "f32_mul x y =
     (if f32_is_nan x \<or> f32_is_nan y then f32_nan
      else if f32_is_inf x \<or> f32_is_inf y then
        (if f32_mant x = 0 \<or> f32_mant y = 0 then f32_nan
         else f32_pack (f32_neg x \<noteq> f32_neg y) (unat f32_inf))
      else f32_round (f32_neg x \<noteq> f32_neg y) (f32_mant x * f32_mant y)
             (f32_scale x + f32_scale y))"

definition f32_div :: "f32 \<Rightarrow> f32 \<Rightarrow> f32" where
  "f32_div x y =
     (let neg = (f32_neg x \<noteq> f32_neg y)
      in if f32_is_nan x \<or> f32_is_nan y then f32_nan
         else if f32_is_inf x then (if f32_is_inf y then f32_nan else f32_pack neg (unat f32_inf))
         else if f32_is_inf y then f32_pack neg 0
         else if f32_mant y = 0 then
           (if f32_mant x = 0 then f32_nan else f32_pack neg (unat f32_inf))
         else
           let m = f32_mant x * 2 ^ 64; q = m div f32_mant y
           in f32_round neg (if m mod f32_mant y = 0 then 2 * q else 2 * q + 1)
                (f32_scale x - f32_scale y - 65))"

fun isqrt :: "nat \<Rightarrow> nat" where
  "isqrt n = (if n = 0 then 0
              else let r = 2 * isqrt (n div 4) in if (r + 1) * (r + 1) \<le> n then r + 1 else r)"

declare isqrt.simps [simp del]

definition f32_sqrt :: "f32 \<Rightarrow> f32" where
  "f32_sqrt x =
     (if f32_is_nan x then f32_nan
      else if f32_mant x = 0 then x
      else if f32_neg x then f32_nan
      else if f32_is_inf x then x
      else
        let s = 60 + nat (f32_scale x mod 2);
            m = f32_mant x * 2 ^ s;
            r = isqrt m
        in f32_round False (if r * r = m then 2 * r else 2 * r + 1)
             ((f32_scale x - int s) div 2 - 1))"

definition f32_of_int :: "int \<Rightarrow> f32" where
  "f32_of_int i = f32_round (i < 0) (nat \<bar>i\<bar>) 0"

definition f32_trunc :: "f32 \<Rightarrow> int" where
  "f32_trunc x =
     (let a = (if 0 \<le> f32_scale x then f32_mant x * 2 ^ nat (f32_scale x)
               else f32_mant x div 2 ^ nat (- f32_scale x))
      in if f32_neg x then - int a else int a)"

definition f32_to_int32 :: "(f32 \<Rightarrow> int32) \<Rightarrow> f32 \<Rightarrow> int32" where
  "f32_to_int32 oor x =
     (if f32_is_nan x \<or> f32_is_inf x \<or> f32_trunc x < - (2 ^ 31) \<or> 2 ^ 31 \<le> f32_trunc x
      then oor x else word_of_int (f32_trunc x))"

subsection \<open>Facts\<close>

lemma bit_length_bounds: "0 < n \<Longrightarrow> 2 ^ (bit_length n - 1) \<le> n \<and> n < 2 ^ bit_length n"
proof (induction n rule: bit_length.induct)
  case (1 n)
  show ?case
  proof (cases "n div 2 = 0")
    case True
    with 1 have "n = 1" by auto
    then show ?thesis by (simp add: bit_length.simps)
  next
    case False
    with 1 have IH: "2 ^ (bit_length (n div 2) - 1) \<le> n div 2" "n div 2 < 2 ^ bit_length (n div 2)"
      by auto
    have p: "bit_length (n div 2) = Suc (bit_length (n div 2) - 1)"
      using False by (subst bit_length.simps) (simp add: bit_length.simps [of "n div 2"])
    have "2 ^ bit_length (n div 2) \<le> 2 * (n div 2)"
      using IH(1) by (subst p) simp
    moreover have "n < 2 * 2 ^ bit_length (n div 2)" using IH(2) by linarith
    ultimately show ?thesis using 1 by (simp add: bit_length.simps [of n])
  qed
qed

lemma isqrt_bounds: "isqrt n * isqrt n \<le> n \<and> n < Suc (isqrt n) * Suc (isqrt n)"
proof (induction n rule: isqrt.induct)
  case (1 n)
  show ?case
  proof (cases "n = 0")
    case True
    then show ?thesis by (simp add: isqrt.simps)
  next
    case False
    define r where "r = isqrt (n div 4)"
    from 1 False have IH: "r * r \<le> n div 4" "n div 4 < (r + 1) * (r + 1)"
      by (auto simp: r_def)
    have lo: "2 * r * (2 * r) \<le> n" using IH(1) by (simp add: algebra_simps)
    have "n < 4 * ((r + 1) * (r + 1))" using IH(2) by linarith
    then have hi: "n < (2 * r + 2) * (2 * r + 2)" by (simp add: algebra_simps)
    show ?thesis
    proof (cases "(2 * r + 1) * (2 * r + 1) \<le> n")
      case True
      then have "isqrt n = 2 * r + 1" using False by (subst isqrt.simps) (simp add: r_def Let_def)
      with True hi show ?thesis by (simp only:) (simp add: algebra_simps)
    next
      case f: False
      then have "isqrt n = 2 * r" using False by (subst isqrt.simps) (simp add: r_def Let_def)
      with f lo show ?thesis by (simp only:) (simp add: algebra_simps)
    qed
  qed
qed

end
