(* ===== verification/OscMessage.thy ===== *)
theory OscMessage
  imports OscFloat
begin

unbundle bit_operations_syntax

text \<open>
  The OSC 1.0 wire codec (\<^verbatim>\<open>osc-message.h\<close>, \<^verbatim>\<open>osc-message.cpp\<close>): arguments and messages,
  the encoder \<^verbatim>\<open>osc_build_message\<close>, the decoder \<^verbatim>\<open>osc_parse_packet\<close> with its nested bundles,
  and the argument accessors.  Every read of the packet goes through \<open>read_be32\<close> or
  \<open>read_string\<close>; a 4-byte read that leaves the packet is \<open>None\<close>, which the decoder turns
  into the outcome \<open>Fault\<close>, so that memory safety is a theorem (no packet faults) and not
  an assumption.  The lemmas show memory safety, the shape of accepted messages, and that
  decoding inverts encoding.
\<close>

subsection \<open>Data\<close>

record osc_argument =
  arg_type :: char
  arg_i :: int32
  arg_f :: f32
  arg_s :: string
  arg_b :: bytes

definition empty_argument :: osc_argument where
  "empty_argument = \<lparr>arg_type = NUL, arg_i = 0, arg_f = 0, arg_s = [], arg_b = []\<rparr>"

record osc_message =
  address :: string
  args :: "osc_argument list"

definition osc_int :: "int32 \<Rightarrow> osc_argument" where
  "osc_int v = empty_argument\<lparr>arg_type := CHR ''i'', arg_i := v\<rparr>"

definition osc_flt :: "f32 \<Rightarrow> osc_argument" where
  "osc_flt v = empty_argument\<lparr>arg_type := CHR ''f'', arg_f := v\<rparr>"

definition osc_str :: "string \<Rightarrow> osc_argument" where
  "osc_str v = empty_argument\<lparr>arg_type := CHR ''s'', arg_s := v\<rparr>"

definition osc_blob :: "bytes \<Rightarrow> osc_argument" where
  "osc_blob v = empty_argument\<lparr>arg_type := CHR ''b'', arg_b := v\<rparr>"

subsection \<open>Reading\<close>

definition read_be32 :: "bytes \<Rightarrow> nat \<Rightarrow> 32 word option" where
  "read_be32 p pos =
     (if pos + 4 \<le> length p
      then Some (push_bit 24 (ucast (p ! pos)) OR push_bit 16 (ucast (p ! (pos + 1))) OR
                 push_bit 8 (ucast (p ! (pos + 2))) OR ucast (p ! (pos + 3)))
      else None)"

text \<open>
  \<^verbatim>\<open>(out->size() + 4) & ~3u\<close>: the mask is 32 bits wide, so it clears the bits above the
  32nd too.
\<close>

definition string_span :: "nat \<Rightarrow> nat" where
  "string_span n = (n + 4) mod 2 ^ 32 div 4 * 4"

text \<open>\<^verbatim>\<open>(blob + 3u) & ~3u\<close> in \<^verbatim>\<open>uint32_t\<close>.\<close>

definition blob_span :: "32 word \<Rightarrow> nat" where
  "blob_span n = (unat n + 3) mod 2 ^ 32 div 4 * 4"

definition read_string :: "bytes \<Rightarrow> nat \<Rightarrow> (nat \<times> string) option" where
  "read_string data pos =
     (if length data \<le> pos then None
      else
        let rest = drop pos data
        in if 0 \<notin> set rest then None
           else
             let out = to_string (takeWhile (\<lambda>b. b \<noteq> 0) rest)
             in Some (pos + string_span (length out), out))"

datatype 'a outcome = Fault | Reject | Accept 'a

text \<open>One iteration of the loop over the typetags: the argument and the next position.\<close>

definition parse_arg :: "bytes \<Rightarrow> char \<Rightarrow> nat \<Rightarrow> (osc_argument \<times> nat) outcome" where
  "parse_arg data t pos =
     (let arg = empty_argument\<lparr>arg_type := t\<rparr>
      in if t = CHR ''i'' then
           (if pos + 4 > length data then Reject
            else case read_be32 data pos of None \<Rightarrow> Fault
                 | Some v \<Rightarrow> Accept (arg\<lparr>arg_i := v\<rparr>, pos + 4))
         else if t = CHR ''f'' then
           (if pos + 4 > length data then Reject
            else case read_be32 data pos of None \<Rightarrow> Fault
                 | Some raw \<Rightarrow> Accept (arg\<lparr>arg_f := raw\<rparr>, pos + 4))
         else if t = CHR ''s'' then
           (case read_string data pos of None \<Rightarrow> Reject
            | Some (pos', s) \<Rightarrow> Accept (arg\<lparr>arg_s := s\<rparr>, pos'))
         else if t = CHR ''b'' then
           (if pos + 4 > length data then Reject
            else case read_be32 data pos of None \<Rightarrow> Fault
                 | Some blob \<Rightarrow>
                     if unat blob > size_sub (length data) (pos + 4) then Reject
                     else if pos + 4 + unat blob > length data then Fault
                     else Accept (arg\<lparr>arg_b := take (unat blob) (drop (pos + 4) data)\<rparr>,
                                  pos + 4 + blob_span blob))
         else if t = CHR ''T'' then Accept (arg\<lparr>arg_i := 1\<rparr>, pos)
         else if t = CHR ''F'' then Accept (arg\<lparr>arg_i := 0\<rparr>, pos)
         else if t = CHR ''d'' \<or> t = CHR ''h'' \<or> t = CHR ''t'' then
           (if pos + 8 > length data then Reject else Accept (arg, pos + 8))
         else if t = CHR ''m'' \<or> t = CHR ''r'' \<or> t = CHR ''c'' then
           (if pos + 4 > length data then Reject else Accept (arg, pos + 4))
         else Reject)"

fun parse_args :: "bytes \<Rightarrow> string \<Rightarrow> nat \<Rightarrow> osc_argument list \<Rightarrow> osc_argument list outcome" where
  "parse_args data [] pos acc = Accept acc"
| "parse_args data (t # ts) pos acc =
     (case parse_arg data t pos of
        Fault \<Rightarrow> Fault
      | Reject \<Rightarrow> Reject
      | Accept (arg, pos') \<Rightarrow> parse_args data ts pos' (acc @ [arg]))"

text \<open>
  The result of the two decoders is the returned flag and the list \<^verbatim>\<open>out\<close> afterwards;
  \<open>None\<close> is a read outside the packet.
\<close>

type_synonym parse_result = "(bool \<times> osc_message list) option"

definition parse_message :: "bytes \<Rightarrow> osc_message list \<Rightarrow> parse_result" where
  "parse_message data out =
     (case read_string data 0 of
        None \<Rightarrow> Some (False, out)
      | Some (pos, addr) \<Rightarrow>
          (if addr = [] \<or> hd addr \<noteq> CHR ''/'' then Some (False, out)
           else case read_string data pos of
             None \<Rightarrow> Some (False, out)
           | Some (pos', tags) \<Rightarrow>
               (if tags = [] \<or> hd tags \<noteq> CHR '','' then Some (False, out)
                else case parse_args data (tl tags) pos' [] of
                  Fault \<Rightarrow> None
                | Reject \<Rightarrow> Some (False, out)
                | Accept as \<Rightarrow> Some (True, out @ [\<lparr>address = addr, args = as\<rparr>]))))"

definition bundle_tag :: bytes where
  "bundle_tag = to_bytes (''#bundle'' @ [NUL])"

function (sequential) osc_parse_packet :: "bytes \<Rightarrow> osc_message list \<Rightarrow> parse_result"
  and parse_bundle :: "bytes \<Rightarrow> nat \<Rightarrow> osc_message list \<Rightarrow> parse_result" where
  "osc_parse_packet data out =
     (if length data < 4 \<or> length data mod 4 \<noteq> 0 then Some (False, out)
      else if 16 \<le> length data \<and> take 8 data = bundle_tag then parse_bundle data 16 out
      else parse_message data out)"
| "parse_bundle data pos out =
     (if pos + 4 \<le> length data
      then case read_be32 data pos of None \<Rightarrow> None
        | Some elem \<Rightarrow>
            (if elem = 0 \<or> unat elem > size_sub (length data) (pos + 4) then Some (True, out)
             else case osc_parse_packet (take (unat elem) (drop (pos + 4) data)) out of
               None \<Rightarrow> None
             | Some (_, out') \<Rightarrow> parse_bundle data (pos + 4 + unat elem) out')
      else Some (True, out))"
  by pat_completeness auto
termination
proof (relation "measure (\<lambda>x. case x of Inl (data, out) \<Rightarrow> 2 * length data + 1
                          | Inr (data, pos, out) \<Rightarrow> 2 * length data - pos)", goal_cases)
  case 1
  show ?case by simp
next
  case 2
  then show ?case by simp
next
  case (3 data pos out elem)
  then have "unat elem \<le> length data - (pos + 4)"
    using size_sub_le [of "pos + 4" "length data"] by simp
  with 3 show ?case by simp
next
  case (4 data pos out elem)
  then have "unat elem \<le> length data - (pos + 4)"
    using size_sub_le [of "pos + 4" "length data"] by simp
  with 4 show ?case by simp
qed

declare osc_parse_packet.simps [simp del] parse_bundle.simps [simp del]

subsection \<open>Writing\<close>

definition write_be32 :: "bytes \<Rightarrow> 32 word \<Rightarrow> bytes" where
  "write_be32 buf v =
     buf @ [ucast (drop_bit 24 v), ucast (drop_bit 16 v), ucast (drop_bit 8 v), ucast v]"

function pad_loop :: "bytes \<Rightarrow> nat \<Rightarrow> bytes" where
  "pad_loop buf len = (if len mod 4 \<noteq> 0 then pad_loop (buf @ [0]) (Suc len) else buf)"
  by pat_completeness auto
termination
  by (relation "measure (\<lambda>(buf, len). if len mod 4 = 0 then 0 else 4 - len mod 4)")
    (auto simp: mod_Suc)

declare pad_loop.simps [simp del]

definition write_padded_string :: "bytes \<Rightarrow> string \<Rightarrow> bytes" where
  "write_padded_string buf str = pad_loop (buf @ to_bytes (str @ [NUL])) (length str + 1)"

fun push_zeros :: "nat \<Rightarrow> bytes \<Rightarrow> bytes" where
  "push_zeros 0 buf = buf"
| "push_zeros (Suc pad) buf = push_zeros pad (buf @ [0])"

definition build_arg :: "bytes \<Rightarrow> osc_argument \<Rightarrow> bytes" where
  "build_arg buf a =
     (if arg_type a = CHR ''i'' then write_be32 buf (arg_i a)
      else if arg_type a = CHR ''f'' then write_be32 buf (arg_f a)
      else if arg_type a = CHR ''b'' then
        (let blob = word_of_nat (length (arg_b a)) :: 32 word
         in push_zeros (unat ((4 - (blob AND 3)) AND 3)) (write_be32 buf blob @ arg_b a))
      else write_padded_string buf (c_str (arg_s a)))"

definition build_tags :: "osc_argument list \<Rightarrow> string" where
  "build_tags as = '','' @ map (\<lambda>a. if arg_type a \<noteq> NUL then arg_type a else CHR ''s'') as"

definition osc_build_message :: "bytes \<Rightarrow> string \<Rightarrow> osc_argument list \<Rightarrow> bytes" where
  "osc_build_message buf addr as =
     foldl build_arg
       (write_padded_string (write_padded_string buf addr) (c_str (build_tags as))) as"

subsection \<open>Argument accessors\<close>

definition arg_bool :: "osc_message \<Rightarrow> nat \<Rightarrow> bool \<Rightarrow> bool" where
  "arg_bool m index d =
     (if length (args m) \<le> index then d
      else
        let a = args m ! index
        in if arg_type a = CHR ''T'' then True
           else if arg_type a = CHR ''F'' then False
           else if arg_type a = CHR ''i'' then arg_i a \<noteq> 0
           else if arg_type a = CHR ''f'' then \<not> f32_eq (arg_f a) f32_zero
           else d)"

definition arg_int :: "(f32 \<Rightarrow> int32) \<Rightarrow> osc_message \<Rightarrow> nat \<Rightarrow> int32 \<Rightarrow> int32" where
  "arg_int oor m index d =
     (if length (args m) \<le> index then d
      else
        let a = args m ! index
        in if arg_type a = CHR ''i'' \<or> arg_type a = CHR ''T'' \<or> arg_type a = CHR ''F''
           then arg_i a
           else if arg_type a = CHR ''f'' then f32_to_int32 oor (arg_f a)
           else d)"

definition arg_float :: "osc_message \<Rightarrow> nat \<Rightarrow> f32 \<Rightarrow> f32" where
  "arg_float m index d =
     (if length (args m) \<le> index then d
      else
        let a = args m ! index
        in if arg_type a = CHR ''f'' then arg_f a
           else if arg_type a = CHR ''i'' then f32_of_int (sint (arg_i a))
           else d)"

definition arg_string :: "osc_message \<Rightarrow> nat \<Rightarrow> string \<Rightarrow> string" where
  "arg_string m index d =
     (if length (args m) \<le> index then d
      else
        let a = args m ! index in if arg_type a = CHR ''s'' then arg_s a else d)"

subsection \<open>Memory safety of the decoder\<close>

lemma read_be32_in_bounds: "pos + 4 \<le> length data \<Longrightarrow> \<exists>v. read_be32 data pos = Some v"
  by (simp add: read_be32_def)

lemma read_be32_Some_iff: "(\<exists>v. read_be32 data pos = Some v) \<longleftrightarrow> pos + 4 \<le> length data"
  by (simp add: read_be32_def)

lemma read_string_bound:
  assumes "read_string data pos = Some (pos', s)" "aligned4 pos" "aligned4 (length data)"
  shows "pos \<le> pos' \<and> pos' \<le> length data \<and> aligned4 pos'"
proof -
  from assms(1) have lt: "pos < length data"
    and z: "0 \<in> set (drop pos data)"
    and p': "pos' = pos + string_span (length (takeWhile (\<lambda>b. b \<noteq> 0) (drop pos data)))"
    by (auto simp: read_string_def Let_def split: if_splits)
  define n where "n = length (takeWhile (\<lambda>b. b \<noteq> 0) (drop pos data))"
  have n: "n < length data - pos"
    using length_takeWhile_less [OF z] by (simp add: n_def)
  have "(n + 4) mod 2 ^ 32 div 4 * 4 \<le> (n + 4) div 4 * 4"
    by (intro mult_le_mono1 div_le_mono mod_less_eq_dividend)
  also have "\<dots> = (n + 1 + 3) div 4 * 4" by (simp add: add.assoc)
  also have "\<dots> \<le> length data - pos"
    using n by (intro round_up_aligned_le aligned4_diff assms) simp
  finally have "string_span n \<le> length data - pos" by (simp only: string_span_def)
  moreover have "aligned4 (string_span n)" by (simp only: string_span_def aligned4_mult)
  ultimately show ?thesis using lt assms(2) by (simp add: p' n_def [symmetric])
qed

text \<open>One argument: no fault, and the position stays aligned and inside the packet.\<close>

lemma parse_arg_safe:
  assumes "aligned4 pos" "aligned4 (length data)" "pos \<le> length data"
  shows "parse_arg data t pos \<noteq> Fault"
    and "parse_arg data t pos = Accept (a, pos') \<Longrightarrow> pos' \<le> length data \<and> aligned4 pos'"
proof -
  have blob: "pos + 4 + unat v \<le> length data \<and> pos + 4 + blob_span v \<le> length data
      \<and> aligned4 (pos + 4 + blob_span v)"
    if b: "pos + 4 \<le> length data" "\<not> size_sub (length data) (pos + 4) < unat v" for v :: "32 word"
  proof -
    have le: "unat v \<le> length data - (pos + 4)"
      using size_sub_le [OF b(1)] b(2) by linarith
    have "blob_span v \<le> (unat v + 3) div 4 * 4"
      unfolding blob_span_def by (intro mult_le_mono1 div_le_mono mod_less_eq_dividend)
    also have "\<dots> \<le> length data - (pos + 4)"
      using le assms by (intro round_up_aligned_le aligned4_diff) simp_all
    finally have "blob_span v \<le> length data - (pos + 4)" .
    moreover have "aligned4 (blob_span v)" by (simp only: blob_span_def aligned4_mult)
    moreover have "pos + 4 + unat v \<le> length data" "pos + 4 + blob_span v \<le> length data"
      using b(1) le calculation(1) by linarith+
    ultimately show ?thesis using assms(1) by simp
  qed
  have faults: "parse_arg data t pos \<noteq> Fault"
  proof (cases "t = CHR ''b''")
    case True
    then show ?thesis
      using blob read_be32_in_bounds [of pos data]
      by (auto simp: parse_arg_def Let_def not_less split: option.splits) (meson leD)
  next
    case False
    then show ?thesis
      by (auto simp: parse_arg_def Let_def read_be32_def split: option.splits)
  qed
  show "parse_arg data t pos \<noteq> Fault" by (rule faults)
  assume acc: "parse_arg data t pos = Accept (a, pos')"
  show "pos' \<le> length data \<and> aligned4 pos'"
  proof (cases "t = CHR ''b''")
    case True
    with acc obtain v where "pos + 4 \<le> length data"
      "\<not> size_sub (length data) (pos + 4) < unat v" "pos' = pos + 4 + blob_span v"
      by (auto simp: parse_arg_def Let_def split: if_splits option.splits)
    with blob show ?thesis by blast
  next
    case nb: False
    show ?thesis
    proof (cases "t = CHR ''s''")
      case True
      with acc have "\<exists>s. read_string data pos = Some (pos', s)"
        by (auto simp: parse_arg_def Let_def split: option.splits)
      with assms show ?thesis by (auto dest: read_string_bound)
    next
      case False
      with nb acc have "pos' = pos \<or> pos' = pos + 4 \<and> pos + 4 \<le> length data
          \<or> pos' = pos + 8 \<and> pos + 8 \<le> length data"
        unfolding parse_arg_def Let_def by (simp split: if_splits option.splits)
      with assms show ?thesis by auto
    qed
  qed
qed

lemma parse_args_safe:
  "aligned4 pos \<Longrightarrow> aligned4 (length data) \<Longrightarrow> pos \<le> length data \<Longrightarrow>
   parse_args data ts pos acc \<noteq> Fault"
proof (induction ts arbitrary: pos acc)
  case (Cons t ts)
  from Cons.prems have "parse_arg data t pos \<noteq> Fault" by (rule parse_arg_safe)
  with Cons parse_arg_safe(2) [OF Cons.prems] show ?case
    by (auto split: outcome.splits)
qed simp

lemma parse_message_safe:
  assumes al: "aligned4 (length data)"
  shows "parse_message data out \<noteq> None"
proof -
  have "parse_args data ts pos' [] \<noteq> Fault"
    if "read_string data 0 = Some (pos, a)" "read_string data pos = Some (pos', tags)"
    for pos a pos' tags ts
  proof -
    from that(1) al have "aligned4 pos" by (auto dest: read_string_bound)
    with read_string_bound [OF that(2) _ al] show ?thesis
      using al by (intro parse_args_safe) auto
  qed
  then show ?thesis by (auto simp: parse_message_def split: option.splits outcome.splits)
qed

lemma osc_parse_packet_total:
  "osc_parse_packet data out \<noteq> None"
  "parse_bundle data pos out \<noteq> None"
proof (induction data out and data pos out rule: osc_parse_packet_parse_bundle.induct)
  case (1 data out)
  then show ?case
    using parse_message_safe [of data out]
    by (auto simp: osc_parse_packet.simps [of data out] aligned4_def mod_0_imp_dvd)
next
  case (2 data pos out)
  show ?case
  proof (cases "pos + 4 \<le> length data")
    case False
    then show ?thesis by (simp add: parse_bundle.simps [of data pos out])
  next
    case True
    then obtain elem where e: "read_be32 data pos = Some elem"
      using read_be32_in_bounds by blast
    show ?thesis
    proof (cases "elem = 0 \<or> unat elem > size_sub (length data) (pos + 4)")
      case stop: True
      with True e show ?thesis by (simp add: parse_bundle.simps [of data pos out])
    next
      case go: False
      with 2(1) True e
      have "osc_parse_packet (take (unat elem) (drop (pos + 4) data)) out \<noteq> None" by blast
      then obtain b out' where
        o: "osc_parse_packet (take (unat elem) (drop (pos + 4) data)) out = Some (b, out')"
        by auto
      with 2(2) True e go have "parse_bundle data (pos + 4 + unat elem) out' \<noteq> None" by blast
      with True e go o show ?thesis by (simp add: parse_bundle.simps [of data pos out])
    qed
  qed
qed

subsection \<open>What the decoder accepts\<close>

definition known_tags :: "char set" where
  "known_tags = set ''ifsbTFdhtmrc''"

definition parsed_arg :: "osc_argument \<Rightarrow> bool" where
  "parsed_arg a \<longleftrightarrow> arg_type a \<in> known_tags \<and> c_string (arg_s a)"

definition parsed_message :: "osc_message \<Rightarrow> bool" where
  "parsed_message m \<longleftrightarrow>
     address m \<noteq> [] \<and> hd (address m) = CHR ''/'' \<and> c_string (address m) \<and>
     (\<forall>a \<in> set (args m). parsed_arg a)"

lemma c_string_to_string: "0 \<notin> set bs \<Longrightarrow> c_string (to_string bs)"
  unfolding c_string_def by (metis char_of_byte_eq_NUL imageE set_map)

lemma c_string_takeWhile: "c_string (to_string (takeWhile (\<lambda>b. b \<noteq> 0) bs))"
  by (rule c_string_to_string) (auto dest: set_takeWhileD)

lemma read_string_c_string: "read_string data pos = Some (pos', s) \<Longrightarrow> c_string s"
  by (auto simp: read_string_def Let_def c_string_takeWhile split: if_splits)

lemma parse_arg_unknown: "t \<notin> known_tags \<Longrightarrow> parse_arg data t pos = Reject"
  by (simp add: parse_arg_def known_tags_def Let_def)

lemma parse_arg_parsed:
  assumes "parse_arg data t pos = Accept (a, pos')"
  shows "parsed_arg a \<and> arg_type a = t"
proof -
  have t: "t \<in> known_tags"
    using assms parse_arg_unknown by fastforce
  then have "t \<in> set ''ifsbTFdhtmrc''" by (simp add: known_tags_def)
  then have "arg_type a = t \<and> c_string (arg_s a)"
    using assms
    by (simp, elim disjE)
      (auto simp: parse_arg_def empty_argument_def Let_def
         split: if_splits option.splits dest: read_string_c_string)
  with t show ?thesis by (simp add: parsed_arg_def)
qed

lemma parse_args_parsed:
  "parse_args data ts pos acc = Accept as \<Longrightarrow>
   \<exists>bs. as = acc @ bs \<and> map arg_type bs = ts \<and> (\<forall>a \<in> set bs. parsed_arg a)"
proof (induction ts arbitrary: pos acc)
  case (Cons t ts)
  then obtain a pos' where a: "parse_arg data t pos = Accept (a, pos')"
    and rest: "parse_args data ts pos' (acc @ [a]) = Accept as"
    by (auto split: outcome.splits)
  from Cons.IH [OF rest] obtain bs where "as = (acc @ [a]) @ bs" "map arg_type bs = ts"
    "\<forall>b \<in> set bs. parsed_arg b" by blast
  with parse_arg_parsed [OF a] show ?case by (intro exI [of _ "a # bs"]) simp
qed simp

lemma parse_message_parsed:
  assumes "parse_message data out = Some (ok, out')"
  shows "\<exists>ms. out' = out @ ms \<and> (\<forall>m \<in> set ms. parsed_message m) \<and> (ok \<longleftrightarrow> ms \<noteq> [])"
proof -
  from assms consider "ok = False" "out' = out"
    | addr pos as where "ok = True" "out' = out @ [\<lparr>address = addr, args = as\<rparr>]"
        "read_string data 0 = Some (pos, addr)" "addr \<noteq> []" "hd addr = CHR ''/''"
        "\<exists>ts p. parse_args data ts p [] = Accept as"
    by (auto simp: parse_message_def split: option.splits outcome.splits if_splits) blast
  then show ?thesis
  proof cases
    case 2
    then have "parsed_message \<lparr>address = addr, args = as\<rparr>"
      by (auto simp: parsed_message_def dest: read_string_c_string parse_args_parsed)
    with 2 show ?thesis by (intro exI [of _ "[\<lparr>address = addr, args = as\<rparr>]"]) simp
  qed simp
qed

lemma osc_parse_packet_parsed:
  "osc_parse_packet data out = Some (ok, out') \<Longrightarrow>
     \<exists>ms. out' = out @ ms \<and> (\<forall>m \<in> set ms. parsed_message m) \<and> (\<not> ok \<longrightarrow> ms = [])"
  "parse_bundle data pos out = Some (ok, out') \<Longrightarrow>
     ok \<and> (\<exists>ms. out' = out @ ms \<and> (\<forall>m \<in> set ms. parsed_message m))"
proof (induction data out and data pos out arbitrary: ok out' and ok out'
    rule: osc_parse_packet_parse_bundle.induct)
  case (1 data out)
  show ?case
  proof (cases "length data < 4 \<or> length data mod 4 \<noteq> 0")
    case True
    with "1.prems" show ?thesis unfolding osc_parse_packet.simps [of data out] by simp
  next
    case len: False
    show ?thesis
    proof (cases "16 \<le> length data \<and> take 8 data = bundle_tag")
      case True
      with len "1.prems" have "parse_bundle data 16 out = Some (ok, out')"
        unfolding osc_parse_packet.simps [of data out] by (simp only: if_True if_False simp_thms)
      from "1.IH" [OF len True this] show ?thesis by blast
    next
      case False
      with len "1.prems" have "parse_message data out = Some (ok, out')"
        unfolding osc_parse_packet.simps [of data out] by (simp only: if_True if_False simp_thms)
      from parse_message_parsed [OF this] show ?thesis by blast
    qed
  qed
next
  case (2 data pos out)
  from "2.prems" consider "ok = True" "out' = out"
    | elem b mid where "pos + 4 \<le> length data" "read_be32 data pos = Some elem"
        "\<not> (elem = 0 \<or> unat elem > size_sub (length data) (pos + 4))"
        "osc_parse_packet (take (unat elem) (drop (pos + 4) data)) out = Some (b, mid)"
        "parse_bundle data (pos + 4 + unat elem) mid = Some (ok, out')"
    by (auto simp: parse_bundle.simps [of data pos out] split: if_splits option.splits)
  then show ?case
  proof cases
    case 2
    from "2.IH"(1) [OF 2(1-4)] obtain ms1 where m1: "mid = out @ ms1"
      "\<forall>m \<in> set ms1. parsed_message m" by blast
    from "2.IH"(2) [OF 2(1-4) refl 2(5)] obtain ms2 where "ok" "out' = mid @ ms2"
      "\<forall>m \<in> set ms2. parsed_message m" by blast
    with m1 show ?thesis by (auto intro!: exI [of _ "ms1 @ ms2"])
  qed simp
qed

subsection \<open>Decoding inverts encoding\<close>

definition be32 :: "32 word \<Rightarrow> bytes" where
  "be32 v = [ucast (drop_bit 24 v), ucast (drop_bit 16 v), ucast (drop_bit 8 v), ucast v]"

definition padded :: "string \<Rightarrow> bytes" where
  "padded s = to_bytes s @ replicate (4 - length s mod 4) 0"

definition padded_blob :: "bytes \<Rightarrow> bytes" where
  "padded_blob b = be32 (word_of_nat (length b)) @ b @ replicate ((4 - length b mod 4) mod 4) 0"

lemma length_be32 [simp]: "length (be32 v) = 4"
  by (simp add: be32_def)

lemma length_padded: "length (padded s) = (length s + 4) div 4 * 4"
  unfolding padded_def by simp presburger

lemma aligned4_padded [simp, align_simps]: "aligned4 (length (padded s))"
  by (simp add: length_padded)

lemma write_be32_eq: "write_be32 buf v = buf @ be32 v"
  by (simp add: write_be32_def be32_def)

lemma pad_loop_eq: "pad_loop buf n = buf @ replicate ((4 - n mod 4) mod 4) 0"
proof (induction buf n rule: pad_loop.induct)
  case (1 buf n)
  show ?case
  proof (cases "n mod 4 = 0")
    case True
    then show ?thesis by (simp add: pad_loop.simps)
  next
    case False
    then have "(4 - n mod 4) mod 4 = Suc ((4 - Suc n mod 4) mod 4)"
      by (auto simp: mod_Suc)
    with False "1.IH" show ?thesis by (simp add: pad_loop.simps [of buf n])
  qed
qed

lemma write_padded_string_eq: "write_padded_string buf s = buf @ padded s"
proof -
  have "replicate (4 - length s mod 4) (0::byte) = 0 # replicate ((4 - Suc (length s) mod 4) mod 4) 0"
    by (auto simp: mod_Suc Suc_diff_le simp flip: replicate_Suc intro!: arg_cong2 [where f = replicate])
  then show ?thesis by (simp add: write_padded_string_def padded_def pad_loop_eq)
qed

lemma push_zeros_eq: "push_zeros n buf = buf @ replicate n 0"
  by (induction n arbitrary: buf) (simp_all add: replicate_app_Cons_same)

lemma unat_and_3: "unat (w AND 3 :: 32 word) = unat w mod 4"
proof -
  have "w AND 3 = take_bit 2 w" by (simp add: take_bit_eq_mask mask_eq_exp_minus_1)
  then show ?thesis by (simp add: unsigned_take_bit_eq take_bit_eq_mod unat_mod)
qed

lemma blob_pad_eq:
  "unat ((4 - (word_of_nat n AND 3 :: 32 word)) AND 3) = (4 - n mod 4) mod 4"
proof -
  have m: "unat (word_of_nat n AND 3 :: 32 word) = n mod 4"
    unfolding unat_and_3 by (simp add: unat_of_nat mod_mod_cancel)
  then have "(word_of_nat n AND 3 :: 32 word) \<le> 4"
    by (simp add: word_le_nat_alt)
  then have "unat (4 - (word_of_nat n AND 3 :: 32 word)) = 4 - n mod 4"
    by (simp add: unat_sub m)
  then show ?thesis by (simp add: unat_and_3)
qed

lemma be32_bits:
  "push_bit 24 (ucast (ucast (drop_bit 24 v) :: byte)) OR
   push_bit 16 (ucast (ucast (drop_bit 16 v) :: byte)) OR
   push_bit 8 (ucast (ucast (drop_bit 8 v) :: byte)) OR ucast (ucast v :: byte) = (v :: 32 word)"
  (is "?w = v")
proof (rule bit_word_eqI)
  fix n :: nat
  assume n: "n < LENGTH(32)"
  consider "n < 8" | "8 \<le> n" "n < 16" | "16 \<le> n" "n < 24" | "24 \<le> n" by linarith
  then show "bit ?w n = bit v n"
  proof cases
    case 1
    then show ?thesis by (simp add: bit_simps)
  next
    case 2
    then have "n - 8 < 8" by arith
    with 2 show ?thesis by (simp add: bit_simps)
  next
    case 3
    then have "n - 16 < 8" by arith
    with 3 show ?thesis by (simp add: bit_simps) blast
  next
    case 4
    with n have "n - 24 < 8" by simp
    with 4 n show ?thesis by (simp add: bit_simps) blast
  qed
qed

lemma read_be32_append: "read_be32 (pre @ be32 v @ post) (length pre) = Some v"
  by (simp add: read_be32_def be32_def nth_append be32_bits)

lemma read_string_append:
  assumes "c_string s" "length s + 4 < 2 ^ 32"
  shows "read_string (pre @ padded s @ post) (length pre) =
           Some (length pre + length (padded s), s)"
proof -
  obtain k where k: "replicate (4 - length s mod 4) (0::byte) = 0 # replicate k 0"
    by (cases "4 - length s mod 4") (auto simp: not_le)
  have "0 \<notin> set (to_bytes s)" using assms(1) by (auto simp: c_string_def)
  then have tw: "takeWhile (\<lambda>b. b \<noteq> 0) (padded s @ post) = to_bytes s"
    by (simp add: padded_def k takeWhile_neq_append)
  moreover have "padded s \<noteq> []" "0 \<in> set (padded s)" by (simp_all add: padded_def k)
  moreover have "string_span (length s) = length (padded s)"
    using assms(2) by (simp add: string_span_def length_padded)
  ultimately show ?thesis by (simp add: read_string_def)
qed

text \<open>
  The arguments the encoder is meant for: the outbound typetags \<open>i f s b\<close>, with the fields
  that do not belong to the type unset and sizes below \<open>2 ^ 32\<close>.
\<close>

definition wire_arg :: "osc_argument \<Rightarrow> bool" where
  "wire_arg a \<longleftrightarrow>
     (\<exists>v. a = osc_int v) \<or> (\<exists>v. a = osc_flt v) \<or>
     (\<exists>s. a = osc_str s \<and> c_string s \<and> length s + 4 < 2 ^ 32) \<or>
     (\<exists>b. a = osc_blob b \<and> length b + 3 < 2 ^ 32)"

definition wire_message :: "osc_message \<Rightarrow> bool" where
  "wire_message m \<longleftrightarrow>
     c_string (address m) \<and> (\<exists>rest. address m = CHR ''/'' # rest) \<and>
     length (address m) + 4 < 2 ^ 32 \<and> length (args m) + 5 < 2 ^ 32 \<and>
     (\<forall>a \<in> set (args m). wire_arg a)"

definition enc_arg :: "osc_argument \<Rightarrow> bytes" where
  "enc_arg a =
     (if arg_type a = CHR ''i'' then be32 (arg_i a)
      else if arg_type a = CHR ''f'' then be32 (arg_f a)
      else if arg_type a = CHR ''b'' then padded_blob (arg_b a)
      else padded (c_str (arg_s a)))"

lemmas arg_defs = osc_int_def osc_flt_def osc_str_def osc_blob_def empty_argument_def

lemma build_arg_eq: "build_arg buf a = buf @ enc_arg a"
  unfolding build_arg_def enc_arg_def write_be32_eq write_padded_string_eq push_zeros_eq
    padded_blob_def Let_def blob_pad_eq
  by (simp only: append_assoc if_distrib [where f = "append buf"])

lemma foldl_build_arg: "foldl build_arg buf as = buf @ concat (map enc_arg as)"
  by (induction as arbitrary: buf) (simp_all add: build_arg_eq)

lemma osc_build_message_eq:
  "osc_build_message buf addr as =
     buf @ padded addr @ padded (c_str (build_tags as)) @ concat (map enc_arg as)"
  by (simp add: osc_build_message_def foldl_build_arg write_padded_string_eq)

lemma length_padded_blob: "length (padded_blob b) = 4 + (length b + 3) div 4 * 4"
  by (simp add: padded_blob_def pad_up4)

lemma aligned4_enc_arg [simp, align_simps]: "aligned4 (length (enc_arg a))"
  by (simp add: enc_arg_def length_padded_blob)

lemma aligned4_concat [align_simps]:
  "\<forall>x \<in> set xs. aligned4 (length (f x)) \<Longrightarrow> aligned4 (length (concat (map f xs)))"
  by (induction xs) auto

lemma aligned4_build: "aligned4 (length (osc_build_message [] addr as))"
  by (simp add: osc_build_message_eq aligned4_concat)

lemma length_build_ge: "8 \<le> length (osc_build_message [] addr as)"
proof -
  have "4 \<le> length (padded s)" for s
    using length_padded [of s] by presburger
  from this [of addr] this [of "c_str (build_tags as)"] show ?thesis
    by (simp add: osc_build_message_eq)
qed

lemma parse_enc_arg:
  assumes "wire_arg a" "length pre + length (enc_arg a) + length post < 2 ^ 64"
  shows "parse_arg (pre @ enc_arg a @ post) (arg_type a) (length pre) =
           Accept (a, length pre + length (enc_arg a))"
  using assms(1) unfolding wire_arg_def
proof (elim disjE exE conjE)
  fix v assume a: "a = osc_int v"
  then have "enc_arg a = be32 v" by (simp add: enc_arg_def arg_defs)
  then show ?thesis by (simp add: a parse_arg_def read_be32_append arg_defs)
next
  fix v assume a: "a = osc_flt v"
  then have "enc_arg a = be32 v" by (simp add: enc_arg_def arg_defs)
  then show ?thesis by (simp add: a parse_arg_def read_be32_append arg_defs)
next
  fix s assume a: "a = osc_str s" "c_string s" "length s + 4 < 2 ^ 32"
  then have "enc_arg a = padded s" by (simp add: enc_arg_def arg_defs)
  then show ?thesis using a(2,3) by (simp add: a(1) parse_arg_def read_string_append arg_defs)
next
  fix b assume a: "a = osc_blob b" "length b + 3 < 2 ^ 32"
  then have e: "enc_arg a = padded_blob b" by (simp add: enc_arg_def arg_defs)
  define data where "data = pre @ padded_blob b @ post"
  define n :: "32 word" where "n = word_of_nat (length b)"
  have n: "unat n = length b"
    using a(2) by (simp add: n_def unat_of_nat)
  have p: "data = pre @ be32 n @ (b @ replicate ((4 - length b mod 4) mod 4) 0 @ post)"
    by (simp add: data_def padded_blob_def n_def)
  have rd: "read_be32 data (length pre) = Some n"
    unfolding p by (rule read_be32_append)
  have sp: "blob_span n = (length b + 3) div 4 * 4"
    using a(2) by (simp add: blob_span_def n)
  have up: "length b \<le> (length b + 3) div 4 * 4" by presburger
  have len: "length data = length pre + (4 + (length b + 3) div 4 * 4) + length post"
    by (simp add: data_def length_padded_blob)
  have sub: "size_sub (length data) (length pre + 4) = length data - (length pre + 4)"
    using assms(2) by (intro size_sub_eq) (simp_all add: e length_padded_blob len)
  have tk: "take (length b) (drop (length pre + 4) data) = b"
    by (simp add: p)
  have bounds: "\<not> length data < length pre + 4" "\<not> length data - (length pre + 4) < length b"
    "\<not> length data < length pre + 4 + length b"
    using up by (simp_all add: len)
  have "parse_arg data CHR ''b'' (length pre) =
      Accept (osc_blob b, length pre + 4 + (length b + 3) div 4 * 4)"
    unfolding parse_arg_def Let_def rd
    by (simp add: bounds sub n tk sp arg_defs)
  then show ?thesis by (simp add: data_def e) (simp add: a(1) arg_defs length_padded_blob add.assoc)
qed

lemma parse_enc_args:
  assumes "\<forall>a \<in> set as. wire_arg a"
    "length pre + length (concat (map enc_arg as)) < 2 ^ 64"
  shows "parse_args (pre @ concat (map enc_arg as)) (map arg_type as) (length pre) acc =
           Accept (acc @ as)"
  using assms
proof (induction as arbitrary: pre acc)
  case (Cons a as)
  then show ?case
    using parse_enc_arg [of a pre "concat (map enc_arg as)"]
      Cons.IH [of "pre @ enc_arg a" "acc @ [a]"]
    by simp
qed simp

lemma wire_arg_type: "wire_arg a \<Longrightarrow> arg_type a \<in> {CHR ''i'', CHR ''f'', CHR ''s'', CHR ''b''}"
  by (auto simp: wire_arg_def arg_defs)

lemma build_tags_wire:
  assumes "\<forall>a \<in> set as. wire_arg a"
  shows "build_tags as = '','' @ map arg_type as \<and> c_string (build_tags as)"
  using assms
proof (induction as)
  case (Cons a as)
  then show ?case using wire_arg_type [of a] by (auto simp: build_tags_def)
qed (simp add: build_tags_def)

lemma parse_message_build:
  assumes w: "wire_message m"
    and len: "length (osc_build_message [] (address m) (args m)) < 2 ^ 64"
  shows "parse_message (osc_build_message [] (address m) (args m)) out = Some (True, out @ [m])"
proof -
  from w have addr: "c_string (address m)" "length (address m) + 4 < 2 ^ 32"
      "address m \<noteq> []" "hd (address m) = CHR ''/''"
    and as: "\<forall>a \<in> set (args m). wire_arg a" and n: "length (args m) + 5 < 2 ^ 32"
    by (auto simp: wire_message_def)
  from build_tags_wire [OF as] have tags: "c_str (build_tags (args m)) = '','' @ map arg_type (args m)"
    "c_string ('','' @ map arg_type (args m))" by auto
  define body where "body = concat (map enc_arg (args m))"
  define ts where "ts = '','' @ map arg_type (args m)"
  have data: "osc_build_message [] (address m) (args m) = padded (address m) @ padded ts @ body"
    by (simp add: osc_build_message_eq tags body_def ts_def)
  have r1: "read_string (padded (address m) @ padded ts @ body) 0 =
      Some (length (padded (address m)), address m)"
    using read_string_append [OF addr(1,2), of "[]"] by simp
  have r2: "read_string (padded (address m) @ padded ts @ body) (length (padded (address m))) =
      Some (length (padded (address m)) + length (padded ts), ts)"
    using n tags(2) by (intro read_string_append) (simp_all add: ts_def)
  have ap: "parse_args (padded (address m) @ padded ts @ body) (map arg_type (args m))
      (length (padded (address m)) + length (padded ts)) [] = Accept (args m)"
    using parse_enc_args [OF as, of "padded (address m) @ padded ts" "[]"] len
    by (simp add: data body_def)
  have "parse_args (padded (address m) @ padded ts @ body) (tl ts)
      (length (padded (address m)) + length (padded ts)) [] = Accept (args m)"
    using ap by (simp add: ts_def)
  moreover have "ts \<noteq> []" "hd ts = CHR '',''" by (simp_all add: ts_def)
  ultimately show ?thesis
    by (simp add: data parse_message_def r1 r2 addr)
qed

lemma hd_build: "address m \<noteq> [] \<Longrightarrow> hd (osc_build_message [] (address m) as) = byte_of (hd (address m))"
  by (cases "address m") (simp_all add: osc_build_message_eq padded_def)

lemma bundle_tag_hd: "take 8 data = bundle_tag \<Longrightarrow> hd data = byte_of CHR ''#''"
  by (cases data) (auto simp: bundle_tag_def)

lemma osc_parse_packet_build:
  assumes "wire_message m" "length (osc_build_message [] (address m) (args m)) < 2 ^ 64"
  shows "osc_parse_packet (osc_build_message [] (address m) (args m)) out = Some (True, out @ [m])"
proof -
  let ?d = "osc_build_message [] (address m) (args m)"
  have "\<not> (length ?d < 4 \<or> length ?d mod 4 \<noteq> 0)"
    using length_build_ge [of "address m" "args m"] aligned4_build [of "address m" "args m"]
    by (auto simp: aligned4_def)
  moreover have "take 8 ?d \<noteq> bundle_tag"
    using assms(1) bundle_tag_hd [of ?d] hd_build [of m "args m"]
    by (auto simp: wire_message_def)
  ultimately show ?thesis
    unfolding osc_parse_packet.simps [of ?d] by (simp only: parse_message_build [OF assms]) simp
qed

text \<open>A bundle: the 16-byte header, then every element behind its 4-byte size.\<close>

primrec enc_elements :: "bytes list \<Rightarrow> bytes" where
  "enc_elements [] = []"
| "enc_elements (e # es) = be32 (word_of_nat (length e)) @ e @ enc_elements es"

definition enc_bundle :: "bytes list \<Rightarrow> bytes" where
  "enc_bundle es = bundle_tag @ replicate 8 0 @ enc_elements es"

definition enc_message :: "osc_message \<Rightarrow> bytes" where
  "enc_message m = osc_build_message [] (address m) (args m)"

definition wire_element :: "osc_message \<Rightarrow> bool" where
  "wire_element m \<longleftrightarrow> wire_message m \<and> length (enc_message m) < 2 ^ 32"

lemma length_bundle_tag [simp]: "length bundle_tag = 8"
  by (simp add: bundle_tag_def)

lemma aligned4_enc_message [simp, align_simps]: "aligned4 (length (enc_message m))"
  by (simp add: enc_message_def aligned4_build)

lemma aligned4_enc_elements:
  "\<forall>e \<in> set es. aligned4 (length e) \<Longrightarrow> aligned4 (length (enc_elements es))"
  by (induction es) auto

lemma parse_bundle_elements:
  assumes "\<forall>m \<in> set ms. wire_element m"
    and "length pre + length (enc_elements (map enc_message ms)) < 2 ^ 64"
  shows "parse_bundle (pre @ enc_elements (map enc_message ms)) (length pre) out =
         Some (True, out @ ms)"
  using assms
proof (induction ms arbitrary: pre out)
  case Nil
  then show ?case by (simp add: parse_bundle.simps)
next
  case (Cons m ms)
  define e where "e = enc_message m"
  define rest where "rest = enc_elements (map enc_message ms)"
  define n :: "32 word" where "n = word_of_nat (length e)"
  define data where "data = pre @ be32 n @ e @ rest"
  from Cons.prems have e: "length e < 2 ^ 32" "wire_message m"
    and total: "length pre + 4 + length e + length rest < 2 ^ 64"
    by (simp_all add: e_def rest_def wire_element_def)
  have n: "unat n = length e" using e(1) by (simp add: n_def unat_of_nat)
  have "8 \<le> length e" by (simp add: e_def enc_message_def length_build_ge)
  with n have n0: "n \<noteq> 0" by auto
  have rd: "read_be32 data (length pre) = Some n"
    unfolding data_def by (rule read_be32_append)
  have len: "length data = length pre + 4 + length e + length rest" by (simp add: data_def)
  have sub: "size_sub (length data) (length pre + 4) = length data - (length pre + 4)"
    using total by (intro size_sub_eq) (simp_all add: len)
  have tk: "take (length e) (drop (length pre + 4) data) = e" by (simp add: data_def)
  have el: "osc_parse_packet e out = Some (True, out @ [m])"
    using e osc_parse_packet_build [of m out] by (simp add: e_def enc_message_def)
  have "parse_bundle ((pre @ be32 n @ e) @ rest) (length (pre @ be32 n @ e)) (out @ [m]) =
      Some (True, (out @ [m]) @ ms)"
    unfolding rest_def using Cons.prems(1) total
    by (intro Cons.IH) (simp_all add: rest_def [symmetric])
  then have IH: "parse_bundle data (length pre + 4 + length e) (out @ [m]) = Some (True, out @ m # ms)"
    by (simp add: data_def add.assoc)
  have stop: "\<not> (n = 0 \<or> size_sub (length data) (length pre + 4) < unat n)"
    unfolding sub by (simp add: n n0 len)
  have "parse_bundle data (length pre) out = Some (True, out @ m # ms)"
    unfolding parse_bundle.simps [of data "length pre"] rd option.case
    using stop by (simp add: n len tk el IH)
  then show ?case by (simp add: data_def n_def e_def rest_def)
qed

lemma osc_parse_packet_bundle:
  assumes "\<forall>m \<in> set ms. wire_element m"
    and "length (enc_bundle (map enc_message ms)) < 2 ^ 64"
  shows "osc_parse_packet (enc_bundle (map enc_message ms)) out = Some (True, out @ ms)"
proof -
  let ?b = "enc_bundle (map enc_message ms)"
  have "aligned4 (length ?b)"
    unfolding enc_bundle_def length_append
    by (intro aligned4_add aligned4_enc_elements) auto
  then have len: "\<not> (length ?b < 4 \<or> length ?b mod 4 \<noteq> 0)"
    by (auto simp: aligned4_def enc_bundle_def)
  have tag: "16 \<le> length ?b \<and> take 8 ?b = bundle_tag"
    by (simp add: enc_bundle_def)
  have "parse_bundle ?b 16 out = Some (True, out @ ms)"
    using parse_bundle_elements [OF assms(1), of "bundle_tag @ replicate 8 0" out] assms(2)
    by (simp add: enc_bundle_def)
  with len tag show ?thesis
    unfolding osc_parse_packet.simps [of ?b] by (simp only: if_False if_True simp_thms)
qed

end
