(* ===== verification/OscGlob.thy ===== *)
theory OscGlob
  imports OscPrelude
begin

text \<open>
  Pattern and selector matching (\<^verbatim>\<open>osc_glob_match\<close>, \<^verbatim>\<open>osc_has_wildcard\<close>, \<^verbatim>\<open>osc_index_segment\<close>
  and \<^verbatim>\<open>osc_selector_matches\<close> of \<^verbatim>\<open>osc-util.cpp\<close>), with the two functions of the C library
  they lean on: \<^verbatim>\<open>atoi\<close> (as glibc computes it, \<^verbatim>\<open>(int)strtol(s, NULL, 10)\<close>) and
  \<^verbatim>\<open>std::to_string\<close>.  The glob is the two-pointer loop of the source; the lemmas relate it
  to the textbook recursion \<open>glob_spec\<close>, bound its number of iterations, and show on which
  strings the two differ.
\<close>

subsection \<open>Decimal numbers\<close>

definition is_digit :: "char \<Rightarrow> bool" where
  "is_digit c \<longleftrightarrow> 48 \<le> (of_char c :: nat) \<and> (of_char c :: nat) \<le> 57"

definition digit_value :: "char \<Rightarrow> nat" where
  "digit_value c = of_char c - 48"

definition digit_char :: "nat \<Rightarrow> char" where
  "digit_char d = char_of (48 + d)"

definition decimal_value :: "string \<Rightarrow> nat" where
  "decimal_value ds = foldl (\<lambda>n c. 10 * n + digit_value c) 0 ds"

fun nat_digits :: "nat \<Rightarrow> string" where
  "nat_digits n = (if n < 10 then [digit_char n] else nat_digits (n div 10) @ [digit_char (n mod 10)])"

declare nat_digits.simps [simp del]

definition std_to_string :: "int \<Rightarrow> string" where
  "std_to_string i = (if i < 0 then CHR ''-'' # nat_digits (nat (- i)) else nat_digits (nat i))"

definition is_space :: "char \<Rightarrow> bool" where
  "is_space c \<longleftrightarrow> (of_char c :: nat) = 32 \<or> 9 \<le> (of_char c :: nat) \<and> (of_char c :: nat) \<le> 13"

definition strtol :: "string \<Rightarrow> int" where
  "strtol s =
     (let t = dropWhile is_space s;
          neg = (t \<noteq> [] \<and> hd t = CHR ''-'');
          u = (if t \<noteq> [] \<and> (hd t = CHR ''-'' \<or> hd t = CHR ''+'') then tl t else t);
          v = int (decimal_value (takeWhile is_digit u))
      in if neg then max (- (2 ^ 63)) (- v) else min (2 ^ 63 - 1) v)"

definition atoi :: "string \<Rightarrow> int" where
  "atoi s = sint (word_of_int (strtol s) :: 32 word)"

lemma of_char_digit_char: "d < 10 \<Longrightarrow> (of_char (digit_char d) :: nat) = 48 + d"
  by (simp add: digit_char_def)

lemma is_digit_digit_char [simp]: "d < 10 \<Longrightarrow> is_digit (digit_char d)"
  and digit_value_digit_char [simp]: "d < 10 \<Longrightarrow> digit_value (digit_char d) = d"
  by (simp_all add: is_digit_def digit_value_def of_char_digit_char)

lemma decimal_value_snoc: "decimal_value (ds @ [c]) = 10 * decimal_value ds + digit_value c"
  by (simp add: decimal_value_def)

lemma nat_digits_value: "decimal_value (nat_digits n) = n \<and> (\<forall>c \<in> set (nat_digits n). is_digit c)
    \<and> nat_digits n \<noteq> []"
proof (induction n rule: nat_digits.induct)
  case (1 n)
  show ?case
  proof (cases "n < 10")
    case True
    then show ?thesis by (simp add: nat_digits.simps decimal_value_def)
  next
    case False
    with 1 have IH: "decimal_value (nat_digits (n div 10)) = n div 10"
      "\<forall>c \<in> set (nat_digits (n div 10)). is_digit c" by auto
    have "nat_digits n = nat_digits (n div 10) @ [digit_char (n mod 10)]"
      using False by (simp add: nat_digits.simps [of n])
    then show ?thesis using IH by (auto simp: decimal_value_snoc)
  qed
qed

lemma is_digit_not: "is_digit c \<Longrightarrow> \<not> is_space c \<and> c \<noteq> CHR ''-'' \<and> c \<noteq> CHR ''+'' \<and> c \<noteq> NUL
    \<and> c \<noteq> CHR ''*'' \<and> c \<noteq> CHR ''?'' \<and> c \<noteq> CHR ''/''"
  by (auto simp: is_digit_def is_space_def)

lemma strtol_digits:
  assumes "\<forall>c \<in> set s. is_digit c" "s \<noteq> []"
  shows "strtol s = min (2 ^ 63 - 1) (int (decimal_value s))"
proof -
  from assms obtain c t where s: "s = c # t" and c: "is_digit c" by (cases s) auto
  have "dropWhile is_space s = s" "hd s \<noteq> CHR ''-''" "hd s \<noteq> CHR ''+''"
    using is_digit_not [OF c] by (simp_all add: s)
  then have "strtol s = min (2 ^ 63 - 1) (int (decimal_value (takeWhile is_digit s)))"
    by (simp add: strtol_def Let_def)
  also have "takeWhile is_digit s = s" using assms(1) by (simp add: takeWhile_eq_all_conv)
  finally show ?thesis .
qed

lemma sint_small:
  assumes "- (2 ^ 31) \<le> i" "i < 2 ^ 31"
  shows "sint (word_of_int i :: 32 word) = i"
proof -
  have "signed_take_bit 31 i = i" using assms by (intro signed_take_bit_int_eq_self) simp_all
  then show ?thesis by (simp add: sint_sbintrunc')
qed

lemma atoi_nat_digits:
  assumes "n < 2 ^ 31"
  shows "atoi (nat_digits n) = int n"
proof -
  have "strtol (nat_digits n) = int n"
    using nat_digits_value [of n] assms by (simp add: strtol_digits)
  then show ?thesis using assms by (simp only: atoi_def) (rule sint_small, simp_all)
qed

subsection \<open>Glob matching\<close>

fun skip_stars :: "string \<Rightarrow> string" where
  "skip_stars (c # p) = (if c = CHR ''*'' then skip_stars p else c # p)"
| "skip_stars [] = []"

text \<open>
  The loop over \<^verbatim>\<open>*str\<close>: \<open>p\<close> and \<open>s\<close> are what \<^verbatim>\<open>pattern\<close> and \<^verbatim>\<open>str\<close> point to, \<open>r\<close> holds the
  two restart pointers (\<open>None\<close> while they are null).  At the end of the pattern
  \<^verbatim>\<open>*pattern\<close> is NUL, which equals no character of the string.
\<close>

function glob_loop :: "string \<Rightarrow> string \<Rightarrow> (string \<times> string) option \<Rightarrow> bool" where
  "glob_loop p s r =
     (case s of
        [] \<Rightarrow> skip_stars p = []
      | c # s' \<Rightarrow>
          (if p \<noteq> [] \<and> (hd p = CHR ''?'' \<or> hd p = c) then glob_loop (tl p) s' r
           else if p \<noteq> [] \<and> hd p = CHR ''*'' then glob_loop (tl p) s (Some (tl p, s))
           else case r of
             Some (rp, rs) \<Rightarrow> glob_loop rp (tl rs) (Some (rp, tl rs))
           | None \<Rightarrow> False))"
  by pat_completeness auto
termination
  by (relation "measures [\<lambda>(p, s, r). case r of None \<Rightarrow> Suc (length s)
                             | Some (rp, rs) \<Rightarrow> max (length rs) (length s),
                          \<lambda>(p, s, r). length p]")
    (auto split: option.splits)

declare glob_loop.simps [simp del]

lemma glob_loop_Nil: "glob_loop p [] r \<longleftrightarrow> skip_stars p = []"
  by (subst glob_loop.simps) simp

lemma glob_loop_literal: "x = CHR ''?'' \<or> x = c \<Longrightarrow> glob_loop (x # p) (c # s) r = glob_loop p s r"
  by (subst glob_loop.simps) simp

lemma glob_loop_star:
  "c \<noteq> CHR ''*'' \<Longrightarrow>
   glob_loop (CHR ''*'' # p) (c # s) r = glob_loop p (c # s) (Some (p, c # s))"
  by (subst glob_loop.simps) simp

lemma glob_loop_fail:
  "\<not> (p \<noteq> [] \<and> (hd p = CHR ''?'' \<or> hd p = c)) \<Longrightarrow> \<not> (p \<noteq> [] \<and> hd p = CHR ''*'') \<Longrightarrow>
   glob_loop p (c # s) r =
     (case r of None \<Rightarrow> False | Some (rp, rs) \<Rightarrow> glob_loop rp (tl rs) (Some (rp, tl rs)))"
  by (subst glob_loop.simps) (simp only: list.case if_False)

definition osc_glob_match :: "string \<Rightarrow> string \<Rightarrow> bool" where
  "osc_glob_match pattern str = glob_loop pattern str None"

definition osc_has_wildcard :: "string option \<Rightarrow> bool" where
  "osc_has_wildcard pattern =
     (case pattern of None \<Rightarrow> False | Some p \<Rightarrow> CHR ''*'' \<in> set p \<or> CHR ''?'' \<in> set p)"

fun all_digits :: "string \<Rightarrow> bool" where
  "all_digits [] = True"
| "all_digits (c # s) = (if \<not> is_digit c then False else all_digits s)"

definition osc_index_segment :: "string \<Rightarrow> bool" where
  "osc_index_segment segment = (if segment = [] then False else all_digits segment)"

definition osc_selector_matches :: "string \<Rightarrow> string \<Rightarrow> nat \<Rightarrow> bool" where
  "osc_selector_matches selector name index =
     (if osc_index_segment selector then atoi selector mod 2 ^ 64 = int index
      else osc_glob_match selector name)"

subsection \<open>The textbook matcher\<close>

fun glob_spec :: "string \<Rightarrow> string \<Rightarrow> bool" where
  "glob_spec [] s = (s = [])"
| "glob_spec (x # p) s =
     (if x = CHR ''*'' then \<exists>k \<le> length s. glob_spec p (drop k s)
      else case s of [] \<Rightarrow> False | c # s' \<Rightarrow> (x = CHR ''?'' \<or> x = c) \<and> glob_spec p s')"

lemma skip_stars_Nil: "skip_stars p = [] \<longleftrightarrow> glob_spec p []"
  by (induction p) auto

lemma glob_star_Cons:
  "glob_spec (CHR ''*'' # p) (c # s) \<longleftrightarrow> glob_spec p (c # s) \<or> glob_spec (CHR ''*'' # p) s"
proof
  assume "glob_spec (CHR ''*'' # p) (c # s)"
  then obtain k where "k \<le> Suc (length s)" "glob_spec p (drop k (c # s))" by auto
  then show "glob_spec p (c # s) \<or> glob_spec (CHR ''*'' # p) s"
    by (cases k) auto
next
  assume "glob_spec p (c # s) \<or> glob_spec (CHR ''*'' # p) s"
  then consider "glob_spec p (drop 0 (c # s))"
    | k where "k \<le> length s" "glob_spec p (drop (Suc k) (c # s))" by auto
  then show "glob_spec (CHR ''*'' # p) (c # s)"
    by cases (auto intro: exI [of _ 0] exI [of _ "Suc _"])
qed

lemma glob_star_drop: "glob_spec (CHR ''*'' # p) (drop k s) \<Longrightarrow> glob_spec (CHR ''*'' # p) s"
proof (induction k arbitrary: s)
  case (Suc k)
  show ?case
  proof (cases s)
    case (Cons c s')
    with Suc show ?thesis by (simp only: drop_Suc_Cons glob_star_Cons) blast
  qed (use Suc.prems in simp)
qed simp

text \<open>A literal stretch in front of a star is matched first, so the star sees what follows it.\<close>

lemma glob_literal_prefix:
  "CHR ''*'' \<notin> set q \<Longrightarrow> glob_spec (q @ p) s \<Longrightarrow> glob_spec p (drop (length q) s)"
  by (induction q arbitrary: s) (auto split: list.splits)

text \<open>
  What the loop decides while a restart point is set: the rest of the pattern matches here,
  or the pattern after the last star matches at a later position of the string.
\<close>

definition restart_ok :: "string \<Rightarrow> string \<Rightarrow> (string \<times> string) option \<Rightarrow> bool" where
  "restart_ok p s r =
     (case r of None \<Rightarrow> True
      | Some (rp, rs) \<Rightarrow> \<exists>q. rp = q @ p \<and> CHR ''*'' \<notin> set q \<and> length q \<le> length rs \<and>
                             s = drop (length q) rs)"

definition restart_match :: "(string \<times> string) option \<Rightarrow> bool" where
  "restart_match r =
     (case r of None \<Rightarrow> False
      | Some (rp, rs) \<Rightarrow> rs \<noteq> [] \<and> glob_spec (CHR ''*'' # rp) (tl rs))"

lemma glob_literal_length:
  "CHR ''*'' \<notin> set q \<Longrightarrow> glob_spec (q @ p) s \<Longrightarrow> length q \<le> length s"
  by (induction q arbitrary: s) (auto split: list.splits)

lemma restart_ok_step:
  assumes "restart_ok (x # p) (c # s) r" "x \<noteq> CHR ''*''"
  shows "restart_ok p s r"
proof (cases r)
  case None
  then show ?thesis by (simp add: restart_ok_def)
next
  case (Some a)
  with assms(1) obtain q rs where r: "r = Some (q @ x # p, rs)" "CHR ''*'' \<notin> set q"
      "c # s = drop (length q) rs"
    by (cases a) (auto simp: restart_ok_def)
  from r(3) have "length q < length rs" by (metis drop_eq_Nil2 linorder_not_le list.distinct(1))
  moreover from r(3) have "s = drop (length (q @ [x])) rs"
    by (metis drop_Suc length_append_singleton list.sel(3) tl_drop)
  ultimately show ?thesis
    using r assms(2) by (auto simp: restart_ok_def intro!: exI [of _ "q @ [x]"])
qed

lemma restart_match_end: "restart_ok p [] r \<Longrightarrow> \<not> restart_match r"
proof
  assume ok: "restart_ok p [] r" and m: "restart_match r"
  then obtain q rs where r: "r = Some (q @ p, rs)" "CHR ''*'' \<notin> set q" "length rs \<le> length q" "rs \<noteq> []"
    by (auto simp: restart_ok_def restart_match_def split: option.splits)
  with m obtain k where "glob_spec (q @ p) (drop k (tl rs))"
    by (auto simp: restart_match_def)
  from glob_literal_length [OF r(2) this] r(3,4) show False by (cases rs) auto
qed

lemma restart_match_absorbed:
  assumes "restart_ok (CHR ''*'' # p) s r" "restart_match r"
  shows "glob_spec (CHR ''*'' # p) s"
proof -
  from assms obtain q rs where r: "r = Some (q @ CHR ''*'' # p, rs)" "CHR ''*'' \<notin> set q"
      "s = drop (length q) rs" "rs \<noteq> []"
    by (auto simp: restart_ok_def restart_match_def split: option.splits)
  with assms(2) obtain k where "glob_spec (q @ CHR ''*'' # p) (drop k (tl rs))"
    by (auto simp: restart_match_def)
  from glob_literal_prefix [OF r(2) this] have "glob_spec (CHR ''*'' # p) (drop (Suc k) s)"
    by (simp add: r(3) drop_Suc add.commute flip: tl_drop drop_drop)
       (simp add: drop_drop add.commute drop_Suc tl_drop)
  then show ?thesis by (rule glob_star_drop)
qed

lemma restart_match_next:
  "rs \<noteq> [] \<Longrightarrow> glob_spec rp (tl rs) \<or> restart_match (Some (rp, tl rs)) \<longleftrightarrow>
    restart_match (Some (rp, rs))"
  by (cases "tl rs") (simp_all only: restart_match_def option.case prod.case glob_star_Cons list.sel, auto)

lemma glob_loop_spec:
  "CHR ''*'' \<notin> set s \<Longrightarrow> (\<forall>rp rs. r = Some (rp, rs) \<longrightarrow> CHR ''*'' \<notin> set rs) \<Longrightarrow> restart_ok p s r \<Longrightarrow>
   glob_loop p s r \<longleftrightarrow> glob_spec p s \<or> restart_match r"
proof (induction p s r rule: glob_loop.induct)
  case (1 p s r)
  show ?case
  proof (cases s)
    case Nil
    with "1.prems" show ?thesis by (simp add: glob_loop_Nil skip_stars_Nil restart_match_end)
  next
    case (Cons c s')
    with "1.prems" have c: "c \<noteq> CHR ''*''" "CHR ''*'' \<notin> set s'" by auto
    consider (lit) "p \<noteq> [] \<and> (hd p = CHR ''?'' \<or> hd p = c)"
      | (star) "\<not> (p \<noteq> [] \<and> (hd p = CHR ''?'' \<or> hd p = c))" "p \<noteq> [] \<and> hd p = CHR ''*''"
      | (fail) "\<not> (p \<noteq> [] \<and> (hd p = CHR ''?'' \<or> hd p = c))" "\<not> (p \<noteq> [] \<and> hd p = CHR ''*'')"
      by blast
    then show ?thesis
    proof cases
      case lit
      then obtain x p' where p: "p = x # p'" "x = CHR ''?'' \<or> x = c" by (cases p) auto
      have "restart_ok p' s' r"
        using "1.prems"(3) p c by (intro restart_ok_step [of x p' c]) (auto simp: Cons)
      with "1.IH"(1) [OF Cons lit] "1.prems"(2) c have
        "glob_loop p' s' r \<longleftrightarrow> glob_spec p' s' \<or> restart_match r" by (simp add: p)
      with p c show ?thesis by (auto simp: glob_loop_literal Cons)
    next
      case star
      then obtain p' where p: "p = CHR ''*'' # p'" by (cases p) auto
      have "restart_ok p' s (Some (p', s))" by (simp add: restart_ok_def)
      with "1.IH"(2) [OF Cons star] "1.prems"(1) have
        "glob_loop p' s (Some (p', s)) \<longleftrightarrow> glob_spec p' s \<or> restart_match (Some (p', s))"
        by (simp add: p)
      also have "\<dots> \<longleftrightarrow> glob_spec p s"
        by (simp only: restart_match_def option.case prod.case Cons glob_star_Cons p list.sel) simp
      finally show ?thesis
        using star restart_match_absorbed [of p' s r] "1.prems"(3)
        by (auto simp: glob_loop_star c Cons p simp del: glob_spec.simps)
    next
      case fail
      then have no: "\<not> glob_spec p s" by (cases p) (auto simp: Cons)
      show ?thesis
      proof (cases r)
        case None
        with no show ?thesis by (simp add: glob_loop_fail [OF fail] Cons restart_match_def)
      next
        case (Some a)
        then obtain rp rs where r: "r = Some (rp, rs)" by (cases a) auto
        with "1.prems"(3) Cons have rs: "rs \<noteq> []" by (auto simp: restart_ok_def)
        have "restart_ok rp (tl rs) (Some (rp, tl rs))" by (simp add: restart_ok_def)
        moreover have "CHR ''*'' \<notin> set (tl rs)"
          using "1.prems"(2) r rs by (metis list.set_sel(2))
        ultimately have "glob_loop rp (tl rs) (Some (rp, tl rs)) \<longleftrightarrow>
            glob_spec rp (tl rs) \<or> restart_match (Some (rp, tl rs))"
          using "1.IH"(3) [OF Cons fail r refl] by simp
        with no restart_match_next [OF rs, of rp] show ?thesis
          by (simp add: glob_loop_fail [OF fail] Cons r)
      qed
    qed
  qed
qed

lemma osc_glob_match_spec: "CHR ''*'' \<notin> set s \<Longrightarrow> osc_glob_match p s \<longleftrightarrow> glob_spec p s"
  by (simp add: osc_glob_match_def glob_loop_spec restart_ok_def restart_match_def)

subsection \<open>Cost\<close>

text \<open>The number of iterations of the loop, by the same recursion.\<close>

function glob_iters :: "string \<Rightarrow> string \<Rightarrow> (string \<times> string) option \<Rightarrow> nat" where
  "glob_iters p s r =
     (case s of
        [] \<Rightarrow> 0
      | c # s' \<Rightarrow>
          (if p \<noteq> [] \<and> (hd p = CHR ''?'' \<or> hd p = c) then Suc (glob_iters (tl p) s' r)
           else if p \<noteq> [] \<and> hd p = CHR ''*'' then Suc (glob_iters (tl p) s (Some (tl p, s)))
           else case r of
             Some (rp, rs) \<Rightarrow> Suc (glob_iters rp (tl rs) (Some (rp, tl rs)))
           | None \<Rightarrow> 1))"
  by pat_completeness auto
termination
  by (relation "measures [\<lambda>(p, s, r). case r of None \<Rightarrow> Suc (length s)
                             | Some (rp, rs) \<Rightarrow> max (length rs) (length s),
                          \<lambda>(p, s, r). length p]")
    (auto split: option.splits)

declare glob_iters.simps [simp del]

definition glob_rank :: "string \<Rightarrow> (string \<times> string) option \<Rightarrow> nat" where
  "glob_rank s r =
     (case r of None \<Rightarrow> Suc (length s) | Some (rp, rs) \<Rightarrow> max (length rs) (length s))"

definition glob_budget :: "nat \<Rightarrow> string \<Rightarrow> string \<Rightarrow> (string \<times> string) option \<Rightarrow> nat" where
  "glob_budget n p s r = glob_rank s r * Suc n + length p"

lemma glob_budget_shorter:
  assumes "glob_rank s' r' \<le> glob_rank s r" "length p' < length p"
  shows "Suc (glob_budget n p' s' r') \<le> glob_budget n p s r"
proof -
  have "glob_rank s' r' * Suc n \<le> glob_rank s r * Suc n" using assms(1) by (rule mult_le_mono1)
  with assms(2) show ?thesis unfolding glob_budget_def by linarith
qed

lemma glob_budget_restart:
  assumes "glob_rank s' r' < glob_rank s r" "length p' \<le> n"
  shows "Suc (glob_budget n p' s' r') \<le> glob_budget n p s r"
proof -
  have "Suc (glob_rank s' r') * Suc n \<le> glob_rank s r * Suc n" using assms(1) by (intro mult_le_mono1) simp
  with assms(2) show ?thesis unfolding glob_budget_def by simp
qed

lemma glob_iters_budget:
  "length p \<le> n \<Longrightarrow> (\<forall>rp rs. r = Some (rp, rs) \<longrightarrow> length rp \<le> n) \<Longrightarrow>
   glob_iters p s r \<le> glob_budget n p s r"
proof (induction p s r rule: glob_iters.induct)
  case (1 p s r)
  show ?case
  proof (cases s)
    case Nil
    then show ?thesis by (simp add: glob_iters.simps)
  next
    case (Cons c s')
    consider (lit) "p \<noteq> [] \<and> (hd p = CHR ''?'' \<or> hd p = c)"
      | (star) "\<not> (p \<noteq> [] \<and> (hd p = CHR ''?'' \<or> hd p = c))" "p \<noteq> [] \<and> hd p = CHR ''*''"
      | (fail) "\<not> (p \<noteq> [] \<and> (hd p = CHR ''?'' \<or> hd p = c))" "\<not> (p \<noteq> [] \<and> hd p = CHR ''*'')"
      by blast
    then show ?thesis
    proof cases
      case lit
      have p: "Suc (length (tl p)) = length p" using lit by (cases p) auto
      have "glob_iters p s r = Suc (glob_iters (tl p) s' r)"
        unfolding glob_iters.simps [of p] Cons list.case using lit by (simp only: if_True if_False simp_thms)
      moreover have "glob_iters (tl p) s' r \<le> glob_budget n (tl p) s' r"
        using "1.IH"(1) [OF Cons lit] "1.prems" by simp
      moreover have "glob_budget n (tl p) s' r + 1 \<le> glob_budget n p s r"
        using p glob_budget_shorter [of s' r s r "tl p" p n]
        by (fastforce simp: glob_rank_def Cons split: option.splits)
      ultimately show ?thesis by linarith
    next
      case star
      have p: "Suc (length (tl p)) = length p" using star by (cases p) auto
      have "glob_iters p s r = Suc (glob_iters (tl p) s (Some (tl p, s)))"
        unfolding glob_iters.simps [of p] Cons list.case using star by (simp only: if_True if_False simp_thms)
      moreover have "glob_iters (tl p) s (Some (tl p, s)) \<le> glob_budget n (tl p) s (Some (tl p, s))"
        using "1.IH"(2) [OF Cons star] "1.prems" by simp
      moreover have "glob_budget n (tl p) s (Some (tl p, s)) + 1 \<le> glob_budget n p s r"
        using p glob_budget_shorter [of s "Some (tl p, s)" s r "tl p" p n]
        by (fastforce simp: glob_rank_def split: option.splits)
      ultimately show ?thesis by linarith
    next
      case fail
      show ?thesis
      proof (cases r)
        case None
        have "glob_iters p s r = 1"
          unfolding glob_iters.simps [of p] Cons list.case None option.case
          using fail by (simp only: if_False simp_thms)
        then show ?thesis by (simp add: glob_budget_def glob_rank_def None)
      next
        case (Some a)
        then obtain rp rs where r: "r = Some (rp, rs)" by (cases a) auto
        have "glob_iters p s r = Suc (glob_iters rp (tl rs) (Some (rp, tl rs)))"
          unfolding glob_iters.simps [of p] Cons list.case r option.case prod.case
          using fail by (simp only: if_False simp_thms)
        moreover have "glob_iters rp (tl rs) (Some (rp, tl rs)) \<le> glob_budget n rp (tl rs) (Some (rp, tl rs))"
          using "1.IH"(3) [OF Cons fail r refl] "1.prems" r by simp
        moreover have "Suc (glob_budget n rp (tl rs) (Some (rp, tl rs))) \<le> glob_budget n p s r"
          using "1.prems"(2) r Cons by (intro glob_budget_restart) (auto simp: glob_rank_def)
        ultimately show ?thesis by linarith
      qed
    qed
  qed
qed

lemma glob_iters_bound: "glob_iters p s None \<le> (length s + 1) * (length p + 1) + length p"
  using glob_iters_budget [of p "length p" None s] by (simp add: glob_budget_def glob_rank_def)

text \<open>
  The loop with a budget of iterations, \<open>None\<close> when they run out.  The bound above is enough: within
  it the loop ends, with the answer of \<open>glob_loop\<close>.
\<close>

fun glob_fuel :: "nat \<Rightarrow> string \<Rightarrow> string \<Rightarrow> (string \<times> string) option \<Rightarrow> bool option" where
  "glob_fuel n p [] r = Some (skip_stars p = [])"
| "glob_fuel 0 p (c # s) r = None"
| "glob_fuel (Suc n) p (c # s) r =
     (if p \<noteq> [] \<and> (hd p = CHR ''?'' \<or> hd p = c) then glob_fuel n (tl p) s r
      else if p \<noteq> [] \<and> hd p = CHR ''*'' then glob_fuel n (tl p) (c # s) (Some (tl p, c # s))
      else case r of
        Some (rp, rs) \<Rightarrow> glob_fuel n rp (tl rs) (Some (rp, tl rs))
      | None \<Rightarrow> Some False)"

lemma glob_fuel_iters: "glob_iters p s r \<le> n \<Longrightarrow> glob_fuel n p s r = Some (glob_loop p s r)"
proof (induction n p s r rule: glob_fuel.induct)
  case (1 n p r)
  then show ?case by (simp add: glob_loop_Nil)
next
  case (2 p c s r)
  then show ?case
    by (subst (asm) glob_iters.simps) (auto split: if_splits option.splits)
next
  case (3 n p c s r)
  then show ?case
    by (subst (asm) (4) glob_iters.simps, subst glob_loop.simps) (auto split: if_splits option.splits)
qed

lemma glob_fuel_bound:
  "glob_fuel ((length s + 1) * (length p + 1) + length p) p s None = Some (osc_glob_match p s)"
  unfolding osc_glob_match_def by (rule glob_fuel_iters [OF glob_iters_bound])

text \<open>Selectors: the decimal text of an index selects exactly that position.\<close>

lemma all_digits_iff: "all_digits s \<longleftrightarrow> (\<forall>c \<in> set s. is_digit c)"
  by (induction s) auto

lemma osc_index_segment_iff: "osc_index_segment s \<longleftrightarrow> s \<noteq> [] \<and> (\<forall>c \<in> set s. is_digit c)"
  by (simp add: osc_index_segment_def all_digits_iff)

lemma osc_selector_matches_index:
  assumes "n < 2 ^ 31" "i < 2 ^ 64"
  shows "osc_selector_matches (nat_digits n) name i \<longleftrightarrow> i = n"
proof -
  have "osc_index_segment (nat_digits n)"
    using nat_digits_value [of n] by (simp add: osc_index_segment_iff)
  moreover have "atoi (nat_digits n) mod 2 ^ 64 = int n"
    using assms(1) by (simp add: atoi_nat_digits)
  ultimately show ?thesis by (auto simp: osc_selector_matches_def)
qed

end
