(* ===== verification/OscNet.thy ===== *)
theory OscNet
  imports OscGlob
begin

text \<open>
  The socket layer (\<^verbatim>\<open>osc-net.h\<close>, \<^verbatim>\<open>osc-net.cpp\<close>) and the endpoint comparison of
  \<^verbatim>\<open>osc-subscribe.cpp\<close>.  The operating system is not part of the program: its calls are the
  fields of the record \<open>os_api\<close>, each a function on an abstract state \<open>'w\<close> of the world, and
  every operation that makes a system call takes that record as an argument.  A socket address
  is the union the code reads it as: an IPv4 address, an IPv6 address, or another family.
  A socket is an \<open>int\<close>, \<open>-1\<close> the invalid one.
\<close>

subsection \<open>Endpoints\<close>

text \<open>The last field of each case holds the bytes below the length that no other field names.\<close>

datatype sockaddr =
  SockIn "16 word" "32 word" bytes
| SockIn6 "16 word" "128 word" "32 word" bytes
| SockOther nat bytes

record osc_endpoint =
  ep_addr :: sockaddr
  ep_len :: nat

definition no_addr :: sockaddr where
  "no_addr = SockOther 0 []"

definition endpoint_equal :: "osc_endpoint \<Rightarrow> osc_endpoint \<Rightarrow> bool" where
  "endpoint_equal a b =
     (if ep_len a = 0 \<or> ep_len b = 0 then False
      else case (ep_addr a, ep_addr b) of
        (SockIn pa ia _, SockIn pb ib _) \<Rightarrow> pa = pb \<and> ia = ib
      | (SockIn6 pa ia sa _, SockIn6 pb ib sb _) \<Rightarrow> pa = pb \<and> sa = sb \<and> ia = ib
      | _ \<Rightarrow> False)"

definition endpoint_set_port :: "osc_endpoint \<Rightarrow> int \<Rightarrow> osc_endpoint" where
  "endpoint_set_port ep port =
     (case ep_addr ep of
        SockIn _ i z \<Rightarrow> ep\<lparr>ep_addr := SockIn (word_of_int port) i z\<rparr>
      | SockIn6 _ i s z \<Rightarrow> ep\<lparr>ep_addr := SockIn6 (word_of_int port) i s z\<rparr>
      | SockOther _ _ \<Rightarrow> ep)"

definition inet_endpoint :: "osc_endpoint \<Rightarrow> bool" where
  "inet_endpoint ep \<longleftrightarrow> ep_len ep \<noteq> 0 \<and> (\<forall>f z. ep_addr ep \<noteq> SockOther f z)"

lemma endpoint_equal_sym: "endpoint_equal a b \<longleftrightarrow> endpoint_equal b a"
  by (auto simp: endpoint_equal_def split: sockaddr.splits)

lemma endpoint_equal_trans: "endpoint_equal a b \<Longrightarrow> endpoint_equal b c \<Longrightarrow> endpoint_equal a c"
  by (auto simp: endpoint_equal_def split: sockaddr.splits if_splits)

lemma endpoint_equal_refl: "endpoint_equal a a \<longleftrightarrow> inet_endpoint a"
  by (auto simp: endpoint_equal_def inet_endpoint_def split: sockaddr.splits)

lemma endpoint_equal_inet: "endpoint_equal a b \<Longrightarrow> inet_endpoint a \<and> inet_endpoint b"
  by (cases "ep_addr a"; cases "ep_addr b")
    (auto simp: endpoint_equal_def inet_endpoint_def split: if_splits)

lemma inet_endpoint_set_port [simp]: "inet_endpoint (endpoint_set_port ep p) \<longleftrightarrow> inet_endpoint ep"
  by (auto simp: endpoint_set_port_def inet_endpoint_def split: sockaddr.splits)

subsection \<open>System calls\<close>

datatype sock_type = SockDgram | SockStream

text \<open>
  The calls of the Bonjour module: \<^verbatim>\<open>gethostname\<close> into a buffer of the given size (\<open>None\<close> when it
  fails), \<^verbatim>\<open>DNSServiceRegister\<close> (an error code, or the handle of the registration) with name, type
  and port, and \<^verbatim>\<open>DNSServiceRefDeallocate\<close>.
\<close>

record 'w dns_api =
  dns_gethostname :: "nat \<Rightarrow> 'w \<Rightarrow> string option"
  dns_register :: "string \<Rightarrow> string \<Rightarrow> 16 word \<Rightarrow> 'w \<Rightarrow> (int + nat) \<times> 'w"
  dns_deallocate :: "nat \<Rightarrow> 'w \<Rightarrow> 'w"

text \<open>\<^verbatim>\<open>WSAStartup\<close> (its result code) and \<^verbatim>\<open>WSACleanup\<close>.\<close>

record 'w wsa_api =
  wsa_startup :: "'w \<Rightarrow> int \<times> 'w"
  wsa_cleanup :: "'w \<Rightarrow> 'w"

text \<open>\<open>os_wsa\<close> is \<open>None\<close> where there is no Winsock (\<^verbatim>\<open>#ifdef _WIN32\<close>), \<open>os_dns\<close> is \<open>None\<close> on the platforms built without Bonjour (\<^verbatim>\<open>#ifdef __APPLE__\<close>).\<close>

record 'w os_api =
  os_wsa :: "'w wsa_api option"
  os_socket :: "sock_type \<Rightarrow> 'w \<Rightarrow> int \<times> 'w"
  os_reuseaddr :: "int \<Rightarrow> 'w \<Rightarrow> 'w"
  os_bind :: "int \<Rightarrow> 16 word \<Rightarrow> 'w \<Rightarrow> bool \<times> 'w"
  os_listen :: "int \<Rightarrow> int \<Rightarrow> 'w \<Rightarrow> bool \<times> 'w"
  os_shutdown :: "int \<Rightarrow> 'w \<Rightarrow> 'w"
  os_close :: "int \<Rightarrow> 'w \<Rightarrow> 'w"
  os_recv_timeout :: "int \<Rightarrow> int \<Rightarrow> 'w \<Rightarrow> 'w"
  os_getaddrinfo :: "string \<Rightarrow> string \<Rightarrow> 'w \<Rightarrow> (sockaddr \<times> nat) option"
  os_sendto :: "int \<Rightarrow> bytes \<Rightarrow> sockaddr \<Rightarrow> nat \<Rightarrow> 'w \<Rightarrow> 'w"
  os_recv :: "int \<Rightarrow> nat \<Rightarrow> 'w \<Rightarrow> bytes \<times> 'w"
  os_send :: "int \<Rightarrow> bytes \<Rightarrow> 'w \<Rightarrow> int \<times> 'w"
  os_accept :: "int \<Rightarrow> 'w \<Rightarrow> int \<times> 'w"
  os_dns :: "'w dns_api option"

text \<open>
  \<open>os_recv fd n\<close> returns the bytes received, none for a result \<open>\<le> 0\<close>; \<open>os_send\<close> returns the
  count of the call.  What a stream socket documents is stated once: received bytes are the
  next bytes of what the peer sent, at most as many as asked for, and none only at the end.
\<close>

definition stream_socket :: "'w os_api \<Rightarrow> int \<Rightarrow> ('w \<Rightarrow> bytes) \<Rightarrow> bool" where
  "stream_socket os fd pending \<longleftrightarrow>
     (\<forall>n w bs w'. os_recv os fd n w = (bs, w') \<longrightarrow>
        length bs \<le> n \<and> pending w = bs @ pending w' \<and> (bs = [] \<longrightarrow> n = 0 \<or> pending w = []))"

definition duplex_socket :: "'w os_api \<Rightarrow> int \<Rightarrow> ('w \<Rightarrow> bytes) \<Rightarrow> bool" where
  "duplex_socket os fd pending \<longleftrightarrow>
     stream_socket os fd pending \<and>
     (\<forall>fd' data w. pending (snd (os_send os fd' data w)) = pending w) \<and>
     (\<forall>ms w. pending (os_recv_timeout os fd ms w) = pending w)"

lemma stream_socketD:
  assumes "stream_socket os fd pending" "os_recv os fd n w = (bs, w')"
  shows "length bs \<le> n" "pending w = bs @ pending w'" "bs = [] \<Longrightarrow> n = 0 \<or> pending w = []"
  using assms unfolding stream_socket_def by blast+

definition invalid_socket :: int where
  "invalid_socket = - 1"

definition net_init :: "'w os_api \<Rightarrow> 'w \<Rightarrow> bool \<times> 'w" where
  "net_init os w =
     (case os_wsa os of
        None \<Rightarrow> (True, w)
      | Some wsa \<Rightarrow> (case wsa_startup wsa w of (code, w1) \<Rightarrow> (code = 0, w1)))"

definition net_cleanup :: "'w os_api \<Rightarrow> 'w \<Rightarrow> 'w" where
  "net_cleanup os w = (case os_wsa os of None \<Rightarrow> w | Some wsa \<Rightarrow> wsa_cleanup wsa w)"

definition close_socket :: "'w os_api \<Rightarrow> int \<Rightarrow> 'w \<Rightarrow> 'w" where
  "close_socket os fd w = (if fd = invalid_socket then w else os_close os fd w)"

definition close_wake :: "'w os_api \<Rightarrow> int \<Rightarrow> 'w \<Rightarrow> 'w" where
  "close_wake os fd w = close_socket os fd (os_shutdown os fd w)"

definition set_recv_timeout :: "'w os_api \<Rightarrow> int \<Rightarrow> int \<Rightarrow> 'w \<Rightarrow> 'w" where
  "set_recv_timeout os fd milliseconds w = os_recv_timeout os fd milliseconds w"

text \<open>\<^verbatim>\<open>htons((uint16_t)port)\<close>: the cast keeps the low 16 bits of the port.\<close>

definition bind_listen :: "'w os_api \<Rightarrow> int \<Rightarrow> sock_type \<Rightarrow> int \<Rightarrow> 'w \<Rightarrow> int \<times> 'w" where
  "bind_listen os port type backlog w =
     (case os_socket os type w of (fd, w1) \<Rightarrow>
        if fd = invalid_socket then (invalid_socket, w1)
        else
          let w2 = os_reuseaddr os fd w1
          in case os_bind os fd (word_of_int port) w2 of (bound, w3) \<Rightarrow>
            if \<not> bound then (invalid_socket, close_socket os fd w3)
            else if backlog \<ge> 0 then
              (case os_listen os fd backlog w3 of (ok, w4) \<Rightarrow>
                 if \<not> ok then (invalid_socket, close_socket os fd w4) else (fd, w4))
            else (fd, w3))"

definition listen_udp :: "'w os_api \<Rightarrow> int \<Rightarrow> 'w \<Rightarrow> int \<times> 'w" where
  "listen_udp os port w = bind_listen os port SockDgram (- 1) w"

definition listen_tcp :: "'w os_api \<Rightarrow> int \<Rightarrow> int \<Rightarrow> 'w \<Rightarrow> int \<times> 'w" where
  "listen_tcp os port backlog w = bind_listen os port SockStream backlog w"

definition resolve :: "'w os_api \<Rightarrow> string \<Rightarrow> int \<Rightarrow> 'w \<Rightarrow> (sockaddr \<times> nat) option" where
  "resolve os host port w = os_getaddrinfo os (c_str host) (std_to_string port) w"

end
