(* ===== verification/OscServer.thy ===== *)
theory OscServer
  imports OscMessage OscNet
begin

text \<open>
  The UDP transport (\<^verbatim>\<open>osc-server.h\<close>, \<^verbatim>\<open>osc-server.cpp\<close>): the state behind
  \<^verbatim>\<open>osc_server::impl\<close>, start and stop, the feedback target, the bounded outbound queue with its
  sender thread, the receive loop, and the per-thread reply batch.  A function models the code
  run with its locks held; the two loops of the threads are modelled one iteration at a time.
  The abstract view of the queue is a window over the last 1024 datagrams; the interface
  \<open>outbox\<close> states it, and the server's operations are shown to implement it.
\<close>

subsection \<open>State\<close>

definition max_send_queue :: nat where
  "max_send_queue = 1024"

record out_packet =
  pk_target :: sockaddr
  pk_target_len :: nat
  pk_data :: bytes

record reply_batch =
  rb_to :: osc_endpoint
  rb_active :: bool
  rb_messages :: "bytes list"

record server =
  sv_fd :: int
  sv_resolved_target :: sockaddr
  sv_resolved_len :: nat
  sv_last_sender :: sockaddr
  sv_last_sender_len :: nat
  sv_have_target :: bool
  sv_have_sender :: bool
  sv_send_queue :: "out_packet list"
  sv_send_running :: bool
  sv_running :: bool
  sv_handler :: bool
  sv_batch :: reply_batch

text \<open>
  The constructor's state.  \<open>sv_handler\<close> tells whether a handler is installed (the handler is
  always \<^verbatim>\<open>handle_datagram\<close>), \<open>sv_batch\<close> is the calling thread's \<^verbatim>\<open>thread_batch()\<close>.
\<close>

definition new_server :: server where
  "new_server =
     \<lparr>sv_fd = invalid_socket, sv_resolved_target = no_addr, sv_resolved_len = 0,
      sv_last_sender = no_addr, sv_last_sender_len = 0, sv_have_target = False,
      sv_have_sender = False, sv_send_queue = [], sv_send_running = False, sv_running = False,
      sv_handler = False,
      sv_batch = \<lparr>rb_to = \<lparr>ep_addr = no_addr, ep_len = 0\<rparr>, rb_active = False, rb_messages = []\<rparr>\<rparr>"

subsection \<open>Queueing\<close>

definition enqueue :: "sockaddr \<Rightarrow> nat \<Rightarrow> bytes \<Rightarrow> server \<Rightarrow> server" where
  "enqueue target target_len data s =
     (if target_len = 0 \<or> length data = 0 then s
      else if sv_fd s = invalid_socket then s
      else if \<not> sv_send_running s then s
      else
        let q = (if max_send_queue \<le> length (sv_send_queue s) then tl (sv_send_queue s)
                 else sv_send_queue s)
        in s\<lparr>sv_send_queue :=
               q @ [\<lparr>pk_target = target, pk_target_len = target_len, pk_data = data\<rparr>]\<rparr>)"

text \<open>The uninitialised \<^verbatim>\<open>target\<close> of the two functions below is only passed on with length 0.\<close>

definition send_fixed :: "bytes \<Rightarrow> server \<Rightarrow> server" where
  "send_fixed data s =
     (if sv_resolved_len s \<noteq> 0 then enqueue (sv_resolved_target s) (sv_resolved_len s) data s
      else enqueue no_addr 0 data s)"

definition send_last :: "bytes \<Rightarrow> server \<Rightarrow> server" where
  "send_last data s =
     (if sv_have_sender s then enqueue (sv_last_sender s) (sv_last_sender_len s) data s
      else enqueue no_addr 0 data s)"

definition send_to :: "bytes \<Rightarrow> osc_endpoint \<Rightarrow> server \<Rightarrow> server" where
  "send_to data target s = enqueue (ep_addr target) (ep_len target) data s"

definition has_fixed_target :: "server \<Rightarrow> bool" where
  "has_fixed_target s = sv_have_target s"

definition has_last_sender :: "server \<Rightarrow> bool" where
  "has_last_sender s = sv_have_sender s"

definition set_feedback_target :: "'w os_api \<Rightarrow> string \<Rightarrow> int \<Rightarrow> 'w \<Rightarrow> server \<Rightarrow> server" where
  "set_feedback_target os host port w s =
     (let s1 = s\<lparr>sv_resolved_len := 0, sv_have_target := False\<rparr>
      in if host = [] \<or> port \<le> 0 \<or> port > 65535 then s1
         else case resolve os host port w of
           None \<Rightarrow> s1
         | Some (ss, ss_len) \<Rightarrow>
             s1\<lparr>sv_resolved_target := ss, sv_resolved_len := ss_len, sv_have_target := True\<rparr>)"

subsection \<open>The two threads\<close>

text \<open>
  One pass of \<^verbatim>\<open>send_loop\<close> after its wait: the queue is empty and the loop ends, or the front
  datagram is taken and handed to \<^verbatim>\<open>sendto\<close>.  \<open>None\<close>: the wait does not return (nothing queued,
  not stopped).
\<close>

datatype 'w send_result = SendExit | SendOne server 'w

definition send_pass :: "'w os_api \<Rightarrow> server \<Rightarrow> 'w \<Rightarrow> 'w send_result option" where
  "send_pass os s w =
     (if sv_send_queue s = [] \<and> sv_send_running s then None
      else case sv_send_queue s of
        [] \<Rightarrow> Some SendExit
      | pkt # rest \<Rightarrow>
          let s1 = s\<lparr>sv_send_queue := rest\<rparr>
          in Some (SendOne s1
               (if sv_fd s1 \<noteq> invalid_socket
                then os_sendto os (sv_fd s1) (pk_data pkt) (pk_target pkt) (pk_target_len pkt) w
                else w)))"

text \<open>The sender thread run until it waits or ends.\<close>

function send_loop :: "'w os_api \<Rightarrow> server \<Rightarrow> 'w \<Rightarrow> server \<times> 'w" where
  "send_loop os s w =
     (case send_pass os s w of
        Some (SendOne s1 w1) \<Rightarrow> send_loop os s1 w1
      | _ \<Rightarrow> (s, w))"
  by pat_completeness auto
termination
  by (relation "measure (\<lambda>(os, s, w). length (sv_send_queue s))")
    (auto simp: send_pass_def Let_def split: list.splits if_splits)

declare send_loop.simps [simp del]

text \<open>
  One pass of \<^verbatim>\<open>recv_loop\<close>.  \<open>dgram\<close> is what \<^verbatim>\<open>recvfrom\<close> delivers: \<open>None\<close> for a count \<open>\<le> 0\<close>.
  The result says whether the loop goes on, and the datagram the handler is called with.
\<close>

definition recv_pass ::
  "(bytes \<times> sockaddr \<times> nat) option \<Rightarrow> server \<Rightarrow> bool \<times> (bytes \<times> osc_endpoint) option \<times> server" where
  "recv_pass dgram s =
     (if \<not> sv_running s then (False, None, s)
      else if sv_fd s = invalid_socket then (False, None, s)
      else case dgram of
        None \<Rightarrow> (sv_running s, None, s)
      | Some (data, ss, slen) \<Rightarrow>
          let s1 = s\<lparr>sv_last_sender := ss, sv_last_sender_len := slen, sv_have_sender := True\<rparr>
          in (True,
              if sv_handler s1 then Some (data, \<lparr>ep_addr = ss, ep_len = slen\<rparr>) else None, s1))"

subsection \<open>Start and stop\<close>

definition server_start :: "'w os_api \<Rightarrow> int \<Rightarrow> server \<Rightarrow> 'w \<Rightarrow> bool \<times> server \<times> 'w" where
  "server_start os port s w =
     (if sv_running s then (True, s, w)
      else case net_init os w of (ok, w1) \<Rightarrow>
        if \<not> ok then (False, s, w1)
        else case listen_udp os port w1 of (fd, w2) \<Rightarrow>
          if fd = invalid_socket then (False, s, net_cleanup os w2)
          else (True,
                s\<lparr>sv_fd := fd, sv_handler := True, sv_running := True, sv_send_running := True\<rparr>,
                w2))"

text \<open>
  \<^verbatim>\<open>stop()\<close>: once \<^verbatim>\<open>send_running\<close> is cleared nothing is queued any more, so joining the sender
  runs its loop to the end; then the socket is closed, the receiver joined, and the run-scoped
  state reset.
\<close>

definition server_stop :: "'w os_api \<Rightarrow> server \<Rightarrow> 'w \<Rightarrow> server \<times> 'w" where
  "server_stop os s w =
     (if \<not> sv_running s then (s, w)
      else
        let s1 = s\<lparr>sv_running := False, sv_send_running := False\<rparr>
        in case send_loop os s1 w of (s2, w2) \<Rightarrow>
          let fd = sv_fd s2;
              s3 = s2\<lparr>sv_fd := invalid_socket\<rparr>;
              w3 = close_wake os fd w2;
              s4 = s3\<lparr>sv_handler := False, sv_last_sender := no_addr, sv_last_sender_len := 0,
                      sv_have_sender := False, sv_send_queue := []\<rparr>
          in (s4, net_cleanup os w3))"

text \<open>The destructor only stops the server.\<close>

definition server_destroy :: "'w os_api \<Rightarrow> server \<Rightarrow> 'w \<Rightarrow> server \<times> 'w" where
  "server_destroy os s w = server_stop os s w"

subsection \<open>Replies and batches\<close>

definition begin_batch :: "osc_endpoint \<Rightarrow> server \<Rightarrow> server" where
  "begin_batch to s = s\<lparr>sv_batch := \<lparr>rb_to = to, rb_active = True, rb_messages = []\<rparr>\<rparr>"

definition push_be32_size :: "bytes \<Rightarrow> nat \<Rightarrow> bytes" where
  "push_be32_size buf n =
     (let size = word_of_nat n :: 32 word
      in buf @ [ucast (drop_bit 24 size), ucast (drop_bit 16 size), ucast (drop_bit 8 size),
                ucast size])"

fun push_elements :: "bytes \<Rightarrow> bytes list \<Rightarrow> bytes" where
  "push_elements buf [] = buf"
| "push_elements buf (m # ms) = push_elements (push_be32_size buf (length m) @ m) ms"

definition batch_datagram :: "bytes list \<Rightarrow> bytes" where
  "batch_datagram ms =
     (if length ms = 1 then hd ms else push_elements (bundle_tag @ replicate 8 0) ms)"

definition end_batch :: "server \<Rightarrow> server" where
  "end_batch s =
     (let b = sv_batch s; s1 = s\<lparr>sv_batch := b\<lparr>rb_active := False\<rparr>\<rparr>
      in if rb_messages b = [] then s1
         else
           let s2 = enqueue (ep_addr (rb_to b)) (ep_len (rb_to b)) (batch_datagram (rb_messages b)) s1
           in s2\<lparr>sv_batch := (sv_batch s2)\<lparr>rb_messages := []\<rparr>\<rparr>)"

definition server_reply :: "osc_endpoint \<Rightarrow> string \<Rightarrow> osc_argument list \<Rightarrow> server \<Rightarrow> server" where
  "server_reply to addr as s =
     (let b = sv_batch s
      in if rb_active b \<and> ep_len (rb_to b) = ep_len to \<and> ep_addr (rb_to b) = ep_addr to
         then s\<lparr>sv_batch := b\<lparr>rb_messages := rb_messages b @ [osc_build_message [] addr as]\<rparr>\<rparr>
         else enqueue (ep_addr to) (ep_len to) (osc_build_message [] addr as) s)"

text \<open>
  The guard \<^verbatim>\<open>osc_reply_batch\<close>: its constructor begins a batch, its destructor ends it when the
  block \<open>body\<close> it lives in is left, by whichever \<^verbatim>\<open>return\<close>.
\<close>

definition reply_batch_scope ::
  "osc_endpoint \<Rightarrow> (server \<times> 'w \<Rightarrow> 'r \<times> server \<times> 'w) \<Rightarrow> server \<times> 'w \<Rightarrow> 'r \<times> server \<times> 'w" where
  "reply_batch_scope to body s =
     (case body (begin_batch to (fst s), snd s) of (r, sv, w) \<Rightarrow> (r, end_batch sv, w))"

subsection \<open>The queue as a sliding window\<close>

definition last_n :: "nat \<Rightarrow> 'a list \<Rightarrow> 'a list" where
  "last_n n xs = drop (length xs - n) xs"

lemma length_last_n [simp]: "length (last_n n xs) = min n (length xs)"
  by (simp add: last_n_def)

lemma last_n_id: "length xs \<le> n \<Longrightarrow> last_n n xs = xs"
  by (simp add: last_n_def)

lemma last_n_append: "last_n n (last_n n xs @ ys) = last_n n (xs @ ys)"
proof (cases "length xs \<le> n")
  case False
  then have "last_n n xs @ ys = drop (length xs - n) (xs @ ys)" by (simp add: last_n_def)
  then show ?thesis using False by (simp add: last_n_def add.commute)
qed (simp add: last_n_id)

text \<open>
  What the callers of a bounded outbox may rely on: pushing keeps the newest \<open>cap\<close> items in
  order, taking removes the oldest.
\<close>

locale outbox =
  fixes push :: "'p \<Rightarrow> 'q \<Rightarrow> 'q"
    and take_front :: "'q \<Rightarrow> ('p \<times> 'q) option"
    and contents :: "'q \<Rightarrow> 'p list"
    and ready :: "'q \<Rightarrow> bool"
    and valid :: "'p \<Rightarrow> bool"
    and cap :: nat
  assumes ready_push: "ready q \<Longrightarrow> ready (push p q)"
    and contents_push: "ready q \<Longrightarrow> valid p \<Longrightarrow> contents (push p q) = last_n cap (contents q @ [p])"
    and contents_invalid: "\<not> valid p \<Longrightarrow> contents (push p q) = contents q"
    and bounded: "ready q \<Longrightarrow> length (contents q) \<le> cap"
    and take_empty: "take_front q = None \<longleftrightarrow> contents q = []"
    and take_some: "take_front q = Some (p, q') \<Longrightarrow> contents q = p # contents q' \<and> (ready q \<longrightarrow> ready q')"
begin

lemma contents_burst:
  "ready q \<Longrightarrow> contents (foldl (\<lambda>q p. push p q) q ps) = last_n cap (contents q @ filter valid ps)
     \<and> ready (foldl (\<lambda>q p. push p q) q ps)"
proof (induction ps arbitrary: q)
  case Nil
  then show ?case by (simp add: last_n_id bounded)
next
  case (Cons p ps)
  from Cons.IH [OF ready_push [OF Cons.prems, of p]] show ?case
    using contents_push [OF Cons.prems, of p] contents_invalid [of p q]
      last_n_append [of cap "contents q @ [p]" "filter valid ps"]
    by simp
qed

lemma burst_fresh:
  assumes "ready q" "\<forall>p \<in> set ps. valid p" "length ps \<le> cap"
  shows "\<exists>old. contents (foldl (\<lambda>q p. push p q) q ps) = old @ ps"
  using contents_burst [OF assms(1), of ps] assms(2,3)
  by (simp add: last_n_def)

end

definition push_packet :: "out_packet \<Rightarrow> server \<Rightarrow> server" where
  "push_packet p s = enqueue (pk_target p) (pk_target_len p) (pk_data p) s"

definition take_packet :: "server \<Rightarrow> (out_packet \<times> server) option" where
  "take_packet s =
     (case sv_send_queue s of [] \<Rightarrow> None | p # q \<Rightarrow> Some (p, s\<lparr>sv_send_queue := q\<rparr>))"

definition can_queue :: "server \<Rightarrow> bool" where
  "can_queue s \<longleftrightarrow> sv_fd s \<noteq> invalid_socket \<and> sv_send_running s \<and>
     length (sv_send_queue s) \<le> max_send_queue"

definition sendable :: "out_packet \<Rightarrow> bool" where
  "sendable p \<longleftrightarrow> pk_target_len p \<noteq> 0 \<and> pk_data p \<noteq> []"

lemma tl_last_n: "length q = n \<Longrightarrow> tl (q @ [x]) = last_n n (q @ [x])"
proof -
  assume "length q = n"
  then have "length (q @ [x]) - n = Suc 0" by simp
  then show ?thesis by (simp only: last_n_def drop_Suc drop_0)
qed

lemma queue_enqueue:
  "can_queue s \<Longrightarrow> l \<noteq> 0 \<Longrightarrow> d \<noteq> [] \<Longrightarrow>
   sv_send_queue (enqueue t l d s) =
     last_n max_send_queue (sv_send_queue s @ [\<lparr>pk_target = t, pk_target_len = l, pk_data = d\<rparr>])"
proof -
  assume a: "can_queue s" "l \<noteq> 0" "d \<noteq> []"
  then consider "length (sv_send_queue s) = max_send_queue" | "length (sv_send_queue s) < max_send_queue"
    by (force simp: can_queue_def)
  then show ?thesis
  proof cases
    case 1
    then have "sv_send_queue s \<noteq> []" by (auto simp: max_send_queue_def)
    then show ?thesis
      using a 1 tl_last_n [OF 1] by (simp add: enqueue_def can_queue_def)
  next
    case 2
    then show ?thesis using a by (simp add: enqueue_def can_queue_def last_n_id)
  qed
qed

lemma enqueue_frame:
  "sv_fd (enqueue t l d s) = sv_fd s" "sv_send_running (enqueue t l d s) = sv_send_running s"
  "sv_batch (enqueue t l d s) = sv_batch s" "sv_running (enqueue t l d s) = sv_running s"
  "sv_handler (enqueue t l d s) = sv_handler s"
  "sv_resolved_len (enqueue t l d s) = sv_resolved_len s"
  "sv_resolved_target (enqueue t l d s) = sv_resolved_target s"
  "sv_have_target (enqueue t l d s) = sv_have_target s"
  "sv_have_sender (enqueue t l d s) = sv_have_sender s"
  "sv_last_sender (enqueue t l d s) = sv_last_sender s"
  "sv_last_sender_len (enqueue t l d s) = sv_last_sender_len s"
  by (simp_all add: enqueue_def Let_def)

lemma enqueue_skip: "l = 0 \<or> d = [] \<Longrightarrow> enqueue t l d s = s"
  by (auto simp: enqueue_def)

lemma can_queue_enqueue: "can_queue s \<Longrightarrow> can_queue (enqueue t l d s)"
  using queue_enqueue [of s l d t] enqueue_skip [of l d t s]
  by (cases "l = 0 \<or> d = []") (auto simp: can_queue_def enqueue_frame)

interpretation sq: outbox push_packet take_packet sv_send_queue can_queue sendable max_send_queue
proof (unfold_locales, goal_cases)
  case (1 q p)
  then show ?case by (simp add: push_packet_def can_queue_enqueue)
next
  case (2 q p)
  then show ?case by (cases p) (simp add: push_packet_def sendable_def queue_enqueue)
next
  case (3 p q)
  then show ?case by (auto simp: push_packet_def sendable_def enqueue_skip)
next
  case (4 q)
  then show ?case by (simp add: can_queue_def)
next
  case (5 q)
  show ?case by (simp add: take_packet_def split: list.splits)
next
  case (6 q p q')
  then show ?case by (auto simp: take_packet_def can_queue_def split: list.splits)
qed

subsection \<open>Replies collected in a batch\<close>

lemma push_be32_size_eq: "push_be32_size buf n = buf @ be32 (word_of_nat n)"
  by (simp add: push_be32_size_def be32_def Let_def)

lemma push_elements_eq: "push_elements buf ms = buf @ enc_elements ms"
  by (induction ms arbitrary: buf) (simp_all add: push_be32_size_eq)

lemma batch_datagram_eq:
  "ms \<noteq> [] \<Longrightarrow> batch_datagram ms = (if length ms = 1 then hd ms else enc_bundle ms)"
  by (simp add: batch_datagram_def push_elements_eq enc_bundle_def)

lemma batch_datagram_parses:
  assumes "ms \<noteq> []" "\<forall>m \<in> set ms. wire_element m"
    "length (batch_datagram (map enc_message ms)) < 2 ^ 64"
  shows "osc_parse_packet (batch_datagram (map enc_message ms)) [] = Some (True, ms)"
proof (cases "length ms = 1")
  case True
  then obtain m where m: "ms = [m]" by (cases ms) auto
  with assms show ?thesis
    using osc_parse_packet_build [of m "[]"]
    by (simp add: batch_datagram_def enc_message_def wire_element_def)
next
  case False
  with assms show ?thesis
    using osc_parse_packet_bundle [of ms "[]"] by (simp add: batch_datagram_eq)
qed

lemma batch_datagram_nonempty: "ms \<noteq> [] \<Longrightarrow> batch_datagram (map enc_message ms) \<noteq> []"
proof (cases "length ms = 1")
  case True
  then obtain m where m: "ms = [m]" by (cases ms) auto
  then show ?thesis
    using length_build_ge [of "address m" "args m"] by (auto simp: batch_datagram_def enc_message_def)
next
  case False
  assume "ms \<noteq> []"
  then show ?thesis using False by (auto simp: batch_datagram_eq enc_bundle_def bundle_tag_def)
qed

lemma replies_collected:
  "sv_batch s = \<lparr>rb_to = to, rb_active = True, rb_messages = es\<rparr> \<Longrightarrow>
   foldl (\<lambda>s m. server_reply to (address m) (args m) s) s ms =
     s\<lparr>sv_batch := \<lparr>rb_to = to, rb_active = True, rb_messages = es @ map enc_message ms\<rparr>\<rparr>"
proof (induction ms arbitrary: s es)
  case (Cons m ms)
  let ?s = "s\<lparr>sv_batch := \<lparr>rb_to = to, rb_active = True, rb_messages = es @ [enc_message m]\<rparr>\<rparr>"
  have "server_reply to (address m) (args m) s = ?s"
    using Cons.prems by (simp add: server_reply_def enc_message_def)
  with Cons.IH [of ?s "es @ [enc_message m]"] show ?case by simp
qed simp

lemma batch_flush:
  assumes "can_queue s" "ep_len to \<noteq> 0" "ms \<noteq> []"
  shows "sv_send_queue (end_batch (foldl (\<lambda>s m. server_reply to (address m) (args m) s) (begin_batch to s) ms)) =
     last_n max_send_queue (sv_send_queue s @
       [\<lparr>pk_target = ep_addr to, pk_target_len = ep_len to,
         pk_data = batch_datagram (map enc_message ms)\<rparr>])"
proof -
  let ?b = "\<lparr>rb_to = to, rb_active = True, rb_messages = map enc_message ms\<rparr>"
  have r: "foldl (\<lambda>s m. server_reply to (address m) (args m) s) (begin_batch to s) ms =
      s\<lparr>sv_batch := ?b\<rparr>"
    using replies_collected [of "begin_batch to s" to "[]" ms] by (simp add: begin_batch_def)
  have cq: "can_queue (s\<lparr>sv_batch := b\<rparr>)" for b using assms(1) by (simp add: can_queue_def)
  show ?thesis
    using assms(2,3) queue_enqueue [OF cq assms(2) batch_datagram_nonempty [OF assms(3)]]
    by (simp add: r end_batch_def Let_def)
qed

subsection \<open>Stopping drains the queue\<close>

definition deliver :: "'w os_api \<Rightarrow> int \<Rightarrow> out_packet list \<Rightarrow> 'w \<Rightarrow> 'w" where
  "deliver os fd ps w =
     foldl (\<lambda>w p. os_sendto os fd (pk_data p) (pk_target p) (pk_target_len p) w) w ps"

lemma send_loop_stopped:
  "\<not> sv_send_running s \<Longrightarrow> sv_fd s \<noteq> invalid_socket \<Longrightarrow>
   send_loop os s w = (s\<lparr>sv_send_queue := []\<rparr>, deliver os (sv_fd s) (sv_send_queue s) w)"
proof (induction os s w rule: send_loop.induct)
  case (1 os s w)
  show ?case
  proof (cases "sv_send_queue s")
    case Nil
    with 1 show ?thesis by (simp add: send_loop.simps [of os s w] send_pass_def deliver_def)
  next
    case (Cons p q)
    let ?s = "s\<lparr>sv_send_queue := q\<rparr>"
    let ?w = "os_sendto os (sv_fd s) (pk_data p) (pk_target p) (pk_target_len p) w"
    have sp: "send_pass os s w = Some (SendOne ?s ?w)"
      using Cons "1.prems" by (simp add: send_pass_def)
    from "1.IH" [OF sp refl] "1.prems"
    have "send_loop os ?s ?w = (?s\<lparr>sv_send_queue := []\<rparr>, deliver os (sv_fd s) q ?w)" by simp
    then show ?thesis
      by (simp add: send_loop.simps [of os s w] sp Cons deliver_def)
  qed
qed

lemma server_stop_running:
  assumes "sv_running s" "sv_fd s \<noteq> invalid_socket"
  shows "server_stop os s w =
    (s\<lparr>sv_running := False, sv_send_running := False, sv_fd := invalid_socket, sv_handler := False,
        sv_last_sender := no_addr, sv_last_sender_len := 0, sv_have_sender := False,
        sv_send_queue := []\<rparr>,
     net_cleanup os (close_wake os (sv_fd s) (deliver os (sv_fd s) (sv_send_queue s) w)))"
  using assms by (simp add: server_stop_def Let_def send_loop_stopped)

subsection \<open>Steps of the transport\<close>

text \<open>
  Everything that can happen to a server: its owner starts, stops and configures it, any
  thread queues a datagram or works on a batch, the sender and the receiver make a pass, and
  the world moves on.
\<close>

inductive server_step :: "'w os_api \<Rightarrow> server \<times> 'w \<Rightarrow> server \<times> 'w \<Rightarrow> bool"
  for os :: "'w os_api" where
  step_start: "server_start os port s w = (ok, s', w') \<Longrightarrow> server_step os (s, w) (s', w')"
| step_stop: "server_stop os s w = (s', w') \<Longrightarrow> server_step os (s, w) (s', w')"
| step_target: "server_step os (s, w) (set_feedback_target os host port w s, w)"
| step_fixed: "server_step os (s, w) (send_fixed d s, w)"
| step_last: "server_step os (s, w) (send_last d s, w)"
| step_to: "server_step os (s, w) (send_to d ep s, w)"
| step_begin: "server_step os (s, w) (begin_batch ep s, w)"
| step_reply: "server_step os (s, w) (server_reply ep a as s, w)"
| step_end: "server_step os (s, w) (end_batch s, w)"
| step_send: "send_pass os s w = Some (SendOne s' w') \<Longrightarrow> server_step os (s, w) (s', w')"
| step_recv: "recv_pass dgram s = (go, call, s') \<Longrightarrow> server_step os (s, w) (s', w)"
| step_world: "server_step os (s, w) (s, w')"

inductive server_reachable :: "'w os_api \<Rightarrow> server \<times> 'w \<Rightarrow> bool" for os :: "'w os_api" where
  reach_init: "server_reachable os (new_server, w)"
| reach_step: "server_reachable os c \<Longrightarrow> server_step os c c' \<Longrightarrow> server_reachable os c'"

inductive_cases server_stepE: "server_step os c c'"

definition server_inv :: "server \<Rightarrow> bool" where
  "server_inv s \<longleftrightarrow>
     length (sv_send_queue s) \<le> max_send_queue \<and>
     (sv_running s \<longleftrightarrow> sv_fd s \<noteq> invalid_socket) \<and>
     (sv_running s \<longleftrightarrow> sv_send_running s) \<and> (sv_running s \<longleftrightarrow> sv_handler s) \<and>
     (\<not> sv_running s \<longrightarrow> sv_send_queue s = [] \<and> \<not> sv_have_sender s) \<and>
     (\<forall>p \<in> set (sv_send_queue s). sendable p)"

lemma server_inv_new [simp]: "server_inv new_server"
  by (simp add: server_inv_def new_server_def)

lemma set_last_n: "set (last_n n xs) \<subseteq> set xs"
  by (simp add: last_n_def set_drop_subset)

lemma server_inv_enqueue: "server_inv s \<Longrightarrow> server_inv (enqueue t l d s)"
proof -
  assume i: "server_inv s"
  consider "l = 0 \<or> d = []" | "l \<noteq> 0" "d \<noteq> []" "sv_running s" | "\<not> sv_running s" by blast
  then show ?thesis
  proof cases
    case 1
    with i show ?thesis by (simp add: enqueue_skip)
  next
    case 2
    with i have "can_queue s" by (simp add: can_queue_def server_inv_def)
    from queue_enqueue [OF this 2(1,2), of t] show ?thesis
      using i 2 set_last_n [of max_send_queue]
      by (fastforce simp: server_inv_def enqueue_frame sendable_def)
  next
    case 3
    with i have "enqueue t l d s = s" by (simp add: enqueue_def server_inv_def)
    with i show ?thesis by simp
  qed
qed

lemma server_inv_batch [simp]: "server_inv (s\<lparr>sv_batch := b\<rparr>) \<longleftrightarrow> server_inv s"
  by (simp add: server_inv_def)

lemma server_inv_target:
  "server_inv s \<Longrightarrow> server_inv (set_feedback_target os host port w s)"
  by (auto simp: server_inv_def set_feedback_target_def Let_def split: option.splits)

lemma server_inv_start:
  "server_inv s \<Longrightarrow> server_start os port s w = (ok, s', w') \<Longrightarrow> server_inv s'"
  by (auto simp: server_start_def server_inv_def split: if_splits prod.splits)

lemma server_inv_stop: "server_inv s \<Longrightarrow> server_stop os s w = (s', w') \<Longrightarrow> server_inv s'"
  by (cases "sv_running s")
    (auto simp: server_stop_running server_inv_def, auto simp: server_stop_def)

lemma server_inv_send:
  "server_inv s \<Longrightarrow> send_pass os s w = Some (SendOne s' w') \<Longrightarrow> server_inv s'"
  by (auto simp: send_pass_def server_inv_def Let_def split: list.splits if_splits)

lemma server_inv_recv: "server_inv s \<Longrightarrow> recv_pass dgram s = (go, call, s') \<Longrightarrow> server_inv s'"
  by (auto simp: recv_pass_def server_inv_def Let_def split: option.splits prod.splits if_splits)

lemma server_inv_end: "server_inv s \<Longrightarrow> server_inv (end_batch s)"
  by (simp add: end_batch_def Let_def server_inv_enqueue)

lemma server_step_inv: "server_step os c c' \<Longrightarrow> server_inv (fst c) \<Longrightarrow> server_inv (fst c')"
  by (erule server_stepE)
    (auto simp: send_fixed_def send_last_def send_to_def begin_batch_def server_reply_def Let_def
       intro: server_inv_start server_inv_stop server_inv_target server_inv_enqueue
         server_inv_send server_inv_recv server_inv_end)

lemma server_reachable_inv: "server_reachable os c \<Longrightarrow> server_inv (fst c)"
  by (induction rule: server_reachable.induct) (simp_all add: server_step_inv)

end
