(* ===== verification/OscAddresses.thy ===== *)
theory OscAddresses
  imports OscGlob
begin

text \<open>
  The address namespace (\<^verbatim>\<open>osc-addresses.h\<close>, \<^verbatim>\<open>osc-addresses.cpp\<close>): the route constants, the
  output and media tables, the routing helpers and the builders for outgoing addresses, and
  \<^verbatim>\<open>split_two_segments\<close> of \<^verbatim>\<open>osc-controls.cpp\<close>, which takes two-segment routes apart.
  A helper that returns a pointer or null returns an option.  The lemmas show that the helpers
  undo the builders.
\<close>

named_theorems addr_defs
  \<comment> \<open>the route constants\<close>

subsection \<open>Routes\<close>

definition addr_root :: string where [addr_defs]: "addr_root = ''/''"
definition addr_studio :: string where [addr_defs]: "addr_studio = ''/studio''"
definition addr_screenshot :: string where [addr_defs]: "addr_screenshot = ''/screenshot''"
definition addr_transition :: string where [addr_defs]: "addr_transition = ''/transition''"
definition addr_program :: string where [addr_defs]: "addr_program = ''/program''"
definition addr_preview :: string where [addr_defs]: "addr_preview = ''/preview''"

definition program_prefix :: string where [addr_defs]: "program_prefix = ''/program/''"
definition program_index_prefix :: string where
  [addr_defs]: "program_index_prefix = ''/program/index/''"
definition preview_prefix :: string where [addr_defs]: "preview_prefix = ''/preview/''"
definition transition_prefix :: string where [addr_defs]: "transition_prefix = ''/transition/''"
definition mute_prefix :: string where [addr_defs]: "mute_prefix = ''/mute/''"
definition volume_prefix :: string where [addr_defs]: "volume_prefix = ''/volume/''"
definition db_prefix :: string where [addr_defs]: "db_prefix = ''/db/''"
definition media_prefix :: string where [addr_defs]: "media_prefix = ''/media/''"
definition profile_prefix :: string where [addr_defs]: "profile_prefix = ''/profile/''"
definition collection_prefix :: string where [addr_defs]: "collection_prefix = ''/collection/''"
definition visible_prefix :: string where [addr_defs]: "visible_prefix = ''/visible/''"
definition locked_prefix :: string where [addr_defs]: "locked_prefix = ''/locked/''"
definition order_prefix :: string where [addr_defs]: "order_prefix = ''/order/''"
definition filter_prefix :: string where [addr_defs]: "filter_prefix = ''/filter/''"
definition active_prefix :: string where [addr_defs]: "active_prefix = ''/active/''"
definition showing_prefix :: string where [addr_defs]: "showing_prefix = ''/showing/''"
definition hotkey_prefix :: string where [addr_defs]: "hotkey_prefix = ''/hotkey/''"
definition transform_prefix :: string where [addr_defs]: "transform_prefix = ''/transform/''"

definition addr_profile :: string where [addr_defs]: "addr_profile = ''/profile''"
definition addr_collection :: string where [addr_defs]: "addr_collection = ''/collection''"
definition addr_visible :: string where [addr_defs]: "addr_visible = ''/visible''"
definition addr_locked :: string where [addr_defs]: "addr_locked = ''/locked''"
definition addr_order :: string where [addr_defs]: "addr_order = ''/order''"
definition addr_filter :: string where [addr_defs]: "addr_filter = ''/filter''"
definition addr_active :: string where [addr_defs]: "addr_active = ''/active''"
definition addr_showing :: string where [addr_defs]: "addr_showing = ''/showing''"
definition addr_transform :: string where [addr_defs]: "addr_transform = ''/transform''"
definition filter_params_node :: string where [addr_defs]: "filter_params_node = ''params''"
definition addr_subscribe :: string where [addr_defs]: "addr_subscribe = ''/subscribe''"
definition addr_unsubscribe :: string where [addr_defs]: "addr_unsubscribe = ''/unsubscribe''"
definition transition_go :: string where [addr_defs]: "transition_go = ''go''"

definition addr_stream :: string where [addr_defs]: "addr_stream = ''/stream''"
definition addr_record :: string where [addr_defs]: "addr_record = ''/record''"
definition record_paused :: string where [addr_defs]: "record_paused = ''/record/paused''"
definition addr_replay :: string where [addr_defs]: "addr_replay = ''/replay''"
definition replay_saved :: string where [addr_defs]: "replay_saved = ''/replay/saved''"
definition addr_virtualcam :: string where [addr_defs]: "addr_virtualcam = ''/virtualcam''"

definition sub_start :: string where [addr_defs]: "sub_start = ''start''"
definition sub_stop :: string where [addr_defs]: "sub_stop = ''stop''"
definition sub_toggle :: string where [addr_defs]: "sub_toggle = ''toggle''"
definition sub_save :: string where [addr_defs]: "sub_save = ''save''"
definition sub_pause :: string where [addr_defs]: "sub_pause = ''pause''"

definition media_state_node :: string where [addr_defs]: "media_state_node = ''state''"
definition addr_mute :: string where [addr_defs]: "addr_mute = ''mute''"
definition addr_volume :: string where [addr_defs]: "addr_volume = ''volume''"
definition addr_db :: string where [addr_defs]: "addr_db = ''db''"
definition addr_media :: string where [addr_defs]: "addr_media = ''media''"

subsection \<open>Tables\<close>

datatype output_id = OutStream | OutRecord | OutReplay | OutVirtualcam

record output_info =
  out_id :: output_id
  out_base :: string
  out_description :: string
  out_subs :: "string list"

definition outputs :: "output_info list" where
  "outputs =
     [\<lparr>out_id = OutStream, out_base = addr_stream, out_description = ''Streaming control'',
       out_subs = [sub_start, sub_stop, sub_toggle]\<rparr>,
      \<lparr>out_id = OutRecord, out_base = addr_record, out_description = ''Recording control'',
       out_subs = [sub_start, sub_stop, sub_toggle, sub_pause]\<rparr>,
      \<lparr>out_id = OutReplay, out_base = addr_replay, out_description = ''Replay buffer control'',
       out_subs = [sub_start, sub_stop, sub_save]\<rparr>,
      \<lparr>out_id = OutVirtualcam, out_base = addr_virtualcam,
       out_description = ''Virtual camera control'', out_subs = [sub_start, sub_stop]\<rparr>]"

datatype media_action =
  MediaPlay | MediaPause | MediaToggle | MediaStop | MediaRestart | MediaNext | MediaPrev

definition media_verbs :: "(string \<times> media_action) list" where
  "media_verbs =
     [(''play'', MediaPlay), (''pause'', MediaPause), (''toggle'', MediaToggle),
      (''stop'', MediaStop), (''restart'', MediaRestart), (''next'', MediaNext),
      (''prev'', MediaPrev)]"

text \<open>The outputs in the order of the source's enum; the table has exactly one row for each.\<close>

instantiation output_id :: enum
begin

definition enum_output_id :: "output_id list" where
  "enum_output_id = [OutStream, OutRecord, OutReplay, OutVirtualcam]"

definition enum_all_output_id :: "(output_id \<Rightarrow> bool) \<Rightarrow> bool" where
  "enum_all_output_id P = list_all P Enum.enum"

definition enum_ex_output_id :: "(output_id \<Rightarrow> bool) \<Rightarrow> bool" where
  "enum_ex_output_id P = list_ex P Enum.enum"

instance
proof (standard, goal_cases)
  case 1
  show ?case using output_id.exhaust by (auto simp: enum_output_id_def)
next
  case 2
  show ?case by (simp add: enum_output_id_def)
next
  case (3 P)
  show ?case by (auto simp: enum_all_output_id_def enum_output_id_def) (metis output_id.exhaust)
next
  case (4 P)
  show ?case by (auto simp: enum_ex_output_id_def enum_output_id_def) (metis output_id.exhaust)
qed

end

lemma outputs_enum: "map out_id outputs = Enum.enum"
  by (simp add: outputs_def enum_output_id_def)

lemma output_row: "\<exists>!out. out \<in> set outputs \<and> out_id out = i"
proof -
  have "i \<in> out_id ` set outputs" using outputs_enum enum_UNIV by (metis UNIV_I set_map)
  moreover have "inj_on out_id (set outputs)"
    using outputs_enum enum_distinct by (metis distinct_map)
  ultimately show ?thesis by (auto dest: inj_onD)
qed

subsection \<open>Routing helpers\<close>

text \<open>\<^verbatim>\<open>s.compare(0, n, t) == 0\<close> for a C string \<open>t\<close> of length \<open>n\<close>.\<close>

definition compare_prefix :: "string \<Rightarrow> string \<Rightarrow> bool" where
  "compare_prefix s t \<longleftrightarrow> take (length t) s = t"

definition has_prefix :: "string \<Rightarrow> string \<Rightarrow> bool" where
  "has_prefix addr prefix = compare_prefix addr prefix"

definition sub_action :: "string \<Rightarrow> string \<Rightarrow> string option" where
  "sub_action addr base =
     (if \<not> compare_prefix addr base then None
      else if length addr = length base then Some []
      else if addr ! length base = CHR ''/'' then Some (drop (length base + 1) addr)
      else None)"

definition tail :: "string \<Rightarrow> string \<Rightarrow> string option" where
  "tail addr prefix =
     (if length addr \<le> length prefix \<or> \<not> compare_prefix addr prefix then None
      else Some (drop (length prefix) addr))"

text \<open>What follows the last \<^verbatim>\<open>/\<close>, the whole string when there is none (\<^verbatim>\<open>strrchr\<close>).\<close>

fun leaf_from :: "string \<Rightarrow> string \<Rightarrow> string" where
  "leaf_from acc [] = acc"
| "leaf_from acc (c # s) = leaf_from (if c = CHR ''/'' then s else acc) s"

definition leaf :: "string \<Rightarrow> string" where
  "leaf addr = leaf_from addr addr"

definition split_two_segments :: "string \<Rightarrow> (string \<times> string) option" where
  "split_two_segments rest =
     (if CHR ''/'' \<notin> set rest then None
      else
        let first = takeWhile (\<lambda>c. c \<noteq> CHR ''/'') rest;
            slash = dropWhile (\<lambda>c. c \<noteq> CHR ''/'') rest
        in if tl slash = [] then None
           else if first \<noteq> [] \<and> tl slash \<noteq> [] then Some (first, tl slash) else None)"

subsection \<open>Builders\<close>

definition prefixed :: "string \<Rightarrow> string \<Rightarrow> string" where
  "prefixed prefix name = prefix @ name"

definition mute_for :: "string \<Rightarrow> string" where "mute_for n = prefixed mute_prefix n"
definition volume_for :: "string \<Rightarrow> string" where "volume_for n = prefixed volume_prefix n"

definition media_state_for :: "string \<Rightarrow> string" where
  "media_state_for n = prefixed media_prefix n @ ''/'' @ media_state_node"

definition joined_for :: "string \<Rightarrow> string \<Rightarrow> string \<Rightarrow> string" where
  "joined_for prefix parent child = prefixed prefix parent @ ''/'' @ child"

definition joined3_for :: "string \<Rightarrow> string \<Rightarrow> string \<Rightarrow> string \<Rightarrow> string" where
  "joined3_for prefix a b c = prefixed prefix a @ ''/'' @ b @ ''/'' @ c"

definition visible_for :: "string \<Rightarrow> string \<Rightarrow> string" where
  "visible_for scene item = joined_for visible_prefix scene item"
definition locked_for :: "string \<Rightarrow> string \<Rightarrow> string" where
  "locked_for scene item = joined_for locked_prefix scene item"
definition order_for :: "string \<Rightarrow> string \<Rightarrow> string" where
  "order_for scene item = joined_for order_prefix scene item"
definition filter_for :: "string \<Rightarrow> string \<Rightarrow> string" where
  "filter_for source filter_name = joined_for filter_prefix source filter_name"
definition transform_for :: "string \<Rightarrow> string \<Rightarrow> string \<Rightarrow> string" where
  "transform_for scene item field = joined3_for transform_prefix scene item field"

subsection \<open>Facts\<close>

lemma compare_prefix_append [simp]: "compare_prefix (t @ s) t"
  by (simp add: compare_prefix_def)

lemma compare_prefix_iff: "compare_prefix s t \<longleftrightarrow> (\<exists>u. s = t @ u)"
  unfolding compare_prefix_def by (metis append_eq_conv_conj append_take_drop_id)

lemma tail_prefixed: "n \<noteq> [] \<Longrightarrow> tail (prefixed p n) p = Some n"
  by (simp add: tail_def prefixed_def)

lemma tail_Some_iff: "tail a p = Some n \<longleftrightarrow> n \<noteq> [] \<and> a = prefixed p n"
  by (auto simp: tail_def prefixed_def compare_prefix_iff split: if_splits)

lemma sub_action_base [simp]: "sub_action base base = Some []"
  by (simp add: sub_action_def compare_prefix_def)

lemma sub_action_Some_iff:
  "sub_action a base = Some sub \<longleftrightarrow> (a = base \<and> sub = []) \<or> a = base @ CHR ''/'' # sub"
proof
  assume "sub_action a base = Some sub"
  then obtain u where "a = base @ u" "u = [] \<and> sub = [] \<or> u \<noteq> [] \<and> hd u = CHR ''/'' \<and> sub = tl u"
    by (auto simp: sub_action_def compare_prefix_iff hd_conv_nth drop_Suc split: if_splits)
      (auto simp: nth_append drop_Suc hd_conv_nth)
  then show "(a = base \<and> sub = []) \<or> a = base @ CHR ''/'' # sub" by (cases u) auto
qed (auto simp: sub_action_def compare_prefix_def)

lemma split_two_segments_append:
  "CHR ''/'' \<notin> set first \<Longrightarrow> first \<noteq> [] \<Longrightarrow> second \<noteq> [] \<Longrightarrow>
   split_two_segments (first @ ''/'' @ second) = Some (first, second)"
  by (simp add: split_two_segments_def takeWhile_neq_append dropWhile_neq_append)

lemma split_two_segments_Some_iff:
  "split_two_segments r = Some (first, second) \<longleftrightarrow>
     first \<noteq> [] \<and> second \<noteq> [] \<and> CHR ''/'' \<notin> set first \<and> r = first @ CHR ''/'' # second"
proof
  assume l: "split_two_segments r = Some (first, second)"
  then have s: "CHR ''/'' \<in> set r" and f: "first = takeWhile (\<lambda>c. c \<noteq> CHR ''/'') r" "first \<noteq> []"
    and d: "second = tl (dropWhile (\<lambda>c. c \<noteq> CHR ''/'') r)" "second \<noteq> []"
    by (auto simp: split_two_segments_def Let_def split: if_splits)
  from s have "dropWhile (\<lambda>c. c \<noteq> CHR ''/'') r \<noteq> []" by (auto simp: dropWhile_eq_Nil_conv)
  then have "dropWhile (\<lambda>c. c \<noteq> CHR ''/'') r = CHR ''/'' # second"
    using hd_dropWhile [of "\<lambda>c. c \<noteq> CHR ''/''" r] by (cases "dropWhile (\<lambda>c. c \<noteq> CHR ''/'') r") (auto simp: d)
  then have "r = first @ CHR ''/'' # second"
    using takeWhile_dropWhile_id [of "\<lambda>c. c \<noteq> CHR ''/''" r] by (simp add: f)
  then show "first \<noteq> [] \<and> second \<noteq> [] \<and> CHR ''/'' \<notin> set first \<and> r = first @ CHR ''/'' # second"
    using f d by (auto dest: set_takeWhileD)
next
  assume "first \<noteq> [] \<and> second \<noteq> [] \<and> CHR ''/'' \<notin> set first \<and> r = first @ CHR ''/'' # second"
  then show "split_two_segments r = Some (first, second)"
    using split_two_segments_append [of first second] by simp
qed

lemma leaf_from_append: "CHR ''/'' \<notin> set s \<Longrightarrow> leaf_from acc s = acc"
  by (induction s) auto

lemma leaf_slash: "CHR ''/'' \<notin> set s \<Longrightarrow> leaf (t @ CHR ''/'' # s) = s"
proof -
  assume s: "CHR ''/'' \<notin> set s"
  then have "leaf_from acc (t @ CHR ''/'' # s) = s" for acc
    by (induction t arbitrary: acc) (simp_all add: leaf_from_append)
  then show ?thesis by (simp add: leaf_def)
qed

end
