(* ===== verification/OscSubscribe.thy ===== *)
theory OscSubscribe
  imports OscMessage OscNet OscAddresses
begin

text \<open>
  The change-notification registries (\<^verbatim>\<open>osc-subscribe.h\<close>, \<^verbatim>\<open>osc-subscribe.cpp\<close>): UDP topic
  subscriptions and the LISTEN registrations of websocket peers.  Every operation holds
  \<^verbatim>\<open>registry_mutex\<close>, so it is one function on the record \<open>registry\<close>.  A peer token is the
  address of a connection object, a \<open>nat\<close>.  The selection \<^verbatim>\<open>osc_publish\<close> makes under the lock
  is \<open>publish_targets\<close> and \<open>publish_peers\<close>; the sends that follow are in \<open>OscFeedback\<close>.
  The interface \<open>listen_registry\<close> is what the websocket server relies on.
\<close>

subsection \<open>State\<close>

definition max_subscribers :: nat where "max_subscribers = 32"
definition max_patterns :: nat where "max_patterns = 64"
definition max_listeners :: nat where "max_listeners = 256"
definition max_pattern_len :: nat where "max_pattern_len = 256"

lemmas registry_bounds = max_subscribers_def max_patterns_def max_listeners_def max_pattern_len_def

record subscriber =
  sub_endpoint :: osc_endpoint
  sub_patterns :: "string list"

record listener =
  lis_peer :: nat
  lis_path :: string

record registry =
  subscriber_count :: nat
  subscribers :: "subscriber list"
  listeners :: "listener list"

definition new_registry :: registry where
  "new_registry = \<lparr>subscriber_count = 0, subscribers = [], listeners = []\<rparr>"

subsection \<open>Topic subscriptions\<close>

fun subscribe_existing ::
  "osc_endpoint \<Rightarrow> string \<Rightarrow> int \<Rightarrow> subscriber list \<Rightarrow> subscriber list option" where
  "subscribe_existing who pattern port [] = None"
| "subscribe_existing who pattern port (sub # subs) =
     (if \<not> endpoint_equal (sub_endpoint sub) who
      then map_option (\<lambda>rest. sub # rest) (subscribe_existing who pattern port subs)
      else
        let sub1 = (if port > 0
                    then sub\<lparr>sub_endpoint := endpoint_set_port (sub_endpoint sub) port\<rparr> else sub)
        in if pattern \<notin> set (sub_patterns sub1) then
             (if max_patterns \<le> length (sub_patterns sub1) then Some (sub1 # subs)
              else Some (sub1\<lparr>sub_patterns := sub_patterns sub1 @ [pattern]\<rparr> # subs))
           else Some (sub1 # subs))"

definition osc_subscribe_add :: "osc_endpoint \<Rightarrow> string \<Rightarrow> int \<Rightarrow> registry \<Rightarrow> registry" where
  "osc_subscribe_add who pattern port reg =
     (if pattern = [] \<or> max_pattern_len < length pattern then reg
      else case subscribe_existing who pattern port (subscribers reg) of
        Some subs \<Rightarrow> reg\<lparr>subscribers := subs\<rparr>
      | None \<Rightarrow>
          (if max_subscribers \<le> length (subscribers reg) then reg
           else
             let sub = \<lparr>sub_endpoint = (if port > 0 then endpoint_set_port who port else who),
                        sub_patterns = [pattern]\<rparr>
             in reg\<lparr>subscribers := subscribers reg @ [sub],
                    subscriber_count := (subscriber_count reg + 1) mod 2 ^ 64\<rparr>))"

text \<open>The second component tells whether a subscriber was erased.\<close>

fun unsubscribe_first ::
  "osc_endpoint \<Rightarrow> string option \<Rightarrow> subscriber list \<Rightarrow> subscriber list \<times> bool" where
  "unsubscribe_first who pattern [] = ([], False)"
| "unsubscribe_first who pattern (sub # subs) =
     (if \<not> endpoint_equal (sub_endpoint sub) who
      then (case unsubscribe_first who pattern subs of (rest, gone) \<Rightarrow> (sub # rest, gone))
      else
        let left = (case pattern of Some p \<Rightarrow> remove1 p (sub_patterns sub) | None \<Rightarrow> [])
        in if left = [] then (subs, True) else (sub\<lparr>sub_patterns := left\<rparr> # subs, False))"

definition osc_subscribe_remove :: "osc_endpoint \<Rightarrow> string option \<Rightarrow> registry \<Rightarrow> registry" where
  "osc_subscribe_remove who pattern reg =
     (case unsubscribe_first who pattern (subscribers reg) of (subs, gone) \<Rightarrow>
        reg\<lparr>subscribers := subs,
            subscriber_count := (if gone then size_sub (subscriber_count reg) 1
                                 else subscriber_count reg)\<rparr>)"

definition osc_has_subscribers :: "registry \<Rightarrow> bool" where
  "osc_has_subscribers reg \<longleftrightarrow> subscriber_count reg \<noteq> 0"

subsection \<open>LISTEN registrations\<close>

definition osc_listen_add :: "nat \<Rightarrow> string \<Rightarrow> registry \<Rightarrow> registry" where
  "osc_listen_add peer path reg =
     (if path = [] \<or> max_pattern_len < length path then reg
      else if \<exists>l \<in> set (listeners reg). lis_peer l = peer \<and> lis_path l = path then reg
      else if max_listeners \<le> length (listeners reg) then reg
      else reg\<lparr>listeners := listeners reg @ [\<lparr>lis_peer = peer, lis_path = path\<rparr>]\<rparr>)"

fun erase_listener :: "nat \<Rightarrow> string \<Rightarrow> listener list \<Rightarrow> listener list" where
  "erase_listener peer path [] = []"
| "erase_listener peer path (l # ls) =
     (if lis_peer l = peer \<and> lis_path l = path then ls else l # erase_listener peer path ls)"

definition osc_listen_remove :: "nat \<Rightarrow> string \<Rightarrow> registry \<Rightarrow> registry" where
  "osc_listen_remove peer path reg =
     reg\<lparr>listeners := erase_listener peer path (listeners reg)\<rparr>"

fun erase_peer :: "nat \<Rightarrow> listener list \<Rightarrow> listener list" where
  "erase_peer peer [] = []"
| "erase_peer peer (l # ls) =
     (if lis_peer l = peer then erase_peer peer ls else l # erase_peer peer ls)"

definition osc_listen_remove_peer :: "nat \<Rightarrow> registry \<Rightarrow> registry" where
  "osc_listen_remove_peer peer reg = reg\<lparr>listeners := erase_peer peer (listeners reg)\<rparr>"

subsection \<open>The subscription commands\<close>

definition subscription_port :: "(f32 \<Rightarrow> int32) \<Rightarrow> osc_message \<Rightarrow> int" where
  "subscription_port oor msg =
     (if 2 \<le> length (args msg) then
        let want = sint (arg_int oor msg 1 0)
        in if want > 0 \<and> want \<le> 65535 then want else 0
      else 0)"

definition osc_handle_subscription ::
  "(f32 \<Rightarrow> int32) \<Rightarrow> osc_message \<Rightarrow> osc_endpoint \<Rightarrow> bool \<Rightarrow> registry \<Rightarrow> registry" where
  "osc_handle_subscription oor msg who unsubscribe reg =
     (if unsubscribe then
        (if args msg \<noteq> [] \<and> arg_type (args msg ! 0) = CHR ''s''
         then osc_subscribe_remove who (Some (c_str (arg_s (args msg ! 0)))) reg
         else osc_subscribe_remove who None reg)
      else if args msg = [] \<or> arg_type (args msg ! 0) \<noteq> CHR ''s'' \<or> arg_s (args msg ! 0) = []
      then reg
      else osc_subscribe_add who (arg_s (args msg ! 0)) (subscription_port oor msg) reg)"

subsection \<open>Selecting the receivers of an event\<close>

fun publish_targets :: "string \<Rightarrow> subscriber list \<Rightarrow> osc_endpoint list" where
  "publish_targets addr [] = []"
| "publish_targets addr (sub # subs) =
     (if \<exists>p \<in> set (sub_patterns sub). osc_glob_match (c_str p) addr
      then sub_endpoint sub # publish_targets addr subs
      else publish_targets addr subs)"

fun publish_peers :: "string \<Rightarrow> listener list \<Rightarrow> nat list" where
  "publish_peers addr [] = []"
| "publish_peers addr (l # ls) =
     (if lis_path l = addr then lis_peer l # publish_peers addr ls else publish_peers addr ls)"

subsection \<open>The invariant of the registry\<close>

definition pattern_ok :: "string \<Rightarrow> bool" where
  "pattern_ok p \<longleftrightarrow> p \<noteq> [] \<and> length p \<le> max_pattern_len"

definition subscriber_ok :: "subscriber \<Rightarrow> bool" where
  "subscriber_ok sub \<longleftrightarrow>
     sub_patterns sub \<noteq> [] \<and> distinct (sub_patterns sub) \<and>
     length (sub_patterns sub) \<le> max_patterns \<and>
     (\<forall>p \<in> set (sub_patterns sub). pattern_ok p)"

definition registry_inv :: "registry \<Rightarrow> bool" where
  "registry_inv reg \<longleftrightarrow>
     subscriber_count reg = length (subscribers reg) \<and>
     length (subscribers reg) \<le> max_subscribers \<and>
     (\<forall>sub \<in> set (subscribers reg). subscriber_ok sub) \<and>
     length (listeners reg) \<le> max_listeners \<and> distinct (listeners reg) \<and>
     (\<forall>l \<in> set (listeners reg). pattern_ok (lis_path l))"

lemma registry_inv_new [simp]: "registry_inv new_registry"
  by (simp add: registry_inv_def new_registry_def)

lemma subscriber_ok_endpoint [simp]: "subscriber_ok (sub\<lparr>sub_endpoint := e\<rparr>) \<longleftrightarrow> subscriber_ok sub"
  by (simp add: subscriber_ok_def)

lemma subscriber_ok_add:
  "subscriber_ok sub \<Longrightarrow> pattern_ok p \<Longrightarrow> p \<notin> set (sub_patterns sub) \<Longrightarrow>
   length (sub_patterns sub) < max_patterns \<Longrightarrow> subscriber_ok (sub\<lparr>sub_patterns := sub_patterns sub @ [p]\<rparr>)"
  by (auto simp: subscriber_ok_def)

lemma subscriber_ok_remove:
  assumes "subscriber_ok sub" "remove1 p (sub_patterns sub) \<noteq> []"
  shows "subscriber_ok (sub\<lparr>sub_patterns := remove1 p (sub_patterns sub)\<rparr>)"
proof -
  have "length (remove1 p (sub_patterns sub)) \<le> length (sub_patterns sub)"
    by (simp add: length_remove1)
  with assms show ?thesis
    using set_remove1_subset [of p "sub_patterns sub"] by (auto simp: subscriber_ok_def)
qed

lemma subscribe_existing_ok:
  "subscribe_existing who pattern port subs = Some subs' \<Longrightarrow> pattern_ok pattern \<Longrightarrow>
   \<forall>sub \<in> set subs. subscriber_ok sub \<Longrightarrow>
   length subs' = length subs \<and> (\<forall>sub \<in> set subs'. subscriber_ok sub)"
proof (induction subs arbitrary: subs')
  case (Cons sub subs)
  show ?case
  proof (cases "endpoint_equal (sub_endpoint sub) who")
    case True
    define sub1 where
      "sub1 = (if port > 0 then sub\<lparr>sub_endpoint := endpoint_set_port (sub_endpoint sub) port\<rparr> else sub)"
    have ok: "subscriber_ok sub1" using Cons.prems by (simp add: sub1_def)
    from True Cons.prems(1) have "subs' = sub1 # subs \<or> subs' = sub1\<lparr>sub_patterns := sub_patterns sub1 @ [pattern]\<rparr> # subs
        \<and> pattern \<notin> set (sub_patterns sub1) \<and> length (sub_patterns sub1) < max_patterns"
      by (simp add: Let_def flip: sub1_def split: if_splits)
    with ok Cons.prems(2,3) subscriber_ok_add [OF ok] show ?thesis by auto
  next
    case False
    with Cons show ?thesis by auto
  qed
qed simp

lemma registry_inv_subscribe_add:
  assumes "registry_inv reg"
  shows "registry_inv (osc_subscribe_add who pattern port reg)"
proof (cases "pattern = [] \<or> max_pattern_len < length pattern")
  case True
  with assms show ?thesis by (simp add: osc_subscribe_add_def)
next
  case False
  then have ok: "pattern_ok pattern" by (simp add: pattern_ok_def)
  then have new: "subscriber_ok \<lparr>sub_endpoint = e, sub_patterns = [pattern]\<rparr>" for e
    by (simp add: subscriber_ok_def max_patterns_def)
  show ?thesis
  proof (cases "subscribe_existing who pattern port (subscribers reg)")
    case None
    with False new assms show ?thesis
      by (auto simp: osc_subscribe_add_def registry_inv_def Let_def max_subscribers_def)
  next
    case (Some subs)
    with False ok assms subscribe_existing_ok [OF Some ok] show ?thesis
      by (simp add: osc_subscribe_add_def registry_inv_def)
  qed
qed

lemma unsubscribe_first_ok:
  "unsubscribe_first who pattern subs = (subs', gone) \<Longrightarrow> \<forall>sub \<in> set subs. subscriber_ok sub \<Longrightarrow>
   (\<forall>sub \<in> set subs'. subscriber_ok sub) \<and>
   length subs = (if gone then Suc (length subs') else length subs')"
proof (induction subs arbitrary: subs' gone)
  case (Cons sub subs)
  show ?case
  proof (cases "endpoint_equal (sub_endpoint sub) who")
    case True
    with Cons.prems subscriber_ok_remove [of sub] show ?thesis
      by (auto simp: Let_def split: if_splits option.splits)
  next
    case False
    obtain rest g where "unsubscribe_first who pattern subs = (rest, g)" by fastforce
    with False Cons show ?thesis by auto
  qed
qed simp

lemma registry_inv_subscribe_remove:
  assumes "registry_inv reg"
  shows "registry_inv (osc_subscribe_remove who pattern reg)"
proof -
  obtain subs gone where u: "unsubscribe_first who pattern (subscribers reg) = (subs, gone)"
    by fastforce
  have "size_sub n 1 = n - 1" if "0 < n" "n \<le> max_subscribers" for n
    using that by (intro size_sub_eq) (auto simp: max_subscribers_def)
  with u unsubscribe_first_ok [OF u] assms show ?thesis
    by (auto simp: osc_subscribe_remove_def registry_inv_def)
qed

lemma set_erase_peer: "set (erase_peer peer ls) = {l \<in> set ls. lis_peer l \<noteq> peer}"
  by (induction ls) auto

lemma erase_peer_distinct: "distinct ls \<Longrightarrow> distinct (erase_peer peer ls)"
  by (induction ls) (auto simp: set_erase_peer)

lemma length_erase_peer: "length (erase_peer peer ls) \<le> length ls"
  by (induction ls) auto

lemma erase_listener_remove1: "erase_listener peer path ls = remove1 \<lparr>lis_peer = peer, lis_path = path\<rparr> ls"
  by (induction ls) (auto intro: listener.equality)

lemma registry_inv_listen_add: "registry_inv reg \<Longrightarrow> registry_inv (osc_listen_add peer path reg)"
  by (auto simp: registry_inv_def osc_listen_add_def pattern_ok_def)

lemma registry_inv_listen_remove:
  "registry_inv reg \<Longrightarrow> registry_inv (osc_listen_remove peer path reg)"
  using set_remove1_subset [of _ "listeners reg"]
  by (auto simp: registry_inv_def osc_listen_remove_def erase_listener_remove1 length_remove1
        dest: notin_set_remove1)

lemma registry_inv_listen_remove_peer:
  "registry_inv reg \<Longrightarrow> registry_inv (osc_listen_remove_peer peer reg)"
  using length_erase_peer [of peer "listeners reg"]
  by (auto simp: registry_inv_def osc_listen_remove_peer_def set_erase_peer erase_peer_distinct)

lemma registry_inv_handle_subscription:
  "registry_inv reg \<Longrightarrow> registry_inv (osc_handle_subscription oor msg who unsub reg)"
  by (simp add: osc_handle_subscription_def registry_inv_subscribe_add registry_inv_subscribe_remove)

subsection \<open>What a registration means\<close>

text \<open>The abstract view: the topics the registry holds for an endpoint.\<close>

definition topics :: "osc_endpoint \<Rightarrow> subscriber list \<Rightarrow> string list" where
  "topics who subs =
     (case find (\<lambda>sub. endpoint_equal (sub_endpoint sub) who) subs of
        None \<Rightarrow> [] | Some sub \<Rightarrow> sub_patterns sub)"

fun unique_endpoints :: "subscriber list \<Rightarrow> bool" where
  "unique_endpoints [] = True"
| "unique_endpoints (sub # subs) =
     ((\<forall>s \<in> set subs. \<not> endpoint_equal (sub_endpoint s) (sub_endpoint sub)) \<and> unique_endpoints subs)"

lemma topics_Nil [simp]: "topics who [] = []"
  by (simp add: topics_def)

lemma topics_Cons [simp]:
  "topics who (sub # subs) =
     (if endpoint_equal (sub_endpoint sub) who then sub_patterns sub else topics who subs)"
  by (simp add: topics_def)

lemma topics_append:
  "topics who (subs @ [sub]) =
     (if \<exists>s \<in> set subs. endpoint_equal (sub_endpoint s) who then topics who subs
      else topics who [sub])"
  by (induction subs) auto

lemma topics_none: "\<forall>s \<in> set subs. \<not> endpoint_equal (sub_endpoint s) who \<Longrightarrow> topics who subs = []"
  by (induction subs) auto

lemma subscribe_existing_None:
  "subscribe_existing who p port subs = None \<longleftrightarrow> (\<forall>s \<in> set subs. \<not> endpoint_equal (sub_endpoint s) who)"
  by (induction subs) (auto simp: Let_def)

lemma endpoint_equal_class:
  "endpoint_equal a b \<Longrightarrow> endpoint_equal a c \<longleftrightarrow> endpoint_equal b c"
  by (meson endpoint_equal_sym endpoint_equal_trans)

lemma topics_subscribe_existing:
  "subscribe_existing who p 0 subs = Some subs' \<Longrightarrow>
   topics whom subs' =
     (if endpoint_equal who whom \<and> p \<notin> set (topics who subs) \<and> length (topics who subs) < max_patterns
      then topics who subs @ [p] else topics whom subs)"
proof (induction subs arbitrary: subs')
  case (Cons sub subs)
  show ?case
  proof (cases "endpoint_equal (sub_endpoint sub) who")
    case True
    from endpoint_equal_class [OF this, of whom] True Cons.prems show ?thesis
      by (auto simp: Let_def split: if_splits)
  next
    case False
    then have "\<not> endpoint_equal (sub_endpoint sub) whom" if "endpoint_equal who whom"
      using that endpoint_equal_class endpoint_equal_sym by blast
    with False Cons show ?thesis by auto
  qed
qed simp

text \<open>Subscribing without a redirect adds the pattern to the client's topics and to no other's.\<close>

lemma topics_subscribe_add:
  assumes "pattern_ok p" "inet_endpoint who"
    and room: "length (subscribers reg) < max_subscribers" "length (topics who (subscribers reg)) < max_patterns"
  shows "topics whom (subscribers (osc_subscribe_add who p 0 reg)) =
     (if endpoint_equal who whom \<and> p \<notin> set (topics who (subscribers reg))
      then topics who (subscribers reg) @ [p] else topics whom (subscribers reg))"
proof (cases "subscribe_existing who p 0 (subscribers reg)")
  case None
  then have n: "\<forall>s \<in> set (subscribers reg). \<not> endpoint_equal (sub_endpoint s) who"
    by (simp add: subscribe_existing_None)
  then have m: "\<forall>s \<in> set (subscribers reg). \<not> endpoint_equal (sub_endpoint s) whom" if "endpoint_equal who whom"
    using that endpoint_equal_sym endpoint_equal_trans by blast
  from n m None assms topics_none [OF n] show ?thesis
    by (auto simp: osc_subscribe_add_def pattern_ok_def Let_def topics_append topics_none)
next
  case (Some subs)
  with assms topics_subscribe_existing [OF Some, of whom] show ?thesis
    by (simp add: osc_subscribe_add_def pattern_ok_def)
qed

lemma unsubscribe_first_keep:
  "unsubscribe_first who pattern subs = (subs', gone) \<Longrightarrow> unique_endpoints subs \<Longrightarrow>
   unique_endpoints subs' \<and>
   (\<forall>s' \<in> set subs'. \<exists>s \<in> set subs. sub_endpoint s = sub_endpoint s')"
proof (induction subs arbitrary: subs' gone)
  case (Cons sub subs)
  show ?case
  proof (cases "endpoint_equal (sub_endpoint sub) who")
    case True
    with Cons.prems show ?thesis by (auto simp: Let_def split: if_splits)
  next
    case False
    obtain rest g where r: "unsubscribe_first who pattern subs = (rest, g)" by fastforce
    have eq: "subs' = sub # rest" using Cons.prems(1) False r by simp
    have *: "unique_endpoints rest" "\<forall>s' \<in> set rest. \<exists>s \<in> set subs. sub_endpoint s = sub_endpoint s'"
      using Cons.IH [OF r] Cons.prems(2) by auto
    then have "\<forall>s' \<in> set rest. \<not> endpoint_equal (sub_endpoint s') (sub_endpoint sub)"
      using Cons.prems(2) by (metis unique_endpoints.simps(2))
    with * show ?thesis unfolding eq by auto
  qed
qed simp

lemma topics_unsubscribe:
  "unsubscribe_first who pattern subs = (subs', gone) \<Longrightarrow> unique_endpoints subs \<Longrightarrow>
   topics whom subs' =
     (if endpoint_equal who whom
      then (case pattern of None \<Rightarrow> [] | Some p \<Rightarrow> remove1 p (topics who subs))
      else topics whom subs)"
proof (induction subs arbitrary: subs' gone)
  case (Cons sub subs)
  show ?case
  proof (cases "endpoint_equal (sub_endpoint sub) who")
    case True
    have cl: "endpoint_equal (sub_endpoint sub) whom \<longleftrightarrow> endpoint_equal who whom"
      by (rule endpoint_equal_class [OF True])
    have none: "topics whom subs = []" if "endpoint_equal who whom"
      using Cons.prems(2) that cl
      by (intro topics_none ballI) (auto, meson endpoint_equal_sym endpoint_equal_trans)
    show ?thesis
      using True Cons.prems(1) cl none by (auto simp: Let_def split: if_splits option.splits)
  next
    case False
    obtain rest g where r: "unsubscribe_first who pattern subs = (rest, g)" by fastforce
    have "\<not> endpoint_equal (sub_endpoint sub) whom" if "endpoint_equal who whom"
      using that False endpoint_equal_class endpoint_equal_sym by blast
    with Cons.IH [OF r] Cons.prems False r show ?thesis by (auto split: option.splits)
  qed
qed (auto split: option.splits)

lemma publish_targets_eq:
  "publish_targets addr subs =
     map sub_endpoint (filter (\<lambda>s. \<exists>p \<in> set (sub_patterns s). osc_glob_match (c_str p) addr) subs)"
  by (induction subs) auto

lemma publish_peers_eq:
  "publish_peers addr ls = map lis_peer (filter (\<lambda>l. lis_path l = addr) ls)"
  by (induction ls) auto

lemma unique_topics: "unique_endpoints subs \<Longrightarrow> s \<in> set subs \<Longrightarrow> endpoint_equal (sub_endpoint s) who \<Longrightarrow>
    topics who subs = sub_patterns s"
proof (induction subs)
  case (Cons sub subs)
  show ?case
  proof (cases "s = sub")
    case False
    then have "s \<in> set subs" "\<not> endpoint_equal (sub_endpoint s) (sub_endpoint sub)"
      using Cons.prems(1,2) by auto
    then have "\<not> endpoint_equal (sub_endpoint sub) who"
      using Cons.prems(3) endpoint_equal_sym endpoint_equal_trans by blast
    then show ?thesis
      using Cons.IH Cons.prems \<open>s \<in> set subs\<close> by simp
  qed (use Cons.prems in simp)
qed simp

lemma unique_endpoints_snoc:
  "unique_endpoints (subs @ [sub]) \<longleftrightarrow>
     unique_endpoints subs \<and> (\<forall>s \<in> set subs. \<not> endpoint_equal (sub_endpoint s) (sub_endpoint sub))"
  using endpoint_equal_sym by (induction subs) auto

lemma unique_subscribe_existing:
  "subscribe_existing who p 0 subs = Some subs' \<Longrightarrow>
   unique_endpoints subs' = unique_endpoints subs \<and> map sub_endpoint subs' = map sub_endpoint subs"
proof (induction subs arbitrary: subs')
  case (Cons sub subs)
  show ?case
  proof (cases "endpoint_equal (sub_endpoint sub) who")
    case True
    with Cons.prems show ?thesis by (auto simp: Let_def split: if_splits)
  next
    case False
    then obtain rest where r: "subscribe_existing who p 0 subs = Some rest" "subs' = sub # rest"
      using Cons.prems by auto
    have "sub_endpoint ` set rest = sub_endpoint ` set subs" using Cons.IH [OF r(1)] by (metis set_map)
    then have "(\<forall>s \<in> set rest. \<not> endpoint_equal (sub_endpoint s) e) \<longleftrightarrow>
        (\<forall>s \<in> set subs. \<not> endpoint_equal (sub_endpoint s) e)" for e
      by (metis (no_types, lifting) imageE imageI)
    then show ?thesis using Cons.IH [OF r(1)] r(2) by simp
  qed
qed simp

lemma unique_subscribe_add:
  assumes "unique_endpoints (subscribers reg)"
  shows "unique_endpoints (subscribers (osc_subscribe_add who p 0 reg))"
proof (cases "subscribe_existing who p 0 (subscribers reg)")
  case None
  then have "\<forall>s \<in> set (subscribers reg). \<not> endpoint_equal (sub_endpoint s) who"
    by (simp add: subscribe_existing_None)
  with None assms show ?thesis by (simp add: osc_subscribe_add_def Let_def unique_endpoints_snoc)
next
  case (Some subs)
  with assms unique_subscribe_existing [OF Some] show ?thesis by (simp add: osc_subscribe_add_def)
qed

lemma find_SomeD: "find P xs = Some x \<Longrightarrow> x \<in> set xs \<and> P x"
  by (auto simp: find_Some_iff)

lemma publish_targets_topics:
  assumes "unique_endpoints subs"
  shows "(\<exists>e \<in> set (publish_targets addr subs). endpoint_equal e who) \<longleftrightarrow>
         (\<exists>p \<in> set (topics who subs). osc_glob_match (c_str p) addr)"
proof
  assume "\<exists>e \<in> set (publish_targets addr subs). endpoint_equal e who"
  then show "\<exists>p \<in> set (topics who subs). osc_glob_match (c_str p) addr"
    using unique_topics [OF assms] by (fastforce simp: publish_targets_eq)
next
  assume "\<exists>p \<in> set (topics who subs). osc_glob_match (c_str p) addr"
  then obtain p s where "p \<in> set (sub_patterns s)" "osc_glob_match (c_str p) addr"
    "find (\<lambda>sub. endpoint_equal (sub_endpoint sub) who) subs = Some s"
    by (auto simp: topics_def split: option.splits)
  then show "\<exists>e \<in> set (publish_targets addr subs). endpoint_equal e who"
    using find_SomeD [of "\<lambda>sub. endpoint_equal (sub_endpoint sub) who" subs s]
    by (auto simp: publish_targets_eq)
qed

subsection \<open>The interface of the LISTEN registry\<close>

locale listen_registry =
  fixes add :: "nat \<Rightarrow> string \<Rightarrow> 'r \<Rightarrow> 'r"
    and remove :: "nat \<Rightarrow> string \<Rightarrow> 'r \<Rightarrow> 'r"
    and remove_peer :: "nat \<Rightarrow> 'r \<Rightarrow> 'r"
    and listens :: "'r \<Rightarrow> nat \<Rightarrow> string \<Rightarrow> bool"
    and invar :: "'r \<Rightarrow> bool"
  assumes invar_add: "invar r \<Longrightarrow> invar (add p x r)"
    and invar_remove: "invar r \<Longrightarrow> invar (remove p x r)"
    and invar_remove_peer: "invar r \<Longrightarrow> invar (remove_peer p r)"
    and listens_add: "listens (add p x r) q y \<Longrightarrow> listens r q y \<or> q = p \<and> y = x"
    and listens_add_keep: "listens r q y \<Longrightarrow> listens (add p x r) q y"
    and listens_remove: "invar r \<Longrightarrow> listens (remove p x r) q y \<longleftrightarrow> listens r q y \<and> \<not> (q = p \<and> y = x)"
    and listens_remove_peer: "listens (remove_peer p r) q y \<longleftrightarrow> listens r q y \<and> q \<noteq> p"
begin

text \<open>What one peer does between connecting and disconnecting leaves no trace, and no other peer notices.\<close>

lemma session_others:
  "invar r \<Longrightarrow> q \<noteq> p \<Longrightarrow>
   listens (foldl (\<lambda>r (is_add, x). if is_add then add p x r else remove p x r) r cmds) q y \<longleftrightarrow>
   listens r q y"
proof (induction cmds arbitrary: r)
  case (Cons c cmds)
  obtain b x where c: "c = (b, x)" by fastforce
  have "listens (if b then add p x r else remove p x r) q y \<longleftrightarrow> listens r q y"
    using Cons.prems listens_add [of p x r q y] listens_add_keep [of r q y p x]
      listens_remove [of r p x q y] by (cases b) auto
  with Cons c show ?case by (simp add: invar_add invar_remove)
qed simp

lemma session_closed:
  assumes "invar r"
  shows "listens (remove_peer p (foldl (\<lambda>r (is_add, x). if is_add then add p x r else remove p x r) r cmds)) q y
     \<longleftrightarrow> listens r q y \<and> q \<noteq> p"
  using session_others [OF assms, of q p cmds y] by (auto simp: listens_remove_peer)

end

definition listens_to :: "registry \<Rightarrow> nat \<Rightarrow> string \<Rightarrow> bool" where
  "listens_to reg peer path \<longleftrightarrow> \<lparr>lis_peer = peer, lis_path = path\<rparr> \<in> set (listeners reg)"

lemma listener_eq: "lis_peer l = p \<and> lis_path l = x \<longleftrightarrow> l = \<lparr>lis_peer = p, lis_path = x\<rparr>"
  by (cases l) auto

interpretation lr: listen_registry osc_listen_add osc_listen_remove osc_listen_remove_peer
  listens_to registry_inv
proof (unfold_locales, goal_cases)
  case (1 r p x)
  then show ?case by (rule registry_inv_listen_add)
next
  case (2 r p x)
  then show ?case by (rule registry_inv_listen_remove)
next
  case (3 r p)
  then show ?case by (rule registry_inv_listen_remove_peer)
next
  case (4 p x r q y)
  then show ?case by (auto simp: listens_to_def osc_listen_add_def split: if_splits)
next
  case (5 r q y p x)
  then show ?case by (auto simp: listens_to_def osc_listen_add_def)
next
  case (6 r p x q y)
  then show ?case
    by (auto simp: listens_to_def osc_listen_remove_def erase_listener_remove1 registry_inv_def)
next
  case (7 p r q y)
  show ?case by (auto simp: listens_to_def osc_listen_remove_peer_def set_erase_peer)
qed

lemma publish_peers_listens: "p \<in> set (publish_peers addr (listeners reg)) \<longleftrightarrow> listens_to reg p addr"
proof
  assume "p \<in> set (publish_peers addr (listeners reg))"
  then obtain l where "l \<in> set (listeners reg)" "lis_peer l = p" "lis_path l = addr"
    by (auto simp: publish_peers_eq)
  then show "listens_to reg p addr"
    unfolding listens_to_def by (metis listener_eq)
next
  assume "listens_to reg p addr"
  then show "p \<in> set (publish_peers addr (listeners reg))"
    by (auto simp: listens_to_def publish_peers_eq intro!: rev_image_eqI)
qed

subsection \<open>Redirected subscriptions\<close>

lemma endpoint_set_port_differs:
  assumes "inet_endpoint who" "endpoint_equal (endpoint_set_port who port) who"
  shows "endpoint_set_port who port = who"
  using assms by (cases "ep_addr who") (auto simp: endpoint_equal_def endpoint_set_port_def inet_endpoint_def)

text \<open>
  A subscription redirected to another port is stored under the redirected endpoint, so the
  client that made it is no longer recognised: neither form of unsubscribe finds it.
\<close>

lemma redirected_subscription_stays:
  assumes "inet_endpoint who" "endpoint_set_port who port \<noteq> who" "0 < port" "pattern_ok p"
  shows "osc_subscribe_remove who q (osc_subscribe_add who p port new_registry) =
           osc_subscribe_add who p port new_registry"
    and "osc_has_subscribers (osc_subscribe_add who p port new_registry)"
proof -
  have "\<not> endpoint_equal (endpoint_set_port who port) who"
    using endpoint_set_port_differs assms(1,2) by blast
  then show "osc_subscribe_remove who q (osc_subscribe_add who p port new_registry) =
      osc_subscribe_add who p port new_registry"
    using assms by (simp add: osc_subscribe_add_def osc_subscribe_remove_def new_registry_def
        pattern_ok_def Let_def registry_bounds)
  show "osc_has_subscribers (osc_subscribe_add who p port new_registry)"
    using assms by (simp add: osc_subscribe_add_def osc_has_subscribers_def new_registry_def
        pattern_ok_def Let_def registry_bounds)
qed

end
