(* ===== verification/OscWs.thy ===== *)
theory OscWs
  imports OscServer OscSubscribe
begin

text \<open>
  The websocket server (\<^verbatim>\<open>osc-ws.h\<close>, \<^verbatim>\<open>osc-ws.cpp\<close>): framing, the serving loop of one
  connection with its LISTEN and IGNORE commands, the send side shared with the publishers,
  and shutdown.  \<^verbatim>\<open>QCryptographicHash\<close> and the JSON reader of libobs are parameters.  The serving
  loop is a \<open>partial_function\<close>: it returns when the peer's bytes end.  The step relation
  \<open>ws_step\<close> interleaves the serving threads, the publishers and \<^verbatim>\<open>shutdown_all\<close>.
\<close>

unbundle bit_operations_syntax

subsection \<open>State\<close>

definition max_message :: nat where "max_message = 8192"

definition handshake_guid :: string where
  "handshake_guid = ''258EAFA5-E914-47DA-95CA-C5AB0DC85B11''"

definition op_continuation :: byte where "op_continuation = 0"
definition op_text :: byte where "op_text = 1"
definition op_binary :: byte where "op_binary = 2"
definition op_close :: byte where "op_close = 8"
definition op_ping :: byte where "op_ping = 9"
definition op_pong :: byte where "op_pong = 10"

lemmas op_defs = op_continuation_def op_text_def op_binary_def op_close_def op_ping_def op_pong_def

record conn =
  cn_fd :: int
  cn_open :: bool

text \<open>
  \<open>ws_heap\<close> holds the connection objects by address, \<open>ws_conns\<close> the keys of \<^verbatim>\<open>conns()\<close> in the
  map's order, \<open>ws_reg\<close> the registry of \<^verbatim>\<open>osc-subscribe.cpp\<close>, \<open>ws_world\<close> the system.
\<close>

record 'w ws_state =
  ws_heap :: "nat \<Rightarrow> conn"
  ws_conns :: "nat list"
  ws_reg :: registry
  ws_world :: 'w

definition set_conn :: "nat \<Rightarrow> conn \<Rightarrow> 'w ws_state \<Rightarrow> 'w ws_state" where
  "set_conn c v s = s\<lparr>ws_heap := (ws_heap s)(c := v)\<rparr>"

subsection \<open>Socket helpers\<close>

function send_all :: "'w os_api \<Rightarrow> int \<Rightarrow> bytes \<Rightarrow> 'w \<Rightarrow> bool \<times> 'w" where
  "send_all os fd data w =
     (if data = [] then (True, w)
      else case os_send os fd data w of (n, w1) \<Rightarrow>
        if n \<le> 0 then (False, w1) else send_all os fd (drop (nat n) data) w1)"
  by pat_completeness auto
termination
  by (relation "measure (\<lambda>(os, fd, data, w). length data)") auto

declare send_all.simps [simp del]

text \<open>The bytes read, \<open>None\<close> for \<^verbatim>\<open>false\<close>.\<close>

function recv_exact :: "'w os_api \<Rightarrow> int \<Rightarrow> nat \<Rightarrow> 'w \<Rightarrow> bytes option \<times> 'w" where
  "recv_exact os fd n w =
     (if n = 0 then (Some [], w)
      else case os_recv os fd n w of (bs, w1) \<Rightarrow>
        if bs = [] then (None, w1)
        else case recv_exact os fd (n - length bs) w1 of
          (None, w2) \<Rightarrow> (None, w2)
        | (Some rest, w2) \<Rightarrow> (Some (bs @ rest), w2))"
  by pat_completeness auto
termination
  by (relation "measure (\<lambda>(os, fd, n, w). n)") auto

declare recv_exact.simps [simp del]

definition close_conn :: "'w os_api \<Rightarrow> nat \<Rightarrow> 'w ws_state \<Rightarrow> 'w ws_state" where
  "close_conn os c s =
     (let v = ws_heap s c
      in if \<not> cn_open v then set_conn c (v\<lparr>cn_open := False\<rparr>) s
         else set_conn c \<lparr>cn_fd = invalid_socket, cn_open = False\<rparr>
                (s\<lparr>ws_world := close_wake os (cn_fd v) (ws_world s)\<rparr>))"

subsection \<open>The frame layer\<close>

definition build_frame :: "byte \<Rightarrow> bytes \<Rightarrow> bytes" where
  "build_frame opcode payload =
     (let size = length payload
      in [0x80 OR opcode] @
         (if size < 126 then [word_of_nat size]
          else if size \<le> 0xFFFF then
            [126, word_of_nat (size div 2 ^ 8), word_of_nat size]
          else 127 # map (\<lambda>shift. ucast (drop_bit shift (word_of_nat size :: 64 word)))
                       [56, 48, 40, 32, 24, 16, 8, 0]) @
         payload)"

definition send_frame :: "'w os_api \<Rightarrow> nat \<Rightarrow> byte \<Rightarrow> bytes \<Rightarrow> 'w ws_state \<Rightarrow> bool \<times> 'w ws_state" where
  "send_frame os c opcode payload s =
     (let v = ws_heap s c
      in if \<not> cn_open v then (False, s)
         else case send_all os (cn_fd v) (build_frame opcode payload) (ws_world s) of (ok, w1) \<Rightarrow>
           if \<not> ok then (False, set_conn c (v\<lparr>cn_open := False\<rparr>) (s\<lparr>ws_world := w1\<rparr>))
           else (True, s\<lparr>ws_world := w1\<rparr>))"

record frame_header =
  fh_opcode :: byte
  fh_fin :: bool
  fh_masked :: bool
  fh_length :: "64 word"

text \<open>The length in the header, \<open>None\<close> when the socket ends inside it.\<close>

definition read_length :: "'w os_api \<Rightarrow> int \<Rightarrow> 64 word \<Rightarrow> 'w \<Rightarrow> (64 word) option \<times> 'w" where
  "read_length os fd len w =
     (if len = 126 then
        (case recv_exact os fd 2 w of
           (None, w1) \<Rightarrow> (None, w1)
         | (Some ext, w1) \<Rightarrow> (Some (push_bit 8 (ucast (ext ! 0)) OR ucast (ext ! 1)), w1))
      else if len = 127 then
        (case recv_exact os fd 8 w of
           (None, w1) \<Rightarrow> (None, w1)
         | (Some ext, w1) \<Rightarrow> (Some (foldl (\<lambda>l b. push_bit 8 l OR ucast b) 0 ext), w1))
      else (Some len, w))"

definition read_header :: "'w os_api \<Rightarrow> int \<Rightarrow> 'w \<Rightarrow> frame_header option \<times> 'w" where
  "read_header os fd w =
     (case recv_exact os fd 2 w of
        (None, w1) \<Rightarrow> (None, w1)
      | (Some head, w1) \<Rightarrow>
          (case read_length os fd (ucast (head ! 1 AND 0x7F)) w1 of
             (None, w2) \<Rightarrow> (None, w2)
           | (Some len, w2) \<Rightarrow>
               if unat len > max_message then (None, w2)
               else (Some \<lparr>fh_opcode = head ! 0 AND 0x0F, fh_fin = (head ! 0 AND 0x80 \<noteq> 0),
                           fh_masked = (head ! 1 AND 0x80 \<noteq> 0), fh_length = len\<rparr>, w2)))"

definition unmask :: "bytes \<Rightarrow> bytes \<Rightarrow> bytes" where
  "unmask key data = map (\<lambda>i. data ! i XOR key ! (i mod 4)) [0..<length data]"

definition read_masked_payload :: "'w os_api \<Rightarrow> int \<Rightarrow> frame_header \<Rightarrow> 'w \<Rightarrow> bytes option \<times> 'w" where
  "read_masked_payload os fd hdr w =
     (case (if fh_masked hdr then recv_exact os fd 4 w else (Some [0, 0, 0, 0], w)) of
        (None, w1) \<Rightarrow> (None, w1)
      | (Some key, w1) \<Rightarrow>
          (case recv_exact os fd (unat (fh_length hdr)) w1 of
             (None, w2) \<Rightarrow> (None, w2)
           | (Some out, w2) \<Rightarrow>
               (Some (if fh_masked hdr \<and> fh_length hdr \<noteq> 0 then unmask key out else out), w2)))"

subsection \<open>Commands\<close>

text \<open>
  \<^verbatim>\<open>obs_data_create_from_json\<close> and \<^verbatim>\<open>obs_data_get_string\<close>; and the hash of the handshake, on
  the bytes added to it, as base64.
\<close>

record 'd ws_env =
  js_parse :: "string \<Rightarrow> 'd option"
  js_string :: "'d \<Rightarrow> string \<Rightarrow> string"
  sha1_base64 :: "bytes \<Rightarrow> string"

definition compute_accept_key :: "'d ws_env \<Rightarrow> string \<Rightarrow> string" where
  "compute_accept_key env key = sha1_base64 env (to_bytes (key @ handshake_guid))"

definition handle_text :: "'d ws_env \<Rightarrow> nat \<Rightarrow> bytes \<Rightarrow> registry \<Rightarrow> registry" where
  "handle_text env c message reg =
     (case js_parse env (c_str (to_string message)) of
        None \<Rightarrow> reg
      | Some data \<Rightarrow>
          (let command = js_string env data ''COMMAND''; path = js_string env data ''DATA''
           in if path \<noteq> [] \<and> hd path = CHR ''/'' then
                (if command = ''LISTEN'' then osc_listen_add c path reg
                 else if command = ''IGNORE'' then osc_listen_remove c path reg
                 else reg)
              else reg))"

subsection \<open>Serving a connection\<close>

text \<open>The variables of the loop, and what one iteration does: go on with them, or \<^verbatim>\<open>goto done\<close>.\<close>

record ws_loop =
  wl_assembled :: bytes
  wl_assembling :: byte

datatype 'w ws_iter = Goto_done "'w ws_state" | Go_on ws_loop "'w ws_state"

definition text_frame ::
  "'d ws_env \<Rightarrow> nat \<Rightarrow> frame_header \<Rightarrow> bytes \<Rightarrow> ws_loop \<Rightarrow> 'w ws_state \<Rightarrow> 'w ws_iter" where
  "text_frame env c hdr payload l s =
     (let finish = (\<lambda>assembled assembling.
        if fh_fin hdr
        then Go_on \<lparr>wl_assembled = [], wl_assembling = 0\<rparr>
               (s\<lparr>ws_reg := handle_text env c assembled (ws_reg s)\<rparr>)
        else Go_on \<lparr>wl_assembled = assembled, wl_assembling = assembling\<rparr> s)
      in if fh_opcode hdr = op_text then finish payload op_text
         else if wl_assembling l = op_text then
           (if length (wl_assembled l) + length payload > max_message then Goto_done s
            else finish (wl_assembled l @ payload) (wl_assembling l))
         else Goto_done s)"

definition serve_iter ::
  "'w os_api \<Rightarrow> 'd ws_env \<Rightarrow> nat \<Rightarrow> int \<Rightarrow> ws_loop \<Rightarrow> 'w ws_state \<Rightarrow> 'w ws_iter" where
  "serve_iter os env c fd l s =
     (case read_header os fd (ws_world s) of
        (None, w1) \<Rightarrow> Goto_done (s\<lparr>ws_world := w1\<rparr>)
      | (Some hdr, w1) \<Rightarrow>
          (case read_masked_payload os fd hdr w1 of
             (None, w2) \<Rightarrow> Goto_done (s\<lparr>ws_world := w2\<rparr>)
           | (Some payload, w2) \<Rightarrow>
               (let s2 = s\<lparr>ws_world := w2\<rparr>; op = fh_opcode hdr
                in if op = op_close then Goto_done (snd (send_frame os c op_close payload s2))
                   else if op = op_ping then
                     (case send_frame os c op_pong payload s2 of (ok, s3) \<Rightarrow>
                        if \<not> ok then Goto_done s3 else Go_on l s3)
                   else if op = op_pong \<or> op = op_binary then Go_on l s2
                   else if op = op_text \<or> op = op_continuation then
                     text_frame env c hdr payload l s2
                   else Goto_done s2)))"

partial_function (option) serve_loop ::
  "'w os_api \<Rightarrow> 'd ws_env \<Rightarrow> nat \<Rightarrow> int \<Rightarrow> ws_loop \<Rightarrow> 'w ws_state \<Rightarrow> 'w ws_state option" where
  "serve_loop os env c fd l s =
     (case serve_iter os env c fd l s of
        Goto_done s1 \<Rightarrow> Some s1
      | Go_on l1 s1 \<Rightarrow> serve_loop os env c fd l1 s1)"

definition handshake_response :: "'d ws_env \<Rightarrow> string \<Rightarrow> string" where
  "handshake_response env key =
     ''HTTP/1.1 101 Switching Protocols'' @ crlf @ ''Upgrade: websocket'' @ crlf @
     ''Connection: Upgrade'' @ crlf @ ''Sec-WebSocket-Accept: '' @ compute_accept_key env key @
     crlf @ crlf"

definition serve_open :: "'w os_api \<Rightarrow> nat \<Rightarrow> int \<Rightarrow> 'w ws_state \<Rightarrow> 'w ws_state" where
  "serve_open os c fd s =
     (let s1 = set_conn c \<lparr>cn_fd = fd, cn_open = True\<rparr> s;
          s2 = s1\<lparr>ws_conns := insort c (filter (\<lambda>k. k \<noteq> c) (ws_conns s1))\<rparr>
      in s2\<lparr>ws_world := set_recv_timeout os fd 0 (ws_world s2)\<rparr>)"

definition serve_done :: "'w os_api \<Rightarrow> nat \<Rightarrow> 'w ws_state \<Rightarrow> 'w ws_state" where
  "serve_done os c s =
     (let s1 = s\<lparr>ws_reg := osc_listen_remove_peer c (ws_reg s)\<rparr>;
          s2 = s1\<lparr>ws_conns := filter (\<lambda>k. k \<noteq> c) (ws_conns s1)\<rparr>
      in close_conn os c s2)"

text \<open>\<open>c\<close> is the address \<^verbatim>\<open>make_shared\<close> returns for the connection.\<close>

definition serve ::
  "'w os_api \<Rightarrow> 'd ws_env \<Rightarrow> nat \<Rightarrow> int \<Rightarrow> string \<Rightarrow> 'w ws_state \<Rightarrow> 'w ws_state option" where
  "serve os env c fd key s =
     (case send_all os fd (to_bytes (handshake_response env key)) (ws_world s) of (ok, w1) \<Rightarrow>
        if \<not> ok then Some (s\<lparr>ws_world := close_socket os fd w1\<rparr>)
        else map_option (serve_done os c)
               (serve_loop os env c fd \<lparr>wl_assembled = [], wl_assembling = 0\<rparr>
                  (serve_open os c fd (s\<lparr>ws_world := w1\<rparr>))))"

subsection \<open>Publishing and shutdown\<close>

definition send_binary :: "'w os_api \<Rightarrow> nat \<Rightarrow> bytes \<Rightarrow> 'w ws_state \<Rightarrow> 'w ws_state" where
  "send_binary os token data s =
     (if token \<notin> set (ws_conns s) then s else snd (send_frame os token op_binary data s))"

definition shutdown_conn :: "'w os_api \<Rightarrow> nat \<Rightarrow> 'w ws_state \<Rightarrow> 'w ws_state" where
  "shutdown_conn os c s =
     close_conn os c (s\<lparr>ws_reg := osc_listen_remove_peer c (ws_reg s)\<rparr>)"

definition shutdown_all :: "'w os_api \<Rightarrow> 'w ws_state \<Rightarrow> 'w ws_state" where
  "shutdown_all os s = foldl (\<lambda>s c. shutdown_conn os c s) (s\<lparr>ws_conns := []\<rparr>) (ws_conns s)"

subsection \<open>Reading from a stream\<close>

lemma recv_exact_stream:
  "stream_socket os fd pending \<Longrightarrow>
   (n \<le> length (pending w) \<longrightarrow>
      (\<exists>w'. recv_exact os fd n w = (Some (take n (pending w)), w') \<and> pending w' = drop n (pending w))) \<and>
   (length (pending w) < n \<longrightarrow> (\<exists>w'. recv_exact os fd n w = (None, w') \<and> length (pending w') \<le> length (pending w)))"
proof (induction os fd n w rule: recv_exact.induct)
  case (1 os fd n w)
  obtain bs w1 where r: "os_recv os fd n w = (bs, w1)" by fastforce
  note c = stream_socketD [OF "1.prems" r]
  show ?case
  proof (cases "n = 0 \<or> bs = []")
    case True
    then consider "n = 0" | "n \<noteq> 0" "bs = []" by blast
    then show ?thesis
    proof cases
      case 1
      then show ?thesis by (simp add: recv_exact.simps [of os fd 0])
    next
      case 2
      with c(3) have "pending w = []" by simp
      with 2 c r show ?thesis by (simp add: recv_exact.simps [of os fd n])
    qed
  next
    case False
    then have n: "n \<noteq> 0" and bs: "bs \<noteq> []" by auto
    from "1.IH" [OF n r [symmetric] bs "1.prems"]
    have IH: "(n - length bs \<le> length (pending w1) \<longrightarrow>
      (\<exists>w'. recv_exact os fd (n - length bs) w1 = (Some (take (n - length bs) (pending w1)), w') \<and>
            pending w' = drop (n - length bs) (pending w1))) \<and>
      (length (pending w1) < n - length bs \<longrightarrow>
      (\<exists>w'. recv_exact os fd (n - length bs) w1 = (None, w') \<and> length (pending w') \<le> length (pending w1)))"
      by blast
    have u: "recv_exact os fd n w =
      (case recv_exact os fd (n - length bs) w1 of
          (None, w2) \<Rightarrow> (None, w2) | (Some rest, w2) \<Rightarrow> (Some (bs @ rest), w2))"
      using n bs r by (simp add: recv_exact.simps [of os fd n w])
    show ?thesis using IH c(1,2) unfolding u by auto
  qed
qed

lemma recv_exact_Some:
  assumes "stream_socket os fd pending" "n \<le> length (pending w)"
  obtains w' where "recv_exact os fd n w = (Some (take n (pending w)), w')"
    "pending w' = drop n (pending w)"
  using recv_exact_stream [OF assms(1), of n w] assms(2) by blast

lemma recv_exact_None:
  assumes "stream_socket os fd pending" "length (pending w) < n"
  obtains w' where "recv_exact os fd n w = (None, w')" "length (pending w') \<le> length (pending w)"
  using recv_exact_stream [OF assms(1), of n w] assms(2) by blast

lemma recv_exact_cases:
  assumes "stream_socket os fd pending"
  obtains (eof) w' where "recv_exact os fd n w = (None, w')" "length (pending w') \<le> length (pending w)"
      "length (pending w) < n"
    | (read) w' where "recv_exact os fd n w = (Some (take n (pending w)), w')"
      "pending w' = drop n (pending w)" "n \<le> length (pending w)"
  using recv_exact_stream [OF assms, of n w] by (cases "n \<le> length (pending w)") auto

lemma recv_exact_progress:
  assumes "stream_socket os fd pending" "recv_exact os fd n w = (r, w')"
  shows "length (pending w') \<le> length (pending w)"
    and "r = Some bs \<Longrightarrow> length bs = n \<and> length (pending w') + n = length (pending w)"
  by (rule recv_exact_cases [OF assms(1), of n w]; use assms(2) in auto)+

subsection \<open>Frames\<close>

lemma low7: "x AND 0x7F = take_bit 7 (x :: byte)"
  by (simp add: take_bit_eq_mask mask_eq_exp_minus_1)

lemma ucast_byte_of_nat: "n < 256 \<Longrightarrow> ucast (word_of_nat n :: byte) = (word_of_nat n :: 64 word)"
proof -
  assume "n < 256"
  then have "unat (ucast (word_of_nat n :: byte) :: 64 word) = unat (word_of_nat n :: 64 word)"
    by (simp add: unsigned_of_nat unsigned_ucast_eq take_bit_nat_eq_self)
  then show ?thesis by (simp add: word_unat_eq_iff)
qed

lemma length7:
  assumes "n < 128"
  shows "ucast ((word_of_nat n :: byte) AND 0x7F) = (word_of_nat n :: 64 word)"
    and "ucast (((0x80 :: byte) OR word_of_nat n) AND 0x7F) = (word_of_nat n :: 64 word)"
proof -
  have "unat (take_bit 7 (word_of_nat n :: byte)) = unat (word_of_nat n :: byte)"
    using assms by (simp add: unsigned_take_bit_eq unsigned_of_nat take_bit_nat_eq_self)
  then have "take_bit 7 (word_of_nat n :: byte) = word_of_nat n" by (simp only: word_unat_eq_iff)
  then show *: "ucast ((word_of_nat n :: byte) AND 0x7F) = (word_of_nat n :: 64 word)"
    using assms by (simp add: low7 ucast_byte_of_nat)
  then show "ucast (((0x80 :: byte) OR word_of_nat n) AND 0x7F) = (word_of_nat n :: 64 word)"
    by (simp add: bit.conj_disj_distrib2)
qed

lemma length16:
  assumes "n < 2 ^ 16"
  shows "push_bit 8 (ucast (word_of_nat (n div 2 ^ 8) :: byte)) OR ucast (word_of_nat n :: byte) =
         (word_of_nat n :: 64 word)" (is "?l = ?r")
proof (rule bit_word_eqI)
  fix k :: nat
  assume k: "k < LENGTH(64)"
  have hi: "\<not> bit n k" if "16 \<le> k"
  proof -
    have "n < 2 ^ k" using assms that by (metis less_le_trans one_le_numeral power_increasing)
    then show ?thesis by (simp add: bit_iff_odd)
  qed
  have d: "bit (n div 2 ^ 8) j \<longleftrightarrow> bit n (8 + j)" for j
    by (simp only: bit_iff_odd power_add div_mult2_eq)
  consider "k < 8" | "8 \<le> k" "k < 16" | "16 \<le> k" by linarith
  then show "bit ?l k = bit ?r k"
  proof cases
    case 1
    with k show ?thesis
      by (simp only: bit_or_iff bit_push_bit_iff bit_unsigned_iff bit_of_nat_iff) auto
  next
    case 2
    with k show ?thesis
      by (simp only: bit_or_iff bit_push_bit_iff bit_unsigned_iff bit_of_nat_iff d) auto
  next
    case 3
    with k hi show ?thesis
      by (simp only: bit_or_iff bit_push_bit_iff bit_unsigned_iff bit_of_nat_iff d) auto
  qed
qed

text \<open>What a client sends: the header with its mask bit \<open>m\<close>, the key, the masked payload.\<close>

definition frame_prefix :: "bool \<Rightarrow> byte \<Rightarrow> byte \<Rightarrow> nat \<Rightarrow> bytes" where
  "frame_prefix fin opcode m n =
     ((if fin then 0x80 else 0) OR opcode) #
     (if n < 126 then [m OR word_of_nat n]
      else [m OR 126, word_of_nat (n div 2 ^ 8), word_of_nat n])"

definition client_frame :: "bool \<Rightarrow> byte \<Rightarrow> bytes \<Rightarrow> bytes \<Rightarrow> bytes" where
  "client_frame fin opcode key payload =
     frame_prefix fin opcode 0x80 (length payload) @ key @ unmask key payload"

lemma low_nibble:
  assumes "(opcode :: byte) < 16"
  shows "opcode AND 0x0F = opcode" "opcode AND 0x80 = 0"
proof -
  have "unat (take_bit 4 opcode) = unat opcode"
    using assms by (simp add: unsigned_take_bit_eq take_bit_nat_eq_self word_less_nat_alt)
  then have "take_bit 4 opcode = opcode" by (simp only: word_unat_eq_iff)
  then show *: "opcode AND 0x0F = opcode"
    by (simp add: take_bit_eq_mask mask_eq_exp_minus_1)
  have "opcode AND 0x80 = (opcode AND 0x0F) AND 0x80" by (simp only: *)
  then show "opcode AND 0x80 = 0" by (simp add: and.assoc)
qed

lemma read_length_prefix:
  assumes "stream_socket os fd pending" "m = 0 \<or> m = 0x80" "n \<le> max_message"
    "pending w = drop 2 (frame_prefix fin opcode m n) @ rest"
  shows "\<exists>w'. read_length os fd (ucast ((frame_prefix fin opcode m n ! 1) AND 0x7F)) w =
     (Some (word_of_nat n), w') \<and> pending w' = rest"
proof (cases "n < 126")
  case True
  then have "frame_prefix fin opcode m n ! 1 = m OR word_of_nat n" "pending w = rest"
    using assms(4) by (simp_all add: frame_prefix_def)
  moreover have "(word_of_nat n :: 64 word) \<noteq> 126" "(word_of_nat n :: 64 word) \<noteq> 127"
    using True by (simp_all add: word_unat_eq_iff unsigned_of_nat take_bit_nat_eq_self)
  ultimately show ?thesis
    using True assms(2) length7 [of n] by (auto simp: read_length_def)
next
  case False
  then have p: "pending w = [word_of_nat (n div 2 ^ 8), word_of_nat n] @ rest"
    and b: "frame_prefix fin opcode m n ! 1 = m OR 126"
    using assms(4) by (simp_all add: frame_prefix_def numeral_2_eq_2)
  have "2 \<le> length (pending w)" by (simp add: p)
  from recv_exact_Some [OF assms(1) this] obtain w' where
    "recv_exact os fd 2 w = (Some [word_of_nat (n div 2 ^ 8), word_of_nat n], w')"
    "pending w' = rest" by (auto simp: p)
  moreover have "ucast ((m OR 126) AND 0x7F :: byte) = (126 :: 64 word)" using assms(2) by auto
  moreover have "n < 2 ^ 16" using assms(3) by (simp add: max_message_def)
  ultimately show ?thesis using length16 [of n] unfolding b by (simp add: read_length_def)
qed

lemma read_header_prefix:
  assumes "stream_socket os fd pending" "m = 0 \<or> m = 0x80" "opcode < 16" "n \<le> max_message"
    "pending w = frame_prefix fin opcode m n @ rest"
  shows "\<exists>w'. read_header os fd w =
     (Some \<lparr>fh_opcode = opcode, fh_fin = fin, fh_masked = (m = 0x80), fh_length = word_of_nat n\<rparr>, w')
     \<and> pending w' = rest"
proof -
  let ?f = "frame_prefix fin opcode m n"
  have l: "2 \<le> length ?f" by (simp add: frame_prefix_def)
  then have "2 \<le> length (pending w)" by (simp add: assms(5))
  from recv_exact_Some [OF assms(1) this] obtain w1 where
    r: "recv_exact os fd 2 w = (Some (take 2 ?f), w1)" "pending w1 = drop 2 ?f @ rest"
    using l by (auto simp: assms(5))
  from read_length_prefix [OF assms(1,2,4) r(2)] obtain w2 where
    r2: "read_length os fd (ucast ((?f ! 1) AND 0x7F)) w1 = (Some (word_of_nat n), w2)" "pending w2 = rest"
    by blast
  have nths: "take 2 ?f ! 0 = ?f ! 0" "take 2 ?f ! 1 = ?f ! 1" by simp_all
  have op: "(?f ! 0) AND 0x0F = opcode" "((?f ! 0) AND 0x80 \<noteq> 0) = fin"
    using low_nibble [OF assms(3)]
    by (simp_all add: frame_prefix_def bit.conj_disj_distrib2)
  have mb: "((?f ! 1) AND 0x80 \<noteq> 0) = (m = 0x80)"
  proof (cases "n < 126")
    case True
    have "unat (take_bit 7 (word_of_nat n :: byte)) = unat (word_of_nat n :: byte)"
      using True by (simp add: unsigned_take_bit_eq unsigned_of_nat take_bit_nat_eq_self)
    then have "(word_of_nat n :: byte) = word_of_nat n AND 0x7F"
      by (simp only: word_unat_eq_iff low7)
    then have "(word_of_nat n :: byte) AND 0x80 = (word_of_nat n AND 0x7F) AND 0x80" by simp
    then have "(word_of_nat n :: byte) AND 0x80 = 0" by (simp add: and.assoc)
    then show ?thesis using True assms(2) by (auto simp: frame_prefix_def bit.conj_disj_distrib2)
  next
    case False
    then show ?thesis using assms(2) by (auto simp: frame_prefix_def)
  qed
  have "unat (word_of_nat n :: 64 word) = n"
    using assms(4) by (simp add: unsigned_of_nat take_bit_nat_eq_self max_message_def)
  with r r2 op mb assms(4) show ?thesis by (simp only: read_header_def nths prod.case option.case) simp
qed

lemma length_unmask [simp]: "length (unmask key data) = length data"
  by (simp add: unmask_def)

lemma unmask_Nil [simp]: "unmask key [] = []"
  by (simp add: unmask_def)

lemma unmask_unmask: "unmask key (unmask key data) = data"
proof (rule nth_equalityI)
  fix i
  assume "i < length (unmask key (unmask key data))"
  then show "unmask key (unmask key data) ! i = data ! i"
    by (simp add: unmask_def xor.assoc)
qed simp

lemma read_client_frame:
  assumes "stream_socket os fd pending" "opcode < 16" "length key = 4" "length payload \<le> max_message"
    "pending w = client_frame fin opcode key payload @ rest"
  shows "\<exists>hdr w1 w2. read_header os fd w = (Some hdr, w1) \<and> fh_opcode hdr = opcode \<and> fh_fin hdr = fin \<and>
     read_masked_payload os fd hdr w1 = (Some payload, w2) \<and> pending w2 = rest"
proof -
  let ?n = "length payload"
  let ?h = "\<lparr>fh_opcode = opcode, fh_fin = fin, fh_masked = True, fh_length = word_of_nat ?n\<rparr>"
  have p: "pending w = frame_prefix fin opcode 0x80 ?n @ key @ unmask key payload @ rest"
    by (simp add: assms(5) client_frame_def)
  from read_header_prefix [OF assms(1) _ assms(2,4) p] obtain w1 where
    r1: "read_header os fd w = (Some ?h, w1)" "pending w1 = key @ unmask key payload @ rest"
    by auto
  from recv_exact_Some [OF assms(1), of 4 w1] obtain w2 where
    r2: "recv_exact os fd 4 w1 = (Some key, w2)" "pending w2 = unmask key payload @ rest"
    by (auto simp: r1(2) assms(3))
  from recv_exact_Some [OF assms(1), of ?n w2] obtain w3 where
    r3: "recv_exact os fd ?n w2 = (Some (unmask key payload), w3)" "pending w3 = rest"
    by (auto simp: r2(2))
  have n: "unat (word_of_nat ?n :: 64 word) = ?n"
    using assms(4) by (simp add: unsigned_of_nat take_bit_nat_eq_self max_message_def)
  then have "(word_of_nat ?n :: 64 word) = 0 \<longleftrightarrow> payload = []"
    by (simp only: word_unat_eq_iff n) simp
  then have "read_masked_payload os fd ?h w1 = (Some payload, w3)"
    by (auto simp: read_masked_payload_def r2 r3 n unmask_unmask)
  with r1 r3 show ?thesis by auto
qed

text \<open>A frame the server builds, read by the same rules.\<close>

lemma build_frame_prefix:
  "length payload \<le> max_message \<Longrightarrow>
   build_frame opcode payload = frame_prefix True opcode 0 (length payload) @ payload"
  by (simp add: build_frame_def frame_prefix_def Let_def max_message_def)

lemma read_server_frame:
  assumes "stream_socket os fd pending" "opcode < 16" "length payload \<le> max_message"
    "pending w = build_frame opcode payload @ rest"
  shows "\<exists>hdr w1 w2. read_header os fd w = (Some hdr, w1) \<and> fh_opcode hdr = opcode \<and> fh_fin hdr \<and>
     \<not> fh_masked hdr \<and> read_masked_payload os fd hdr w1 = (Some payload, w2) \<and> pending w2 = rest"
proof -
  let ?n = "length payload"
  let ?h = "\<lparr>fh_opcode = opcode, fh_fin = True, fh_masked = False, fh_length = word_of_nat ?n\<rparr>"
  have p: "pending w = frame_prefix True opcode 0 ?n @ payload @ rest"
    using build_frame_prefix [OF assms(3)] by (simp add: assms(4))
  from read_header_prefix [OF assms(1) _ assms(2,3) p] obtain w1 where
    r1: "read_header os fd w = (Some ?h, w1)" "pending w1 = payload @ rest" by auto
  from recv_exact_Some [OF assms(1), of ?n w1] obtain w3 where
    r3: "recv_exact os fd ?n w1 = (Some payload, w3)" "pending w3 = rest"
    by (auto simp: r1(2))
  have "unat (word_of_nat ?n :: 64 word) = ?n"
    using assms(3) by (simp add: unsigned_of_nat take_bit_nat_eq_self max_message_def)
  then have "read_masked_payload os fd ?h w1 = (Some payload, w3)"
    by (simp add: read_masked_payload_def r3)
  with r1 r3 show ?thesis by auto
qed

subsection \<open>The serving loop ends with the peer's bytes\<close>

lemma duplex_stream: "duplex_socket os fd pending \<Longrightarrow> stream_socket os fd pending"
  by (simp add: duplex_socket_def)

lemma duplex_send: "duplex_socket os fd pending \<Longrightarrow> os_send os fd' d w = (n, w') \<Longrightarrow> pending w' = pending w"
  by (metis duplex_socket_def snd_conv)

lemma send_all_pending:
  "duplex_socket os fd pending \<Longrightarrow> send_all os fd' data w = (ok, w') \<Longrightarrow> pending w' = pending w"
proof (induction os fd' data w rule: send_all.induct)
  case (1 os fd' data w)
  obtain n w1 where s: "os_send os fd' data w = (n, w1)" by fastforce
  show ?case
  proof (cases "data = [] \<or> n \<le> 0")
    case True
    with "1.prems" s duplex_send [OF "1.prems"(1) s] show ?thesis
      by (auto simp: send_all.simps [of os fd' data w] split: if_splits)
  next
    case False
    then have d: "data \<noteq> []" and n: "\<not> n \<le> 0" by auto
    have "send_all os fd' (drop (nat n) data) w1 = (ok, w')"
      using "1.prems"(2) d n s by (simp add: send_all.simps [of os fd' data w])
    from "1.IH" [OF d s [symmetric] n "1.prems"(1) this]
    show ?thesis using duplex_send [OF "1.prems"(1) s] by simp
  qed
qed

lemma send_frame_pending:
  "duplex_socket os fd pending \<Longrightarrow> send_frame os c opcode p s = (ok, s') \<Longrightarrow>
   pending (ws_world s') = pending (ws_world s)"
  using send_all_pending [of os fd pending]
  by (auto simp: send_frame_def set_conn_def Let_def split: prod.splits if_splits)

lemma text_frame_world: "text_frame env c hdr p l s = Go_on l' s' \<Longrightarrow> ws_world s' = ws_world s"
  by (auto simp: text_frame_def Let_def split: if_splits)

lemma read_length_progress:
  "stream_socket os fd pending \<Longrightarrow> read_length os fd len w = (r, w') \<Longrightarrow>
   length (pending w') \<le> length (pending w)"
  by (auto simp: read_length_def split: if_splits prod.splits option.splits
      dest: recv_exact_progress(1))

lemma read_header_progress:
  assumes "stream_socket os fd pending" "read_header os fd w = (Some hdr, w')"
  shows "length (pending w') + 2 \<le> length (pending w) \<and> unat (fh_length hdr) \<le> max_message"
proof -
  from assms(2) obtain head w1 len where
    "recv_exact os fd 2 w = (Some head, w1)"
    "read_length os fd (ucast (head ! 1 AND 0x7F)) w1 = (Some len, w')"
    "fh_length hdr = len" "\<not> unat len > max_message"
    by (auto simp: read_header_def split: prod.splits option.splits if_splits)
  with recv_exact_progress(2) [OF assms(1)] read_length_progress [OF assms(1)] show ?thesis
    by fastforce
qed

lemma read_payload_progress:
  assumes "stream_socket os fd pending" "read_masked_payload os fd hdr w = (Some payload, w')"
  shows "length (pending w') \<le> length (pending w) \<and> length payload = unat (fh_length hdr)"
proof -
  from assms(2) obtain key w1 out where
    k: "(if fh_masked hdr then recv_exact os fd 4 w else (Some [0, 0, 0, 0], w)) = (Some key, w1)"
    and o: "recv_exact os fd (unat (fh_length hdr)) w1 = (Some out, w')" "length payload = length out"
    by (auto simp: read_masked_payload_def split: prod.splits option.splits if_splits)
  have "length (pending w1) \<le> length (pending w)"
    using k recv_exact_progress(1) [OF assms(1)] by (auto split: if_splits)
  with o recv_exact_progress [OF assms(1) o(1)] show ?thesis by auto
qed

lemma serve_iter_Go_on:
  assumes "serve_iter os env c fd l s = Go_on l' s'"
  obtains hdr w1 payload w2 where "read_header os fd (ws_world s) = (Some hdr, w1)"
    "read_masked_payload os fd hdr w1 = (Some payload, w2)"
    "l' = l \<and> s' = s\<lparr>ws_world := w2\<rparr> \<or> l' = l \<and> send_frame os c op_pong payload (s\<lparr>ws_world := w2\<rparr>) = (True, s') \<or>
     text_frame env c hdr payload l (s\<lparr>ws_world := w2\<rparr>) = Go_on l' s'"
  using assms
  by (auto simp: serve_iter_def Let_def split: prod.splits option.splits if_splits)

lemma serve_iter_progress:
  assumes d: "duplex_socket os fd pending" and i: "serve_iter os env c fd l s = Go_on l' s'"
  shows "length (pending (ws_world s')) + 2 \<le> length (pending (ws_world s))"
proof -
  from i obtain hdr w1 payload w2 where
    h: "read_header os fd (ws_world s) = (Some hdr, w1)"
    and p: "read_masked_payload os fd hdr w1 = (Some payload, w2)"
    and c: "l' = l \<and> s' = s\<lparr>ws_world := w2\<rparr> \<or>
      l' = l \<and> send_frame os c op_pong payload (s\<lparr>ws_world := w2\<rparr>) = (True, s') \<or>
      text_frame env c hdr payload l (s\<lparr>ws_world := w2\<rparr>) = Go_on l' s'"
    by (rule serve_iter_Go_on)
  from c have "pending (ws_world s') = pending w2"
    using send_frame_pending [OF d] text_frame_world by fastforce
  then show ?thesis
    using read_header_progress [OF duplex_stream [OF d] h]
      read_payload_progress [OF duplex_stream [OF d] p] by simp
qed

lemma serve_loop_returns:
  assumes "duplex_socket os fd pending"
  shows "\<exists>s'. serve_loop os env c fd l s = Some s'"
proof (induction "length (pending (ws_world s))" arbitrary: l s rule: less_induct)
  case less
  show ?case
  proof (cases "serve_iter os env c fd l s")
    case (Go_on l1 s1)
    with serve_iter_progress [OF assms Go_on] less [of s1 l1] show ?thesis
      by (simp add: serve_loop.simps [of os env c fd l s])
  qed (simp add: serve_loop.simps [of os env c fd l s])
qed

text \<open>The loop never holds more than one maximal message.\<close>

lemma serve_iter_bound:
  assumes "stream_socket os fd pending" "serve_iter os env c fd l s = Go_on l' s'"
    "length (wl_assembled l) \<le> max_message"
  shows "length (wl_assembled l') \<le> max_message"
proof -
  from assms(2) obtain hdr w1 payload w2 where
    h: "read_header os fd (ws_world s) = (Some hdr, w1)"
    and p: "read_masked_payload os fd hdr w1 = (Some payload, w2)"
    and c: "l' = l \<and> s' = s\<lparr>ws_world := w2\<rparr> \<or>
      l' = l \<and> send_frame os c op_pong payload (s\<lparr>ws_world := w2\<rparr>) = (True, s') \<or>
      text_frame env c hdr payload l (s\<lparr>ws_world := w2\<rparr>) = Go_on l' s'"
    by (rule serve_iter_Go_on)
  have "length payload \<le> max_message"
    using read_header_progress [OF assms(1) h] read_payload_progress [OF assms(1) p] by simp
  with c assms(3) show ?thesis
    by (auto simp: text_frame_def Let_def split: if_splits)
qed

subsection \<open>What a connection leaves in the registry\<close>

definition listen_cmds :: "nat \<Rightarrow> (bool \<times> string) list \<Rightarrow> registry \<Rightarrow> registry" where
  "listen_cmds c cmds reg =
     foldl (\<lambda>r (is_add, x). if is_add then osc_listen_add c x r else osc_listen_remove c x r) reg cmds"

lemma listen_cmds_append: "listen_cmds c (xs @ ys) reg = listen_cmds c ys (listen_cmds c xs reg)"
  by (simp add: listen_cmds_def)

lemma handle_text_cmds: "\<exists>cmds. handle_text env c m reg = listen_cmds c cmds reg"
proof -
  have "listen_cmds c [] reg = reg" "listen_cmds c [(True, x)] reg = osc_listen_add c x reg"
    "listen_cmds c [(False, x)] reg = osc_listen_remove c x reg" for x
    by (simp_all add: listen_cmds_def)
  then show ?thesis
    by (auto simp: handle_text_def Let_def split: option.splits) metis+
qed

lemma send_frame_reg:
  "send_frame os c op p s = (ok, s') \<Longrightarrow>
   ws_reg s' = ws_reg s \<and> ws_conns s' = ws_conns s \<and> (\<forall>k. cn_fd (ws_heap s' k) = cn_fd (ws_heap s k)) \<and>
   (\<forall>k. cn_open (ws_heap s' k) \<longrightarrow> cn_open (ws_heap s k))"
  by (auto simp: send_frame_def set_conn_def Let_def split: prod.splits if_splits)

text \<open>Whatever an iteration does, it changes the registry by commands of its own connection.\<close>

fun iter_state :: "'w ws_iter \<Rightarrow> 'w ws_state" where
  "iter_state (Goto_done s) = s"
| "iter_state (Go_on l s) = s"

lemma text_frame_keeps:
  "\<exists>cmds. ws_reg (iter_state (text_frame env c hdr p l s)) = listen_cmds c cmds (ws_reg s)"
  "ws_conns (iter_state (text_frame env c hdr p l s)) = ws_conns s"
  "ws_heap (iter_state (text_frame env c hdr p l s)) = ws_heap s"
proof -
  have "\<exists>cmds. ws_reg s = listen_cmds c cmds (ws_reg s)"
    by (rule exI [of _ "[]"]) (simp add: listen_cmds_def)
  then show "\<exists>cmds. ws_reg (iter_state (text_frame env c hdr p l s)) = listen_cmds c cmds (ws_reg s)"
    using handle_text_cmds [of env c p "ws_reg s"] handle_text_cmds [of env c "wl_assembled l @ p" "ws_reg s"]
    by (simp add: text_frame_def Let_def)
qed (simp_all add: text_frame_def Let_def)

definition own_cmds :: "nat \<Rightarrow> 'w ws_state \<Rightarrow> 'w ws_state \<Rightarrow> bool" where
  "own_cmds c s s' \<longleftrightarrow>
     (\<exists>cmds. ws_reg s' = listen_cmds c cmds (ws_reg s)) \<and> ws_conns s' = ws_conns s \<and>
     (\<forall>k. cn_fd (ws_heap s' k) = cn_fd (ws_heap s k)) \<and>
     (\<forall>k. cn_open (ws_heap s' k) \<longrightarrow> cn_open (ws_heap s k))"

lemma own_cmds_world [simp]: "own_cmds c (s\<lparr>ws_world := w\<rparr>) s' = own_cmds c s s'"
  by (simp add: own_cmds_def)

lemma own_cmds_set_world: "own_cmds c s (s\<lparr>ws_world := w\<rparr>)"
  unfolding own_cmds_def by (auto intro!: exI [of _ "[]"] simp: listen_cmds_def)

lemma own_cmds_trans: "own_cmds c s1 s2 \<Longrightarrow> own_cmds c s2 s3 \<Longrightarrow> own_cmds c s1 s3"
  unfolding own_cmds_def by (metis listen_cmds_append)

lemma own_cmds_send: "own_cmds c s (snd (send_frame os c op p s))"
  using send_frame_reg [of os c op p s "fst (send_frame os c op p s)" "snd (send_frame os c op p s)"]
  unfolding own_cmds_def by (auto intro!: exI [of _ "[]"] simp: listen_cmds_def)

lemma own_cmds_text: "own_cmds c s (iter_state (text_frame env c hdr p l s))"
  using text_frame_keeps [of env c hdr p l s] by (simp add: own_cmds_def)

lemma serve_iter_own: "own_cmds c s (iter_state (serve_iter os env c fd l s))"
proof -
  let ?goal = "own_cmds c s (iter_state (serve_iter os env c fd l s))"
  obtain h w1 where h: "read_header os fd (ws_world s) = (h, w1)" by fastforce
  show ?goal
  proof (cases h)
    case None
    with h show ?thesis by (simp add: serve_iter_def own_cmds_set_world)
  next
    case (Some hdr)
    obtain p w2 where p: "read_masked_payload os fd hdr w1 = (p, w2)" by fastforce
    show ?thesis
    proof (cases p)
      case None
      with Some h p show ?thesis by (simp add: serve_iter_def own_cmds_set_world)
    next
      case (Some payload)
      let ?s = "s\<lparr>ws_world := w2\<rparr>"
      have c: "serve_iter os env c fd l s = Goto_done (snd (send_frame os c op_close payload ?s)) \<or>
        iter_state (serve_iter os env c fd l s) = snd (send_frame os c op_pong payload ?s) \<or>
        iter_state (serve_iter os env c fd l s) = ?s \<or>
        serve_iter os env c fd l s = text_frame env c hdr payload l ?s"
        unfolding serve_iter_def h prod.case \<open>h = Some hdr\<close> option.case p Some Let_def
        by (cases "send_frame os c op_pong payload ?s") simp
      have "own_cmds c ?s (iter_state (serve_iter os env c fd l s))"
        using c own_cmds_send [of c ?s os op_close payload] own_cmds_send [of c ?s os op_pong payload]
          own_cmds_text [of c ?s env hdr payload l] own_cmds_set_world [of c ?s w2]
        by (elim disjE) simp_all
      then show ?thesis by simp
    qed
  qed
qed

lemma serve_loop_own:
  assumes "serve_loop os env c fd l s = Some s'"
  shows "own_cmds c s s'"
proof (rule serve_loop.raw_induct [where P = "\<lambda>os env c fd l s s'. own_cmds c s s'", OF _ assms])
  fix loop os env c fd l s s'
  assume IH: "\<And>os env c fd l s s'. loop os env c fd l s = Some s' \<Longrightarrow> own_cmds c s s'"
    and e: "(case serve_iter os env c fd l s of Goto_done s1 \<Rightarrow> Some s1
             | Go_on l1 s1 \<Rightarrow> loop os env c fd l1 s1) = Some s'"
  have i: "own_cmds c s (iter_state (serve_iter os env c fd l s))" by (rule serve_iter_own)
  show "own_cmds c s s'"
  proof (cases "serve_iter os env c fd l s")
    case (Goto_done s1)
    with e i show ?thesis by simp
  next
    case (Go_on l1 s1)
    with e have "loop os env c fd l1 s1 = Some s'" by simp
    from IH [OF this] i Go_on show ?thesis by (auto intro: own_cmds_trans)
  qed
qed

lemma serve_registrations:
  assumes "serve os env c fd key s = Some s'" "registry_inv (ws_reg s)" "\<And>y. \<not> listens_to (ws_reg s) c y"
  shows "listens_to (ws_reg s') q y \<longleftrightarrow> listens_to (ws_reg s) q y"
proof -
  obtain ok w1 where h: "send_all os fd (to_bytes (handshake_response env key)) (ws_world s) = (ok, w1)"
    by fastforce
  show ?thesis
  proof (cases ok)
    case False
    with h assms(1) show ?thesis by (auto simp: serve_def)
  next
    case True
    with h assms(1) obtain s1 where
      l: "serve_loop os env c fd \<lparr>wl_assembled = [], wl_assembling = 0\<rparr>
            (serve_open os c fd (s\<lparr>ws_world := w1\<rparr>)) = Some s1"
      and s': "s' = serve_done os c s1"
      by (auto simp: serve_def)
    have r0: "ws_reg (serve_open os c fd (s\<lparr>ws_world := w1\<rparr>)) = ws_reg s"
      by (simp add: serve_open_def set_conn_def Let_def)
    obtain cmds where "ws_reg s1 = listen_cmds c cmds (ws_reg s)"
      using serve_loop_own [OF l] r0 unfolding own_cmds_def by metis
    moreover have "ws_reg s' = osc_listen_remove_peer c (ws_reg s1)"
      by (simp add: s' serve_done_def close_conn_def set_conn_def Let_def)
    ultimately have "listens_to (ws_reg s') q y \<longleftrightarrow> listens_to (ws_reg s) q y \<and> q \<noteq> c"
      using lr.session_closed [OF assms(2), of c cmds q y] by (simp add: listen_cmds_def)
    with assms(3) show ?thesis by auto
  qed
qed

text \<open>
  A frame that cannot be sent clears \<^verbatim>\<open>open\<close>, and \<^verbatim>\<open>close_conn\<close> then returns before it closes the
  socket: nothing else closes it.
\<close>

lemma failed_send_leaves_socket:
  assumes "send_frame os c opcode p s = (False, s1)" "cn_open (ws_heap s c)"
  shows "ws_world (serve_done os c s1) = ws_world s1"
    and "cn_fd (ws_heap (serve_done os c s1) c) = cn_fd (ws_heap s c)"
  using assms by (auto simp: send_frame_def serve_done_def close_conn_def set_conn_def Let_def
      split: prod.splits if_splits)

subsection \<open>A command in fragments\<close>

fun client_fragments :: "byte \<Rightarrow> (bytes \<times> bytes) list \<Rightarrow> bytes" where
  "client_fragments opcode [] = []"
| "client_fragments opcode [(key, p)] = client_frame True opcode key p"
| "client_fragments opcode ((key, p) # x # xs) =
     client_frame False opcode key p @ client_fragments op_continuation (x # xs)"

lemma op_cont_text: "op_continuation \<noteq> op_text"
  by (simp add: op_defs)

lemma serve_iter_client:
  assumes "stream_socket os fd pending" "opcode = op_text \<or> opcode = op_continuation"
    "length key = 4" "length p \<le> max_message"
    "pending (ws_world s) = client_frame fin opcode key p @ rest"
  obtains hdr w where "serve_iter os env c fd l s = text_frame env c hdr p l (s\<lparr>ws_world := w\<rparr>)"
    "fh_opcode hdr = opcode" "fh_fin hdr = fin" "pending w = rest"
proof -
  have "opcode < 16" using assms(2) by (auto simp: op_defs)
  from read_client_frame [OF assms(1) this assms(3,4,5)] obtain hdr w1 w2 where
    r: "read_header os fd (ws_world s) = (Some hdr, w1)" "fh_opcode hdr = opcode" "fh_fin hdr = fin"
      "read_masked_payload os fd hdr w1 = (Some p, w2)" "pending w2 = rest"
    by blast
  have "serve_iter os env c fd l s = text_frame env c hdr p l (s\<lparr>ws_world := w2\<rparr>)"
    using assms(2) by (auto simp: serve_iter_def r(1,2,4) Let_def op_defs)
  with r show thesis by (intro that)
qed

lemma serve_continuations:
  assumes "stream_socket os fd pending"
  shows "xs \<noteq> [] \<Longrightarrow> \<forall>(key, p) \<in> set xs. length key = 4 \<Longrightarrow>
    length a + length (concat (map snd xs)) \<le> max_message \<Longrightarrow>
    pending (ws_world s) = client_fragments op_continuation xs @ rest \<Longrightarrow>
    \<exists>w. pending w = rest \<and>
      serve_loop os env c fd \<lparr>wl_assembled = a, wl_assembling = op_text\<rparr> s =
      serve_loop os env c fd \<lparr>wl_assembled = [], wl_assembling = 0\<rparr>
        (s\<lparr>ws_world := w, ws_reg := handle_text env c (a @ concat (map snd xs)) (ws_reg s)\<rparr>)"
proof (induction xs arbitrary: a s)
  case (Cons x xs)
  obtain key p where x: "x = (key, p)" by fastforce
  let ?l = "\<lparr>wl_assembled = a, wl_assembling = op_text\<rparr>"
  have k: "length key = 4" "length p \<le> max_message" "\<not> max_message < length a + length p"
    using Cons.prems x by auto
  have pend: "pending (ws_world s) = client_frame (xs = []) op_continuation key p @
      (if xs = [] then rest else client_fragments op_continuation xs @ rest)"
    using Cons.prems(4) x by (cases xs) auto
  obtain hdr w where i: "serve_iter os env c fd ?l s = text_frame env c hdr p ?l (s\<lparr>ws_world := w\<rparr>)"
    and h: "fh_opcode hdr = op_continuation" "fh_fin hdr = (xs = [])"
    and w: "pending w = (if xs = [] then rest else client_fragments op_continuation xs @ rest)"
    by (rule serve_iter_client [OF assms _ k(1,2) pend]) auto
  show ?case
  proof (cases "xs = []")
    case True
    then have "serve_loop os env c fd ?l s = serve_loop os env c fd \<lparr>wl_assembled = [], wl_assembling = 0\<rparr>
        (s\<lparr>ws_world := w, ws_reg := handle_text env c (a @ p) (ws_reg s)\<rparr>)"
      using h k(3) i by (simp add: serve_loop.simps [of os env c fd ?l s] text_frame_def op_cont_text)
    then show ?thesis using True w x by auto
  next
    case False
    let ?s = "s\<lparr>ws_world := w\<rparr>"
    from False have "serve_loop os env c fd ?l s =
        serve_loop os env c fd \<lparr>wl_assembled = a @ p, wl_assembling = op_text\<rparr> ?s"
      using h k(3) i by (simp add: serve_loop.simps [of os env c fd ?l s] text_frame_def op_cont_text)
    moreover have "\<exists>w. pending w = rest \<and>
        serve_loop os env c fd \<lparr>wl_assembled = a @ p, wl_assembling = op_text\<rparr> ?s =
        serve_loop os env c fd \<lparr>wl_assembled = [], wl_assembling = 0\<rparr>
          (?s\<lparr>ws_world := w, ws_reg := handle_text env c ((a @ p) @ concat (map snd xs)) (ws_reg ?s)\<rparr>)"
      using Cons.prems x w False by (intro Cons.IH) auto
    ultimately show ?thesis using x by auto
  qed
qed simp

lemma serve_fragments:
  assumes st: "stream_socket os fd pending" and xs: "xs \<noteq> []" "\<forall>(key, p) \<in> set xs. length key = 4"
    "length (concat (map snd xs)) \<le> max_message"
    and pend: "pending (ws_world s) = client_fragments op_text xs @ rest"
  shows "\<exists>w. pending w = rest \<and>
      serve_loop os env c fd l s =
      serve_loop os env c fd \<lparr>wl_assembled = [], wl_assembling = 0\<rparr>
        (s\<lparr>ws_world := w, ws_reg := handle_text env c (concat (map snd xs)) (ws_reg s)\<rparr>)"
proof -
  obtain key p ys where x: "xs = (key, p) # ys" using xs(1) by (cases xs) auto
  have k: "length key = 4" "length p \<le> max_message" using xs x by auto
  have pend': "pending (ws_world s) = client_frame (ys = []) op_text key p @
      (if ys = [] then rest else client_fragments op_continuation ys @ rest)"
    using pend x by (cases ys) auto
  obtain hdr w where i: "serve_iter os env c fd l s = text_frame env c hdr p l (s\<lparr>ws_world := w\<rparr>)"
    and h: "fh_opcode hdr = op_text" "fh_fin hdr = (ys = [])"
    and w: "pending w = (if ys = [] then rest else client_fragments op_continuation ys @ rest)"
    by (rule serve_iter_client [OF st _ k pend']) auto
  show ?thesis
  proof (cases "ys = []")
    case True
    then have "serve_loop os env c fd l s = serve_loop os env c fd \<lparr>wl_assembled = [], wl_assembling = 0\<rparr>
        (s\<lparr>ws_world := w, ws_reg := handle_text env c p (ws_reg s)\<rparr>)"
      using h i by (simp add: serve_loop.simps [of os env c fd l s] text_frame_def)
    then show ?thesis using True w x by auto
  next
    case False
    let ?s = "s\<lparr>ws_world := w\<rparr>"
    from False have "serve_loop os env c fd l s =
        serve_loop os env c fd \<lparr>wl_assembled = p, wl_assembling = op_text\<rparr> ?s"
      using h i by (simp add: serve_loop.simps [of os env c fd l s] text_frame_def)
    moreover have "\<exists>w. pending w = rest \<and>
        serve_loop os env c fd \<lparr>wl_assembled = p, wl_assembling = op_text\<rparr> ?s =
        serve_loop os env c fd \<lparr>wl_assembled = [], wl_assembling = 0\<rparr>
          (?s\<lparr>ws_world := w, ws_reg := handle_text env c (p @ concat (map snd ys)) (ws_reg ?s)\<rparr>)"
      using xs x w False by (intro serve_continuations [OF st]) auto
    ultimately show ?thesis using x by auto
  qed
qed

subsection \<open>Serving threads, publishers and shutdown interleaved\<close>

text \<open>
  Where a serving thread is: in its loop, or at one of the three lock regions after \<^verbatim>\<open>done:\<close>.
  \<open>sys_dying\<close> is \<^verbatim>\<open>shutdown_all\<close>'s list, each entry with whether its registrations have been
  dropped.  An address is reused only when nobody holds the object any more.
\<close>

datatype ws_thread = Looping int ws_loop | Leaving | Unlistened | Erased

record 'w ws_sys =
  sys_ws :: "'w ws_state"
  sys_threads :: "nat \<Rightarrow> ws_thread option"
  sys_dying :: "(nat \<times> bool) list"

definition ws_init :: "'w \<Rightarrow> 'w ws_sys" where
  "ws_init w =
     \<lparr>sys_ws = \<lparr>ws_heap = (\<lambda>_. \<lparr>cn_fd = invalid_socket, cn_open = False\<rparr>), ws_conns = [],
                ws_reg = new_registry, ws_world = w\<rparr>,
      sys_threads = (\<lambda>_. None), sys_dying = []\<rparr>"

definition set_thread :: "nat \<Rightarrow> ws_thread option \<Rightarrow> 'w ws_state \<Rightarrow> 'w ws_sys \<Rightarrow> 'w ws_sys" where
  "set_thread c t ws y = y\<lparr>sys_ws := ws, sys_threads := (sys_threads y)(c := t)\<rparr>"

inductive ws_step :: "'w os_api \<Rightarrow> 'd ws_env \<Rightarrow> 'w ws_sys \<Rightarrow> 'w ws_sys \<Rightarrow> bool"
  for os :: "'w os_api" and env :: "'d ws_env" where
  ws_open: "sys_threads y c = None \<Longrightarrow> c \<notin> fst ` set (sys_dying y) \<Longrightarrow>
    ws_step os env y (set_thread c (Some (Looping fd \<lparr>wl_assembled = [], wl_assembling = 0\<rparr>))
      (serve_open os c fd (sys_ws y)) y)"
| ws_on: "sys_threads y c = Some (Looping fd l) \<Longrightarrow>
    serve_iter os env c fd l (sys_ws y) = Go_on l' ws' \<Longrightarrow>
    ws_step os env y (set_thread c (Some (Looping fd l')) ws' y)"
| ws_leave: "sys_threads y c = Some (Looping fd l) \<Longrightarrow>
    serve_iter os env c fd l (sys_ws y) = Goto_done ws' \<Longrightarrow>
    ws_step os env y (set_thread c (Some Leaving) ws' y)"
| ws_unlisten: "sys_threads y c = Some Leaving \<Longrightarrow>
    ws_step os env y (set_thread c (Some Unlistened)
      ((sys_ws y)\<lparr>ws_reg := osc_listen_remove_peer c (ws_reg (sys_ws y))\<rparr>) y)"
| ws_erase: "sys_threads y c = Some Unlistened \<Longrightarrow>
    ws_step os env y (set_thread c (Some Erased)
      ((sys_ws y)\<lparr>ws_conns := filter (\<lambda>k. k \<noteq> c) (ws_conns (sys_ws y))\<rparr>) y)"
| ws_close: "sys_threads y c = Some Erased \<Longrightarrow>
    ws_step os env y (set_thread c None (close_conn os c (sys_ws y)) y)"
| ws_publish: "ws_step os env y (y\<lparr>sys_ws := send_binary os token data (sys_ws y)\<rparr>)"
| ws_shutdown: "ws_step os env y
    (y\<lparr>sys_dying := sys_dying y @ map (\<lambda>c. (c, False)) (ws_conns (sys_ws y)),
       sys_ws := (sys_ws y)\<lparr>ws_conns := []\<rparr>\<rparr>)"
| ws_dying_unlisten: "sys_dying y = (c, False) # rest \<Longrightarrow>
    ws_step os env y (y\<lparr>sys_dying := (c, True) # rest,
      sys_ws := (sys_ws y)\<lparr>ws_reg := osc_listen_remove_peer c (ws_reg (sys_ws y))\<rparr>\<rparr>)"
| ws_dying_close: "sys_dying y = (c, True) # rest \<Longrightarrow>
    ws_step os env y (y\<lparr>sys_dying := rest, sys_ws := close_conn os c (sys_ws y)\<rparr>)"
| ws_subscription: "ws_step os env y
    (y\<lparr>sys_ws := (sys_ws y)\<lparr>ws_reg := osc_handle_subscription oor msg who unsub (ws_reg (sys_ws y))\<rparr>\<rparr>)"
| ws_world: "ws_step os env y (y\<lparr>sys_ws := (sys_ws y)\<lparr>ws_world := w\<rparr>\<rparr>)"

inductive ws_reachable :: "'w os_api \<Rightarrow> 'd ws_env \<Rightarrow> 'w ws_sys \<Rightarrow> bool"
  for os :: "'w os_api" and env :: "'d ws_env" where
  ws_start: "ws_reachable os env (ws_init w)"
| ws_next: "ws_reachable os env y \<Longrightarrow> ws_step os env y y' \<Longrightarrow> ws_reachable os env y'"

definition may_listen :: "ws_thread option \<Rightarrow> bool" where
  "may_listen t \<longleftrightarrow> t = Some Leaving \<or> (\<exists>fd l. t = Some (Looping fd l))"

definition may_be_listed :: "ws_thread option \<Rightarrow> bool" where
  "may_be_listed t \<longleftrightarrow> may_listen t \<or> t = Some Unlistened"

text \<open>
  Registrations, map entries and open sockets exist only while the thread that will drop
  them is still to come to it.
\<close>

definition ws_inv :: "'w ws_sys \<Rightarrow> bool" where
  "ws_inv y \<longleftrightarrow>
     registry_inv (ws_reg (sys_ws y)) \<and>
     (\<forall>c x. listens_to (ws_reg (sys_ws y)) c x \<longrightarrow> may_listen (sys_threads y c)) \<and>
     (\<forall>c \<in> set (ws_conns (sys_ws y)). may_be_listed (sys_threads y c)) \<and>
     (\<forall>c. cn_open (ws_heap (sys_ws y) c) \<longrightarrow> sys_threads y c \<noteq> None)"

lemma listens_to_new [simp]: "\<not> listens_to new_registry c x"
  by (simp add: listens_to_def new_registry_def)

lemma ws_inv_init: "ws_inv (ws_init w)"
  by (simp add: ws_inv_def ws_init_def)

lemma listens_cmds:
  "registry_inv reg \<Longrightarrow> q \<noteq> c \<Longrightarrow> listens_to (listen_cmds c cmds reg) q x \<longleftrightarrow> listens_to reg q x"
  using lr.session_others [of reg q c cmds x] by (simp add: listen_cmds_def)

lemma registry_inv_cmds: "registry_inv reg \<Longrightarrow> registry_inv (listen_cmds c cmds reg)"
  unfolding listen_cmds_def
  by (induction cmds arbitrary: reg) (auto simp: registry_inv_listen_add registry_inv_listen_remove)

lemma listens_subscription [simp]:
  "listens_to (osc_handle_subscription oor msg who u reg) q x \<longleftrightarrow> listens_to reg q x"
  by (auto simp: listens_to_def osc_handle_subscription_def osc_subscribe_add_def osc_subscribe_remove_def
      Let_def split: option.splits prod.splits)

lemma close_conn_simps [simp]:
  "ws_reg (close_conn os c s) = ws_reg s" "ws_conns (close_conn os c s) = ws_conns s"
  "cn_open (ws_heap (close_conn os c s) k) \<longleftrightarrow> k \<noteq> c \<and> cn_open (ws_heap s k)"
  by (auto simp: close_conn_def set_conn_def Let_def)

lemma serve_open_simps [simp]:
  "ws_reg (serve_open os c fd s) = ws_reg s"
  "set (ws_conns (serve_open os c fd s)) = insert c (set (ws_conns s))"
  "cn_open (ws_heap (serve_open os c fd s) k) \<longleftrightarrow> k = c \<or> cn_open (ws_heap s k)"
  by (auto simp: serve_open_def set_conn_def Let_def set_insort_key)

lemma send_binary_own: "own_cmds token s (send_binary os token data s)"
  using own_cmds_set_world [of token s "ws_world s"]
  by (simp add: send_binary_def own_cmds_send)

lemma ws_inv_own:
  assumes "ws_inv y" "own_cmds c (sys_ws y) ws'"
    and "may_listen (sys_threads y c)" "may_listen t"
  shows "ws_inv (set_thread c t ws' y)"
proof -
  from assms(2) obtain cmds where r: "ws_reg ws' = listen_cmds c cmds (ws_reg (sys_ws y))"
    and c: "ws_conns ws' = ws_conns (sys_ws y)"
    and o: "\<And>k. cn_open (ws_heap ws' k) \<Longrightarrow> cn_open (ws_heap (sys_ws y) k)"
    by (auto simp: own_cmds_def)
  have reg: "registry_inv (ws_reg (sys_ws y))" using assms(1) by (simp add: ws_inv_def)
  have t: "t \<noteq> None" using assms(4) by (auto simp: may_listen_def)
  have reg': "registry_inv (ws_reg ws')" unfolding r by (rule registry_inv_cmds [OF reg])
  have old: "listens_to (ws_reg (sys_ws y)) q x" if "q \<noteq> c" "listens_to (ws_reg ws') q x" for q x
    using that listens_cmds [OF reg] unfolding r by blast
  have "may_listen (if q = c then t else sys_threads y q)" if "listens_to (ws_reg ws') q x" for q x
    using old [OF _ that] assms(1,4) unfolding ws_inv_def by (cases "q = c") auto
  then show ?thesis
    using assms(1,4) o t reg' unfolding ws_inv_def by (auto simp: set_thread_def c may_be_listed_def)
qed

lemma ws_inv_publish:
  assumes "ws_inv y"
  shows "ws_inv (y\<lparr>sys_ws := send_binary os token data (sys_ws y)\<rparr>)"
proof -
  obtain ok s' where f: "send_frame os token op_binary data (sys_ws y) = (ok, s')" by fastforce
  from send_frame_reg [OF f] assms show ?thesis
    by (auto simp: ws_inv_def send_binary_def f)
qed

lemma ws_step_inv:
  assumes "ws_step os env y y'" "ws_inv y"
  shows "ws_inv y'"
  using assms
proof (cases rule: ws_step.cases)
  case (ws_open c fd)
  then show ?thesis
    using assms(2) by (auto simp: ws_inv_def set_thread_def may_listen_def may_be_listed_def)
next
  case (ws_on c fd l l' ws')
  then show ?thesis
    using ws_inv_own [OF assms(2), of c ws'] serve_iter_own [of c "sys_ws y" os env fd l]
    by (simp add: may_listen_def)
next
  case (ws_leave c fd l ws')
  then show ?thesis
    using ws_inv_own [OF assms(2), of c ws'] serve_iter_own [of c "sys_ws y" os env fd l]
    by (simp add: may_listen_def)
next
  case (ws_unlisten c)
  then show ?thesis
    using assms(2)
    by (auto simp: ws_inv_def set_thread_def may_listen_def may_be_listed_def
        registry_inv_listen_remove_peer lr.listens_remove_peer)
next
  case (ws_erase c)
  then show ?thesis
    using assms(2)
    by (auto simp: ws_inv_def set_thread_def may_listen_def may_be_listed_def)
next
  case (ws_close c)
  then show ?thesis
    using assms(2)
    by (auto simp: ws_inv_def set_thread_def may_listen_def may_be_listed_def)
next
  case (ws_publish token data)
  then show ?thesis using ws_inv_publish [OF assms(2)] by simp
next
  case (ws_subscription oor msg who unsub)
  then show ?thesis
    using assms(2) by (auto simp: ws_inv_def registry_inv_handle_subscription)
qed (use assms(2) in \<open>auto simp: ws_inv_def registry_inv_listen_remove_peer lr.listens_remove_peer\<close>)

lemma ws_reachable_inv: "ws_reachable os env y \<Longrightarrow> ws_inv y"
  by (induction rule: ws_reachable.induct) (simp_all add: ws_inv_init ws_step_inv)

lemma ws_quiescent:
  assumes "ws_reachable os env y" "\<And>c. sys_threads y c = None"
  shows "listeners (ws_reg (sys_ws y)) = []" "ws_conns (sys_ws y) = []"
    "\<not> cn_open (ws_heap (sys_ws y) c)"
proof -
  note inv = ws_reachable_inv [OF assms(1), unfolded ws_inv_def]
  have "\<not> listens_to (ws_reg (sys_ws y)) k x" for k x
    using inv assms(2) by (auto simp: may_listen_def)
  then have "l \<notin> set (listeners (ws_reg (sys_ws y)))" for l
    by (cases l) (auto simp: listens_to_def)
  then show "listeners (ws_reg (sys_ws y)) = []" by (metis last_in_set)
  have "k \<notin> set (ws_conns (sys_ws y))" for k
    using inv assms(2) by (auto simp: may_listen_def may_be_listed_def)
  then show "ws_conns (sys_ws y) = []" by (metis last_in_set)
  show "\<not> cn_open (ws_heap (sys_ws y) c)" using inv assms(2) by blast
qed

end
