(* ===== verification/OscHttp.thy ===== *)
theory OscHttp
  imports OscWs
begin

text \<open>
  The OSCQuery HTTP server (\<^verbatim>\<open>osc-query-http.h\<close>, \<^verbatim>\<open>osc-query-http.cpp\<close>): percent decoding,
  reading a request, header lookup, the websocket upgrade, the one-shot GET, and the accept
  loop with its bound on live connections.  The installed handler is a parameter: a function
  of the decoded path and the world.  The lemmas show that decoding inverts encoding, that the
  request buffer is bounded, and that at most 32 connections are served at a time.
\<close>

unbundle bit_operations_syntax

subsection \<open>Percent decoding\<close>

definition isxdigit :: "char \<Rightarrow> bool" where
  "isxdigit c \<longleftrightarrow> is_digit c \<or> 65 \<le> (of_char c :: nat) \<and> (of_char c :: nat) \<le> 70 \<or>
     97 \<le> (of_char c :: nat) \<and> (of_char c :: nat) \<le> 102"

definition hex_value :: "char \<Rightarrow> byte" where
  "hex_value c =
     (if is_digit c then byte_of c - 48 else (byte_of c OR 0x20) - 97 + 10)"

fun url_decode :: "string \<Rightarrow> string" where
  "url_decode (c # h # l # s) =
     (if c = CHR ''%'' \<and> isxdigit h \<and> isxdigit l
      then char_of_byte (push_bit 4 (hex_value h) OR hex_value l) # url_decode s
      else c # url_decode (h # l # s))"
| "url_decode (c # s) = c # url_decode s"
| "url_decode [] = []"

subsection \<open>Responses\<close>

definition method_error_json :: string where
  "method_error_json = ''{\"STATUS\":\"error\",\"DESCRIPTION\":\"method not supported\"}''"

definition not_found_json :: string where
  "not_found_json = ''{\"STATUS\":\"error\",\"DESCRIPTION\":\"not found\"}''"

function http_send_all :: "'w os_api \<Rightarrow> int \<Rightarrow> bytes \<Rightarrow> 'w \<Rightarrow> 'w" where
  "http_send_all os fd data w =
     (if data = [] then w
      else case os_send os fd data w of (n, w1) \<Rightarrow>
        if n \<le> 0 then w1 else http_send_all os fd (drop (nat n) data) w1)"
  by pat_completeness auto
termination
  by (relation "measure (\<lambda>(os, fd, data, w). length data)") auto

declare http_send_all.simps [simp del]

definition response_header :: "string \<Rightarrow> bool \<Rightarrow> string" where
  "response_header body ok =
     (if ok then ''HTTP/1.1 200 OK'' else ''HTTP/1.1 404 Not Found'') @ crlf @
     ''Content-Type: application/json'' @ crlf @ ''Access-Control-Allow-Origin: *'' @ crlf @
     ''Connection: close'' @ crlf @
     ''Content-Length: '' @ std_to_string (int (length body)) @ crlf @ crlf"

definition respond :: "'w os_api \<Rightarrow> int \<Rightarrow> string \<Rightarrow> bool \<Rightarrow> 'w \<Rightarrow> 'w" where
  "respond os fd body ok w =
     http_send_all os fd (to_bytes body) (http_send_all os fd (to_bytes (response_header body ok)) w)"

subsection \<open>Requests\<close>

fun contains_sub :: "string \<Rightarrow> string \<Rightarrow> bool" where
  "contains_sub sub [] = (sub = [])"
| "contains_sub sub (c # s) = (take (length sub) (c # s) = sub \<or> contains_sub sub s)"

definition to_lower :: "char \<Rightarrow> char" where
  "to_lower c =
     (if 65 \<le> (of_char c :: nat) \<and> (of_char c :: nat) \<le> 90 then char_of ((of_char c :: nat) + 32) else c)"

text \<open>
  The search from a position: \<open>s\<close> is the request from \<^verbatim>\<open>pos\<close> on.  \<open>None\<close> is the null pointer,
  \<open>Some v\<close> the bytes between the returned pointer and \<^verbatim>\<open>*end\<close>.
\<close>

function find_header_value :: "string \<Rightarrow> string \<Rightarrow> string option" where
  "find_header_value s name =
     (case dropWhile (\<lambda>c. c \<noteq> CHR 0x0A) s of
        [] \<Rightarrow> None
      | _ # t \<Rightarrow>
          (if length t < length name then None
           else if map to_lower (take (length name) t) \<noteq> map to_lower name
           then find_header_value t name
           else
             let v = dropWhile (\<lambda>c. c = CHR '' '' \<or> c = CHR '':'') (drop (length name) t)
             in if CHR 0x0D \<notin> set v then None else Some (takeWhile (\<lambda>c. c \<noteq> CHR 0x0D) v)))"
  by pat_completeness auto
termination
proof (relation "measure (\<lambda>(s, name). length s)", goal_cases)
  case (2 s name c t)
  then show ?case using length_dropWhile_le [of "\<lambda>c. c \<noteq> CHR 0x0A" s] by simp
qed simp

declare find_header_value.simps [simp del]

definition try_upgrade ::
  "'w os_api \<Rightarrow> 'd ws_env \<Rightarrow> nat \<Rightarrow> int \<Rightarrow> string \<Rightarrow> 'w ws_state \<Rightarrow> (bool \<times> 'w ws_state) option" where
  "try_upgrade os env c fd request s =
     (case find_header_value request ''sec-websocket-key'' of
        None \<Rightarrow> Some (False, s)
      | Some key \<Rightarrow>
          (if find_header_value request ''upgrade'' = None then Some (False, s)
           else map_option (\<lambda>s1. (True, s1)) (serve os env c fd key s)))"

function read_request :: "'w os_api \<Rightarrow> int \<Rightarrow> string \<Rightarrow> 'w \<Rightarrow> string \<times> 'w" where
  "read_request os fd request w =
     (if \<not> contains_sub (crlf @ crlf) request \<and> length request < 8192 then
        (case os_recv os fd 2048 w of (bs, w1) \<Rightarrow>
           if bs = [] then (request, w1)
           else read_request os fd (request @ to_string bs) w1)
      else (request, w))"
  by pat_completeness auto
termination
proof (relation "measure (\<lambda>(os, fd, request, w). 8192 - length request)", goal_cases)
  case (2 os fd request w bs w1)
  then show ?case by (cases bs) auto
qed simp

declare read_request.simps [simp del]

text \<open>\<^verbatim>\<open>request.compare(0, 4, "GET ")\<close>, then the path up to the next blank, without the query.\<close>

definition request_path :: "string \<Rightarrow> string option" where
  "request_path request =
     (if take 4 request \<noteq> ''GET '' then None
      else
        let path = takeWhile (\<lambda>c. c \<noteq> CHR '' '') (drop 4 request);
            path = takeWhile (\<lambda>c. c \<noteq> CHR ''?'') path
        in Some (if path = ''/'' then ''/'' else url_decode path))"

definition handle_client ::
  "'w os_api \<Rightarrow> 'd ws_env \<Rightarrow> (string \<Rightarrow> 'w \<Rightarrow> string) \<Rightarrow> nat \<Rightarrow> int \<Rightarrow> 'w ws_state \<Rightarrow> 'w ws_state option" where
  "handle_client os env handler c fd s =
     (case read_request os fd [] (ws_world s) of (request, w1) \<Rightarrow>
        (case try_upgrade os env c fd request (s\<lparr>ws_world := w1\<rparr>) of
           None \<Rightarrow> None
         | Some (True, s2) \<Rightarrow> Some s2
         | Some (False, s2) \<Rightarrow>
             (let w2 = ws_world s2;
                  w3 = (case request_path request of
                          None \<Rightarrow> respond os fd method_error_json False w2
                        | Some decoded \<Rightarrow>
                            (let body = handler decoded w2
                             in if body = [] then respond os fd not_found_json False w2
                                else respond os fd body True w2))
              in Some (s2\<lparr>ws_world := close_socket os fd w3\<rparr>))))"

subsection \<open>Accepting connections\<close>

definition max_clients :: int where "max_clients = 32"

record http =
  ht_running :: bool
  ht_listen_fd :: int
  ht_live_clients :: int

definition new_http :: http where
  "new_http = \<lparr>ht_running = False, ht_listen_fd = invalid_socket, ht_live_clients = 0\<rparr>"

text \<open>
  One pass of \<^verbatim>\<open>accept_loop\<close> with the socket \<^verbatim>\<open>accept\<close> returned; \<open>running\<close> is what \<^verbatim>\<open>http_running\<close>
  holds after it.
\<close>

datatype accept_result = Accept_stop | Accept_refused | Accept_serve int

definition accept_pass ::
  "'w os_api \<Rightarrow> int \<Rightarrow> bool \<Rightarrow> http \<Rightarrow> 'w \<Rightarrow> accept_result \<times> http \<times> 'w" where
  "accept_pass os client running h w =
     (if client = invalid_socket \<or> \<not> running then (Accept_stop, h, w)
      else
        let w1 = set_recv_timeout os client 2000 w;
            before = ht_live_clients h;
            h1 = h\<lparr>ht_live_clients := before + 1\<rparr>
        in if before \<ge> max_clients
           then (Accept_refused, h1\<lparr>ht_live_clients := ht_live_clients h1 - 1\<rparr>, close_socket os client w1)
           else (Accept_serve client, h1, w1))"

definition client_done :: "http \<Rightarrow> http" where
  "client_done h = h\<lparr>ht_live_clients := ht_live_clients h - 1\<rparr>"

definition osc_http_start :: "'w os_api \<Rightarrow> int \<Rightarrow> http \<Rightarrow> 'w \<Rightarrow> bool \<times> http \<times> 'w" where
  "osc_http_start os port h w =
     (if ht_running h then (True, h, w)
      else case listen_tcp os port 8 w of (fd, w1) \<Rightarrow>
        if fd = invalid_socket then (False, h, w1)
        else (True, h\<lparr>ht_running := True, ht_listen_fd := fd\<rparr>, w1))"

definition osc_http_stop :: "'w os_api \<Rightarrow> http \<Rightarrow> 'w ws_state \<Rightarrow> http \<times> 'w ws_state" where
  "osc_http_stop os h s =
     (if \<not> ht_running h then (h, s)
      else
        let s1 = shutdown_all os s;
            fd = ht_listen_fd h
        in (h\<lparr>ht_running := False, ht_listen_fd := invalid_socket\<rparr>,
            s1\<lparr>ws_world := close_wake os fd (ws_world s1)\<rparr>))"

subsection \<open>Decoding inverts encoding\<close>

definition hex_char :: "byte \<Rightarrow> char" where
  "hex_char v = (if v < 10 then char_of_byte (48 + v) else char_of_byte (87 + v))"

text \<open>Percent encoding of every byte the predicate does not keep; \<open>%\<close> is always encoded.\<close>

fun url_encode :: "(char \<Rightarrow> bool) \<Rightarrow> string \<Rightarrow> string" where
  "url_encode keep [] = []"
| "url_encode keep (c # s) =
     (if keep c \<and> c \<noteq> CHR ''%'' then [c]
      else [CHR ''%'', hex_char (drop_bit 4 (byte_of c)), hex_char (byte_of c AND 0x0F)]) @
     url_encode keep s"

lemma nibble_induct:
  assumes "(v :: byte) < 16"
    and "P 0" "P 1" "P 2" "P 3" "P 4" "P 5" "P 6" "P 7" "P 8" "P 9" "P 10" "P 11" "P 12" "P 13"
      "P 14" "P 15"
  shows "P v"
proof -
  have "unat v < 16" using assms(1) by (simp add: word_less_nat_alt)
  then have "unat v \<in> set [0..<16]" by simp
  moreover have "[0..<16] = [0, 1, 2, 3, 4, 5, 6, 7, 8, 9, 10, 11, 12, 13, 14, 15 :: nat]"
    by (simp add: upt_rec)
  ultimately have "unat v \<in> {0, 1, 2, 3, 4, 5, 6, 7, 8, 9, 10, 11, 12, 13, 14, 15}" by simp
  moreover obtain n where n: "n = unat v" by simp
  then have v: "v = word_of_nat n" by simp
  ultimately show ?thesis unfolding n [symmetric] unfolding v using assms(2-) by auto
qed

lemma hex_char_digit:
  assumes "v < 16"
  shows "isxdigit (hex_char v) \<and> hex_value (hex_char v) = v"
  by (rule nibble_induct [OF assms])
    (simp_all add: hex_char_def isxdigit_def hex_value_def is_digit_def char_of_byte_def byte_of_def)

lemma nibbles:
  fixes b :: byte
  shows "drop_bit 4 b < 16" "b AND 0x0F < 16" "push_bit 4 (drop_bit 4 b) OR (b AND 0x0F) = b"
proof -
  have "unat b < 256" using unsigned_less [of b] by simp
  then show "drop_bit 4 b < 16"
    by (simp add: word_less_nat_alt drop_bit_eq_div unat_div)
  have t: "b AND 0x0F = take_bit 4 b" by (simp add: take_bit_eq_mask mask_eq_exp_minus_1)
  show "b AND 0x0F < 16"
    unfolding t by (simp add: word_less_nat_alt take_bit_eq_mod unat_mod)
  show "push_bit 4 (drop_bit 4 b) OR (b AND 0x0F) = b"
    unfolding t by (rule bit_word_eqI) (auto simp: bit_simps)
qed

lemma url_decode_plain: "c \<noteq> CHR ''%'' \<Longrightarrow> url_decode (c # s) = c # url_decode s"
proof (cases s)
  case (Cons h t)
  then show "c \<noteq> CHR ''%'' \<Longrightarrow> ?thesis" by (cases t) simp_all
qed simp

lemma url_decode_escape: "url_decode (CHR ''%'' # hex_char (drop_bit 4 (byte_of c)) # hex_char (byte_of c AND 0x0F) # s) =
    c # url_decode s"
  using nibbles [of "byte_of c"] hex_char_digit by simp

lemma url_decode_encode: "url_decode (url_encode keep s) = s"
proof (induction s)
  case (Cons c s)
  show ?case
  proof (cases "keep c \<and> c \<noteq> CHR ''%''")
    case True
    then show ?thesis using Cons.IH url_decode_plain [of c "url_encode keep s"] by simp
  next
    case False
    then have "url_encode keep (c # s) =
        CHR ''%'' # hex_char (drop_bit 4 (byte_of c)) # hex_char (byte_of c AND 0x0F) # url_encode keep s"
      by simp
    then show ?thesis using Cons.IH by (simp only: url_decode_escape)
  qed
qed simp

lemma length_url_decode: "length (url_decode s) \<le> length s"
  by (induction s rule: url_decode.induct) auto

subsection \<open>The request buffer is bounded\<close>

lemma read_request_bound:
  "stream_socket os fd pending \<Longrightarrow> length request < 8192 + 2048 \<Longrightarrow>
   length (fst (read_request os fd request w)) < 8192 + 2048"
proof (induction os fd request w rule: read_request.induct)
  case (1 os fd request w)
  obtain bs w1 where r: "os_recv os fd 2048 w = (bs, w1)" by fastforce
  have l: "length bs \<le> 2048" by (rule stream_socketD(1) [OF "1.prems"(1) r])
  show ?case
  proof (cases "(\<not> contains_sub (crlf @ crlf) request \<and> length request < 8192) \<and> bs \<noteq> []")
    case True
    then have c: "\<not> contains_sub (crlf @ crlf) request \<and> length request < 8192" and b: "bs \<noteq> []" by auto
    have e: "read_request os fd request w = read_request os fd (request @ to_string bs) w1"
      unfolding read_request.simps [of os fd request w] r prod.case using c b by (simp only: if_True if_False simp_thms)
    show ?thesis
      unfolding e by (rule "1.IH" [OF c r [symmetric] b "1.prems"(1)]) (use c l in simp)
  next
    case False
    then have "read_request os fd request w = (request, w) \<or> read_request os fd request w = (request, w1)"
      unfolding read_request.simps [of os fd request w] r prod.case by (auto simp del: contains_sub.simps)
    then show ?thesis using "1.prems"(2) by auto
  qed
qed

subsection \<open>Header lookup\<close>

fun render_headers :: "(string \<times> string) list \<Rightarrow> string" where
  "render_headers [] = crlf"
| "render_headers ((n, v) # hs) = n @ '': '' @ v @ crlf @ render_headers hs"

definition same_name :: "string \<Rightarrow> string \<Rightarrow> bool" where
  "same_name a b \<longleftrightarrow> map to_lower a = map to_lower b"

text \<open>A header whose line starts with the name asked for is that header, not a longer one.\<close>

definition header_ok :: "string \<Rightarrow> string \<times> string \<Rightarrow> bool" where
  "header_ok name h \<longleftrightarrow>
     (case h of (n, v) \<Rightarrow>
        set (n @ v) \<inter> {CHR 0x0D, CHR 0x0A} = {} \<and>
        (v = [] \<or> hd v \<noteq> CHR '' '' \<and> hd v \<noteq> CHR '':'') \<and>
        (same_name (take (length name) (n @ '': '' @ v)) name \<longrightarrow> same_name n name))"

lemma same_name_length: "same_name a b \<Longrightarrow> length a = length b"
  unfolding same_name_def by (metis length_map)

lemma to_lower_CR: "to_lower c = to_lower (CHR 0x0D) \<longleftrightarrow> c = CHR 0x0D"
proof -
  have "char_of ((of_char c :: nat) + 32) \<noteq> CHR 0x0D" if "65 \<le> (of_char c :: nat)" "(of_char c :: nat) \<le> 90"
  proof
    assume "char_of ((of_char c :: nat) + 32) = CHR 0x0D"
    then have "(of_char (char_of ((of_char c :: nat) + 32)) :: nat) = of_char (CHR 0x0D)" by simp
    then show False using that by simp
  qed
  then show ?thesis by (auto simp: to_lower_def)
qed

lemma take_past_CR:
  assumes "CHR 0x0D \<notin> set name" "same_name (take (length name) (line @ CHR 0x0D # rest)) name"
  shows "length name \<le> length line"
proof (rule ccontr)
  assume "\<not> length name \<le> length line"
  then have l: "length line < length name" by simp
  have "map to_lower (take (length name) (line @ CHR 0x0D # rest)) ! length line = map to_lower name ! length line"
    using assms(2) by (simp add: same_name_def)
  then have "to_lower (CHR 0x0D) = to_lower (name ! length line)"
    using l by (subst (asm) nth_map) (auto simp: nth_append)
  then have "name ! length line = CHR 0x0D" using to_lower_CR by metis
  with l assms(1) show False by (metis nth_mem)
qed

lemma find_header_skip:
  "CHR 0x0A \<notin> set line \<Longrightarrow> find_header_value (line @ CHR 0x0A # t) name = find_header_value (CHR 0x0A # t) name"
  by (simp add: find_header_value.simps [of "line @ CHR 0x0A # t"] find_header_value.simps [of "CHR 0x0A # t"]
      dropWhile_neq_append)

lemma find_header_end: "name \<noteq> [] \<Longrightarrow> CHR 0x0D \<notin> set name \<Longrightarrow> find_header_value (CHR 0x0A # crlf) name = None"
proof -
  assume n: "name \<noteq> []" "CHR 0x0D \<notin> set name"
  have "\<not> same_name (take (length name) ([] @ CHR 0x0D # [CHR 0x0A])) name"
    using take_past_CR [OF n(2), of "[]" "[CHR 0x0A]"] n(1) by auto
  then have m: "map to_lower (take (length name) crlf) \<noteq> map to_lower name" by (simp add: same_name_def)
  have "find_header_value crlf name = None"
    using n(1) by (simp add: find_header_value.simps [of crlf] find_header_value.simps [of "[]"] Suc_le_eq not_less)
  with m show ?thesis
    by (subst find_header_value.simps) (simp del: map_append take_Cons')
qed

lemma same_name_take_line:
  assumes "CHR 0x0D \<notin> set name"
  shows "same_name (take (length name) (line @ CHR 0x0D # rest)) name \<longleftrightarrow>
         same_name (take (length name) line) name"
proof (cases "length name \<le> length line")
  case False
  then have "\<not> same_name (take (length name) line) name" using same_name_length by fastforce
  with False take_past_CR [OF assms, of line rest] show ?thesis by blast
qed simp

lemma find_header_line:
  assumes "name \<noteq> []" "CHR 0x0D \<notin> set name" "set line \<inter> {CHR 0x0D, CHR 0x0A} = {}"
  shows "find_header_value (CHR 0x0A # line @ crlf @ rest) name =
    (if same_name (take (length name) line) name
     then Some (dropWhile (\<lambda>c. c = CHR '' '' \<or> c = CHR '':'') (drop (length name) line))
     else find_header_value (CHR 0x0A # rest) name)"
proof -
  let ?t = "line @ crlf @ rest"
  let ?sep = "\<lambda>c. c = CHR '' '' \<or> c = CHR '':''"
  have u: "find_header_value (CHR 0x0A # ?t) name =
     (if length ?t < length name then None
      else if \<not> same_name (take (length name) ?t) name then find_header_value ?t name
      else let v = dropWhile ?sep (drop (length name) ?t)
           in if CHR 0x0D \<notin> set v then None else Some (takeWhile (\<lambda>c. c \<noteq> CHR 0x0D) v))"
    by (subst find_header_value.simps) (simp add: same_name_def)
  have m: "same_name (take (length name) ?t) name \<longleftrightarrow> same_name (take (length name) line) name"
    using same_name_take_line [OF assms(2), of line "CHR 0x0A # rest"] by simp
  have skip: "find_header_value ?t name = find_header_value (CHR 0x0A # rest) name"
    using find_header_skip [of "line @ [CHR 0x0D]" rest name] assms(3) by auto
  show ?thesis
  proof (cases "same_name (take (length name) line) name")
    case True
    then have l: "length name \<le> length line" using same_name_length by fastforce
    let ?d = "drop (length name) line"
    have cr: "CHR 0x0D \<notin> set ?d" using assms(3) by (auto dest: in_set_dropD)
    have "dropWhile ?sep (drop (length name) ?t) = dropWhile ?sep ?d @ crlf @ rest"
      using l by (simp add: dropWhile_append)
    moreover have "CHR 0x0D \<notin> set (dropWhile ?sep ?d)" using cr by (auto dest: set_dropWhileD)
    ultimately show ?thesis using u m l True by (simp add: takeWhile_neq_append)
  next
    case False
    show ?thesis
    proof (cases "length ?t < length name")
      case True
      then have "find_header_value (CHR 0x0A # rest) name = None"
        by (subst find_header_value.simps) simp
      with u True False show ?thesis by simp
    next
      case ge: False
      with u m False skip show ?thesis by simp
    qed
  qed
qed

lemma header_line_value:
  assumes "header_ok name (n, v)" "same_name n name"
  shows "dropWhile (\<lambda>c. c = CHR '' '' \<or> c = CHR '':'') (drop (length name) (n @ '': '' @ v)) = v"
  using assms same_name_length [OF assms(2)] by (cases v) (auto simp: header_ok_def)

text \<open>The lookup in a request: the value of the first header of that name, whatever its case.\<close>

lemma find_header_headers:
  assumes "name \<noteq> []" "CHR 0x0D \<notin> set name"
  shows "\<forall>h \<in> set hs. header_ok name h \<Longrightarrow>
    find_header_value (CHR 0x0A # render_headers hs) name =
    map_option snd (find (\<lambda>h. same_name (fst h) name) hs)"
proof (induction hs)
  case Nil
  then show ?case using find_header_end [OF assms] by simp
next
  case (Cons h hs)
  obtain n v where h: "h = (n, v)" by fastforce
  with Cons.prems have ok: "header_ok name (n, v)" by simp
  have c: "set (n @ '': '' @ v) \<inter> {CHR 0x0D, CHR 0x0A} = {}" using ok by (auto simp: header_ok_def)
  have m: "same_name (take (length name) (n @ '': '' @ v)) name \<longleftrightarrow> same_name n name"
  proof
    show "same_name n name" if "same_name (take (length name) (n @ '': '' @ v)) name"
      using that ok by (simp only: header_ok_def prod.case)
    show "same_name (take (length name) (n @ '': '' @ v)) name" if "same_name n name"
      using that same_name_length [OF that] by simp
  qed
  have l: "find_header_value (CHR 0x0A # render_headers ((n, v) # hs)) name =
      (if same_name (take (length name) (n @ '': '' @ v)) name
       then Some (dropWhile (\<lambda>c. c = CHR '' '' \<or> c = CHR '':'') (drop (length name) (n @ '': '' @ v)))
       else find_header_value (CHR 0x0A # render_headers hs) name)"
  proof -
    have e: "render_headers ((n, v) # hs) = (n @ '': '' @ v) @ crlf @ render_headers hs" by simp
    show ?thesis unfolding e by (rule find_header_line [OF assms c])
  qed
  show ?case
  proof (cases "same_name n name")
    case True
    with l m header_line_value [OF ok True] show ?thesis by (simp only: h) simp
  next
    case False
    with l m Cons show ?thesis by (simp only: h) simp
  qed
qed

lemma find_header_request:
  assumes "name \<noteq> []" "CHR 0x0D \<notin> set name" "\<forall>h \<in> set hs. header_ok name h" "CHR 0x0A \<notin> set line"
  shows "find_header_value (line @ crlf @ render_headers hs) name =
    map_option snd (find (\<lambda>h. same_name (fst h) name) hs)"
  using find_header_skip [of "line @ [CHR 0x0D]" "render_headers hs" name] assms(4)
    find_header_headers [OF assms(1-3)] by simp

subsection \<open>Live connections\<close>

text \<open>
  The accept loop and the detached threads: \<open>serving\<close> are the sockets whose threads have not
  counted themselves out yet.
\<close>

inductive http_step :: "'w os_api \<Rightarrow> http \<times> int list \<times> 'w \<Rightarrow> http \<times> int list \<times> 'w \<Rightarrow> bool"
  for os :: "'w os_api" where
  http_accept: "ht_running h \<Longrightarrow> accept_pass os client running h w = (r, h', w') \<Longrightarrow>
    http_step os (h, serving, w)
      (h', (case r of Accept_serve c \<Rightarrow> c # serving | _ \<Rightarrow> serving), w')"
| http_done: "c \<in> set serving \<Longrightarrow> http_step os (h, serving, w) (client_done h, remove1 c serving, w')"
| http_start: "osc_http_start os port h w = (ok, h', w') \<Longrightarrow> http_step os (h, serving, w) (h', serving, w')"
| http_stop: "osc_http_stop os h s = (h', s') \<Longrightarrow> http_step os (h, serving, w) (h', serving, w')"

inductive http_reachable :: "'w os_api \<Rightarrow> http \<times> int list \<times> 'w \<Rightarrow> bool" for os :: "'w os_api" where
  http_init: "http_reachable os (new_http, [], w)"
| http_next: "http_reachable os c \<Longrightarrow> http_step os c c' \<Longrightarrow> http_reachable os c'"

definition http_inv :: "http \<times> int list \<times> 'w \<Rightarrow> bool" where
  "http_inv c \<longleftrightarrow> (case c of (h, serving, w) \<Rightarrow>
     ht_live_clients h = int (length serving) \<and> length serving \<le> nat max_clients)"

lemma http_step_inv: "http_step os c c' \<Longrightarrow> http_inv c \<Longrightarrow> http_inv c'"
proof (induction rule: http_step.induct)
  case (http_accept h client running w r h' w' serving)
  then show ?case
    by (auto simp: http_inv_def accept_pass_def Let_def max_clients_def split: if_splits)
next
  case (http_done c serving h w w')
  then show ?case
    using length_pos_if_in_set [of c serving]
    by (auto simp: http_inv_def client_done_def length_remove1 of_nat_diff Suc_le_eq)
next
  case (http_start port h w ok h' w' serving)
  then show ?case
    by (auto simp: http_inv_def osc_http_start_def split: if_splits prod.splits)
next
  case (http_stop h s h' s' serving w w')
  then show ?case by (auto simp: http_inv_def osc_http_stop_def Let_def split: if_splits)
qed

lemma http_reachable_inv: "http_reachable os c \<Longrightarrow> http_inv c"
  by (induction rule: http_reachable.induct)
    (simp add: http_inv_def new_http_def, rule http_step_inv)

end
