(* ===== verification/OscBonjour.thy ===== *)
theory OscBonjour
  imports OscNet
begin

text \<open>
  The Bonjour advertisement of the OSCQuery service (\<^verbatim>\<open>osc-query-bonjour.h\<close>,
  \<^verbatim>\<open>osc-query-bonjour.cpp\<close>): \<^verbatim>\<open>bonjour_ref\<close> is a \<open>nat option\<close>, passed and returned.  The lemmas show
  that a registration that succeeded is kept until it is given back, and that one that failed
  leaves nothing behind.
\<close>

definition bonjour_name :: "'w dns_api \<Rightarrow> 'w \<Rightarrow> string" where
  "bonjour_name dns w =
     ''OBS Studio @ '' @ c_str (case dns_gethostname dns 127 w of None \<Rightarrow> ''OBS'' | Some host \<Rightarrow> take 127 host)"

text \<open>
  \<^verbatim>\<open>htons((uint16_t)http_port)\<close>.  A successful registration overwrites the handle, a failed one
  clears it.
\<close>

definition osc_bonjour_register :: "'w os_api \<Rightarrow> int \<Rightarrow> nat option \<Rightarrow> 'w \<Rightarrow> nat option \<times> 'w" where
  "osc_bonjour_register os http_port ref w =
     (case os_dns os of
        None \<Rightarrow> (ref, w)
      | Some dns \<Rightarrow>
          (case dns_register dns (bonjour_name dns w) ''_oscjson._tcp.'' (word_of_int http_port) w of
             (Inl err, w1) \<Rightarrow> (None, w1)
           | (Inr r, w1) \<Rightarrow> (Some r, w1)))"

definition osc_bonjour_unregister :: "'w os_api \<Rightarrow> nat option \<Rightarrow> 'w \<Rightarrow> nat option \<times> 'w" where
  "osc_bonjour_unregister os ref w =
     (case os_dns os of
        None \<Rightarrow> (ref, w)
      | Some dns \<Rightarrow>
          (case ref of None \<Rightarrow> (None, w) | Some r \<Rightarrow> (None, dns_deallocate dns r w)))"

subsection \<open>The registrations the responder holds\<close>

text \<open>
  \<open>live w\<close> are the handles registered and not yet deallocated, each with the port it advertises,
  as \<^verbatim>\<open>dns_sd.h\<close> documents the two calls: a registration adds a fresh handle, deallocating removes it.
\<close>

definition dns_contract :: "'w dns_api \<Rightarrow> ('w \<Rightarrow> (nat \<times> 16 word) list) \<Rightarrow> bool" where
  "dns_contract dns live \<longleftrightarrow>
     (\<forall>name type port w e w'. dns_register dns name type port w = (Inl e, w') \<longrightarrow> live w' = live w) \<and>
     (\<forall>name type port w r w'. dns_register dns name type port w = (Inr r, w') \<longrightarrow>
        r \<notin> fst ` set (live w) \<and> live w' = (r, port) # live w) \<and>
     (\<forall>r w. live (dns_deallocate dns r w) = filter (\<lambda>x. fst x \<noteq> r) (live w))"

text \<open>What the module accounts for: its handle's registration and nothing else.\<close>

definition advertised :: "nat option \<Rightarrow> 16 word \<Rightarrow> (nat \<times> 16 word) list" where
  "advertised ref port = (case ref of None \<Rightarrow> [] | Some r \<Rightarrow> [(r, port)])"

lemma register_advertises:
  assumes "os_dns os = Some dns" "dns_contract dns live" "live w = []"
    and "osc_bonjour_register os port ref w = (ref', w')"
  shows "live w' = advertised ref' (word_of_int port)"
  using assms unfolding dns_contract_def osc_bonjour_register_def advertised_def
  by (auto split: prod.splits sum.splits)

lemma unregister_withdraws:
  assumes "os_dns os = Some dns" "dns_contract dns live" "live w = advertised ref port"
    and "osc_bonjour_unregister os ref w = (ref', w')"
  shows "live w' = [] \<and> ref' = None"
  using assms unfolding dns_contract_def osc_bonjour_unregister_def advertised_def
  by (auto split: option.splits)

lemma bonjour_none [simp]:
  "os_dns os = None \<Longrightarrow> osc_bonjour_register os port ref w = (ref, w)"
  "os_dns os = None \<Longrightarrow> osc_bonjour_unregister os ref w = (ref, w)"
  by (simp_all add: osc_bonjour_register_def osc_bonjour_unregister_def)

lemma unregister_none: "osc_bonjour_unregister os None w = (None, w)"
  by (simp add: osc_bonjour_unregister_def split: option.splits)

lemma unregister_cleared: "osc_bonjour_unregister os ref w = (ref', w') \<Longrightarrow> ref' = None \<or> ref' = ref \<and> os_dns os = None"
  by (auto simp: osc_bonjour_unregister_def split: option.splits)

end
