(* ===== verification/OscQuery.thy ===== *)
theory OscQuery
  imports OscHttp OscBonjour
begin

text \<open>
  The configuration record (\<^verbatim>\<open>osc-plugin.h\<close>) and the OSCQuery service on top of the HTTP server
  (\<^verbatim>\<open>osc-query.h\<close>, \<^verbatim>\<open>osc-query.cpp\<close>): start, stop and restart, HOST_INFO and the request
  handler, and the advertisement over Bonjour while it runs.  The schema lookup is an argument
  here; \<open>OscSchema\<close> models it.
\<close>

subsection \<open>Configuration\<close>

record osc_config =
  cf_port :: int
  cf_feedback_enabled :: bool
  cf_feedback_host :: string
  cf_feedback_port :: int
  cf_query_enabled :: bool
  cf_query_port :: int

definition default_config :: osc_config where
  "default_config =
     \<lparr>cf_port = 9000, cf_feedback_enabled = True, cf_feedback_host = [], cf_feedback_port = 0,
      cf_query_enabled = True, cf_query_port = 0\<rparr>"

subsection \<open>The service\<close>

record query =
  qy_running :: bool
  qy_udp_port :: int
  qy_http :: http
  qy_bonjour :: "nat option"

text \<open>The statics of \<^verbatim>\<open>osc-query.cpp\<close>, the HTTP server's and \<^verbatim>\<open>bonjour_ref\<close>.\<close>

definition new_query :: query where
  "new_query = \<lparr>qy_running = False, qy_udp_port = 0, qy_http = new_http, qy_bonjour = None\<rparr>"

definition host_info_json :: "query \<Rightarrow> string" where
  "host_info_json q =
     ''{\"NAME\":\"OBS Studio\",\"PORT\":'' @ std_to_string (qy_udp_port q) @
     '',\"EXTENSIONS\":[\"SERVER\",\"LISTEN\"]}''"

definition handle_request :: "query \<Rightarrow> (string \<Rightarrow> 'w \<Rightarrow> string) \<Rightarrow> string \<Rightarrow> 'w \<Rightarrow> string" where
  "handle_request q lookup path w =
     (if path = ''/HOST_INFO'' then host_info_json q else lookup path w)"

definition osc_query_start :: "'w os_api \<Rightarrow> int \<Rightarrow> int \<Rightarrow> query \<Rightarrow> 'w \<Rightarrow> bool \<times> query \<times> 'w" where
  "osc_query_start os http_port osc_udp_port q w =
     (if qy_running q then (True, q, w)
      else
        let q1 = q\<lparr>qy_udp_port := osc_udp_port\<rparr>
        in case net_init os w of (ok, w1) \<Rightarrow>
          if \<not> ok then (False, q1, w1)
          else case osc_http_start os http_port (qy_http q1) w1 of (ok2, h, w2) \<Rightarrow>
            if \<not> ok2 then (False, q1\<lparr>qy_http := h\<rparr>, net_cleanup os w2)
            else case osc_bonjour_register os http_port (qy_bonjour q1) w2 of (ref, w3) \<Rightarrow>
              (True, q1\<lparr>qy_http := h, qy_running := True, qy_bonjour := ref\<rparr>, w3))"

definition osc_query_stop :: "'w os_api \<Rightarrow> query \<Rightarrow> 'w ws_state \<Rightarrow> query \<times> 'w ws_state" where
  "osc_query_stop os q s =
     (if \<not> qy_running q then (q, s)
      else case osc_http_stop os (qy_http q) s of (h, s1) \<Rightarrow>
        case osc_bonjour_unregister os (qy_bonjour q) (ws_world s1) of (ref, w2) \<Rightarrow>
          (q\<lparr>qy_running := False, qy_http := h, qy_bonjour := ref\<rparr>, s1\<lparr>ws_world := net_cleanup os w2\<rparr>))"

definition osc_query_restart ::
  "'w os_api \<Rightarrow> osc_config \<Rightarrow> query \<Rightarrow> 'w ws_state \<Rightarrow> bool \<times> query \<times> 'w ws_state" where
  "osc_query_restart os cfg q s =
     (case osc_query_stop os q s of (q1, s1) \<Rightarrow>
        if \<not> cf_query_enabled cfg then (True, q1, s1)
        else
          let http_port = (if cf_query_port cfg > 0 then cf_query_port cfg else cf_port cfg + 1)
          in case osc_query_start os http_port (cf_port cfg) q1 (ws_world s1) of (ok, q2, w2) \<Rightarrow>
            (ok, q2, s1\<lparr>ws_world := w2\<rparr>))"

subsection \<open>What the service reports\<close>

definition query_inv :: "query \<Rightarrow> bool" where
  "query_inv q \<longleftrightarrow> (qy_running q \<longleftrightarrow> ht_running (qy_http q))
     \<and> (ht_running (qy_http q) \<longleftrightarrow> ht_listen_fd (qy_http q) \<noteq> invalid_socket)"

lemma query_inv_new [simp]: "query_inv new_query"
  by (simp add: query_inv_def new_query_def new_http_def)

lemma query_inv_start:
  "query_inv q \<Longrightarrow> osc_query_start os hp up q w = (ok, q', w') \<Longrightarrow>
   query_inv q' \<and> (ok \<longleftrightarrow> qy_running q') \<and> (qy_running q \<or> qy_udp_port q' = up)"
  by (auto simp: query_inv_def osc_query_start_def osc_http_start_def Let_def
      split: if_splits prod.splits)

lemma query_inv_stop:
  "query_inv q \<Longrightarrow> osc_query_stop os q s = (q', s') \<Longrightarrow>
   query_inv q' \<and> \<not> qy_running q' \<and> qy_udp_port q' = qy_udp_port q"
  by (auto simp: query_inv_def osc_query_stop_def osc_http_stop_def Let_def
      split: if_splits prod.splits)

lemma query_restart:
  assumes "query_inv q" "osc_query_restart os cfg q s = (ok, q', s')"
  shows "query_inv q'" "qy_running q' \<longleftrightarrow> ok \<and> cf_query_enabled cfg"
    "cf_query_enabled cfg \<Longrightarrow> qy_udp_port q' = cf_port cfg"
    "\<not> cf_query_enabled cfg \<Longrightarrow> ok"
proof -
  obtain q1 s1 where st: "osc_query_stop os q s = (q1, s1)" by fastforce
  note q1 = query_inv_stop [OF assms(1) st]
  have "query_inv q' \<and> (qy_running q' \<longleftrightarrow> ok \<and> cf_query_enabled cfg) \<and>
    (cf_query_enabled cfg \<longrightarrow> qy_udp_port q' = cf_port cfg) \<and> (\<not> cf_query_enabled cfg \<longrightarrow> ok)"
  proof (cases "cf_query_enabled cfg")
    case False
    with assms(2) st q1 show ?thesis by (auto simp: osc_query_restart_def)
  next
    case True
    let ?p = "if cf_query_port cfg > 0 then cf_query_port cfg else cf_port cfg + 1"
    obtain ok' q2 w2 where r: "osc_query_start os ?p (cf_port cfg) q1 (ws_world s1) = (ok', q2, w2)"
      using prod_cases3 by blast
    with assms(2) st True have "ok = ok'" "q' = q2"
      by (auto simp: osc_query_restart_def Let_def)
    with query_inv_start [OF _ r] q1 True show ?thesis by auto
  qed
  then show "query_inv q'" "qy_running q' \<longleftrightarrow> ok \<and> cf_query_enabled cfg"
    "cf_query_enabled cfg \<Longrightarrow> qy_udp_port q' = cf_port cfg"
    "\<not> cf_query_enabled cfg \<Longrightarrow> ok"
    by blast+
qed

subsection \<open>The service and its advertisement\<close>

text \<open>Of the system calls, only the Bonjour ones change the registrations.\<close>

definition bonjour_frame :: "'w os_api \<Rightarrow> ('w \<Rightarrow> 'a) \<Rightarrow> bool" where
  "bonjour_frame os live \<longleftrightarrow>
     (\<forall>w. live (snd (net_init os w)) = live w) \<and> (\<forall>w. live (net_cleanup os w) = live w) \<and>
     (\<forall>t w. live (snd (os_socket os t w)) = live w) \<and> (\<forall>fd w. live (os_reuseaddr os fd w) = live w) \<and>
     (\<forall>fd port w. live (snd (os_bind os fd port w)) = live w) \<and>
     (\<forall>fd n w. live (snd (os_listen os fd n w)) = live w) \<and>
     (\<forall>fd w. live (os_shutdown os fd w) = live w) \<and> (\<forall>fd w. live (os_close os fd w) = live w)"

lemma bonjour_frameD:
  assumes "bonjour_frame os live"
  shows "net_init os w = (ok, w') \<Longrightarrow> live w' = live w" "live (net_cleanup os w) = live w"
    "live (close_socket os fd w) = live w" "live (close_wake os fd w) = live w"
    "listen_tcp os port backlog w = (fd, w') \<Longrightarrow> live w' = live w"
proof -
  note f = assms [unfolded bonjour_frame_def]
  show "net_init os w = (ok, w') \<Longrightarrow> live w' = live w" "live (net_cleanup os w) = live w"
    using f by (metis snd_conv)+
  show c: "live (close_socket os fd w) = live w" for fd w using f by (simp add: close_socket_def)
  show "live (close_wake os fd w) = live w" using f by (simp add: close_wake_def c)
  have b: "live (snd (bind_listen os port type backlog w)) = live w" for type
    using f by (simp add: bind_listen_def Let_def c case_prod_beta)
  show "listen_tcp os port backlog w = (fd, w') \<Longrightarrow> live w' = live w"
    using b [of SockStream] by (simp add: listen_tcp_def)
qed

lemma live_shutdown_all:
  assumes "bonjour_frame os live"
  shows "live (ws_world (shutdown_all os s)) = live (ws_world s)"
proof -
  have c: "live (ws_world (shutdown_conn os c s)) = live (ws_world s)" for c s
    by (simp add: shutdown_conn_def close_conn_def set_conn_def Let_def bonjour_frameD(4) [OF assms])
  have "live (ws_world (foldl (\<lambda>s c. shutdown_conn os c s) s cs)) = live (ws_world s)" for cs s
    by (induction cs arbitrary: s) (simp_all add: c)
  then show ?thesis by (simp add: shutdown_all_def)
qed

text \<open>
  The registrations are those of \<^verbatim>\<open>bonjour_ref\<close>, under the port the service was started on, and a
  stopped service has none.
\<close>

definition announced :: "('w \<Rightarrow> (nat \<times> 16 word) list) \<Rightarrow> int \<Rightarrow> query \<Rightarrow> 'w ws_state \<Rightarrow> bool" where
  "announced live port q s \<longleftrightarrow>
     live (ws_world s) = advertised (qy_bonjour q) (word_of_int port) \<and>
     (\<not> qy_running q \<longrightarrow> qy_bonjour q = None)"

lemma announced_stop:
  assumes "os_dns os = Some dns" "dns_contract dns live" "bonjour_frame os live"
    and "announced live port q s" "osc_query_stop os q s = (q', s')"
  shows "live (ws_world s') = [] \<and> qy_bonjour q' = None"
proof (cases "qy_running q")
  case True
  obtain h s1 where h: "osc_http_stop os (qy_http q) s = (h, s1)" by fastforce
  then have l: "live (ws_world s1) = live (ws_world s)"
    by (auto simp: osc_http_stop_def Let_def live_shutdown_all [OF assms(3)] bonjour_frameD(4) [OF assms(3)]
        split: if_splits)
  obtain ref w2 where u: "osc_bonjour_unregister os (qy_bonjour q) (ws_world s1) = (ref, w2)" by fastforce
  from unregister_withdraws [OF assms(1,2) _ u, of "word_of_int port"] l assms(4)
  have "live w2 = [] \<and> ref = None" by (simp add: announced_def)
  then show ?thesis
    using assms(5) True h u by (auto simp: osc_query_stop_def bonjour_frameD(2) [OF assms(3)])
next
  case False
  with assms(4,5) show ?thesis by (auto simp: osc_query_stop_def announced_def advertised_def)
qed

lemma announced_start:
  assumes "os_dns os = Some dns" "dns_contract dns live" "bonjour_frame os live"
    and "\<not> qy_running q" "qy_bonjour q = None" "live w = []"
    and "osc_query_start os port udp q w = (ok, q', w')"
  shows "live w' = advertised (qy_bonjour q') (word_of_int port) \<and> (\<not> qy_running q' \<longrightarrow> qy_bonjour q' = None)"
proof -
  obtain ok1 w1 where i: "net_init os w = (ok1, w1)" by fastforce
  obtain ok2 h w2 where t: "osc_http_start os port (qy_http q) w1 = (ok2, h, w2)" by (metis prod_cases3)
  obtain ref w3 where r: "osc_bonjour_register os port (qy_bonjour q) w2 = (ref, w3)" by fastforce
  have l1: "live w1 = []" using bonjour_frameD(1) [OF assms(3) i] assms(6) by simp
  then have l2: "live w2 = []"
    using t bonjour_frameD(5) [OF assms(3)] by (auto simp: osc_http_start_def split: if_splits prod.splits)
  from register_advertises [OF assms(1,2) l2 r] show ?thesis
    using assms(4,5,7) l1 l2 i t r
    by (auto simp: osc_query_start_def Let_def advertised_def bonjour_frameD(2) [OF assms(3)] split: if_splits)
qed

definition http_port_of :: "osc_config \<Rightarrow> int" where
  "http_port_of cfg = (if cf_query_port cfg > 0 then cf_query_port cfg else cf_port cfg + 1)"

lemma announced_restart:
  assumes "os_dns os = Some dns" "dns_contract dns live" "bonjour_frame os live"
    and "query_inv q" "announced live port q s" "osc_query_restart os cfg q s = (ok, q', s')"
  shows "announced live (http_port_of cfg) q' s'"
proof -
  obtain q1 s1 where st: "osc_query_stop os q s = (q1, s1)" by fastforce
  note a = announced_stop [OF assms(1-3,5) st]
  have r: "\<not> qy_running q1" using query_inv_stop [OF assms(4) st] by simp
  show ?thesis
  proof (cases "cf_query_enabled cfg")
    case False
    with assms(6) st a show ?thesis by (auto simp: osc_query_restart_def announced_def advertised_def)
  next
    case True
    obtain ok' q2 w2 where t: "osc_query_start os (http_port_of cfg) (cf_port cfg) q1 (ws_world s1) = (ok', q2, w2)"
      using prod_cases3 by blast
    have n: "qy_bonjour q1 = None" "live (ws_world s1) = []" using a by simp_all
    from announced_start [OF assms(1-3) r n t] show ?thesis
      using assms(6) st True t by (auto simp: osc_query_restart_def Let_def announced_def http_port_of_def)
  qed
qed

text \<open>Any number of restarts, each with the configuration of its moment.\<close>

definition query_restarts :: "'w os_api \<Rightarrow> osc_config list \<Rightarrow> query \<times> 'w ws_state \<Rightarrow> query \<times> 'w ws_state" where
  "query_restarts os cfgs c = foldl (\<lambda>(q, s) cfg. snd (osc_query_restart os cfg q s)) c cfgs"

lemma announced_restarts:
  assumes "os_dns os = Some dns" "dns_contract dns live" "bonjour_frame os live"
    and "query_inv q" "announced live port q s"
  shows "query_inv (fst (query_restarts os cfgs (q, s))) \<and>
    announced live (if cfgs = [] then port else http_port_of (last cfgs))
      (fst (query_restarts os cfgs (q, s))) (snd (query_restarts os cfgs (q, s)))"
  using assms(4,5)
proof (induction cfgs arbitrary: q s port)
  case (Cons cfg cfgs)
  obtain ok q1 s1 where r: "osc_query_restart os cfg q s = (ok, q1, s1)" using prod_cases3 by blast
  from Cons.IH [OF query_restart(1) [OF Cons.prems(1) r] announced_restart [OF assms(1-3) Cons.prems r]]
  show ?case by (cases cfgs) (simp_all add: query_restarts_def r)
qed (simp add: query_restarts_def)

end
