(* ===== verification/OscObs.thy ===== *)
theory OscObs
  imports OscMessage OscGlob
begin

text \<open>
  The interface of libobs and of the OBS frontend that the plugin calls.  None of it is part of
  the program: every function is a field of \<open>obs_api\<close>, on an abstract world \<open>'w\<close>, with objects
  as natural-number handles and settings objects as values of an abstract type \<open>'d\<close>.  The
  enumerations of libobs call a callback on each object until it returns \<^verbatim>\<open>false\<close>; a field
  holds the objects in that order and \<open>enum_until\<close> is the documented iteration.
  \<open>balanced\<close> states what the reference count documentation promises: a lookup takes one
  reference of the object it returns, a release gives one back, nothing else counts.
\<close>

datatype source_type = SourceInput | SourceFilter | SourceTransition | SourceScene

datatype property_type =
  PropBool | PropInt | PropFloat | PropText | PropPath | PropOther

record item_crop =
  crop_left :: int32
  crop_top :: int32
  crop_right :: int32
  crop_bottom :: int32

text \<open>Sources, scene items, filters, hotkeys.\<close>

record ('w, 'd) obs_api =
  ob_source_by_name :: "string \<Rightarrow> 'w \<Rightarrow> nat option \<times> 'w"
  ob_get_ref :: "nat \<Rightarrow> 'w \<Rightarrow> bool \<times> 'w"
  ob_release :: "nat \<Rightarrow> 'w \<Rightarrow> 'w"
  ob_type :: "nat \<Rightarrow> 'w \<Rightarrow> source_type"
  ob_name :: "nat \<Rightarrow> 'w \<Rightarrow> string"
  ob_muted :: "nat \<Rightarrow> 'w \<Rightarrow> bool"
  ob_set_muted :: "nat \<Rightarrow> bool \<Rightarrow> 'w \<Rightarrow> 'w"
  ob_volume :: "nat \<Rightarrow> 'w \<Rightarrow> f32"
  ob_set_volume :: "nat \<Rightarrow> f32 \<Rightarrow> 'w \<Rightarrow> 'w"
  ob_controllable_media :: "nat \<Rightarrow> 'w \<Rightarrow> bool"
  ob_enabled :: "nat \<Rightarrow> 'w \<Rightarrow> bool"
  ob_set_enabled :: "nat \<Rightarrow> bool \<Rightarrow> 'w \<Rightarrow> 'w"
  ob_showing :: "nat \<Rightarrow> 'w \<Rightarrow> bool"
  ob_source_active :: "nat \<Rightarrow> 'w \<Rightarrow> bool"
  ob_filters :: "nat \<Rightarrow> 'w \<Rightarrow> nat list"
  ob_media_state :: "nat \<Rightarrow> 'w \<Rightarrow> int32"
  ob_media_play_pause :: "nat \<Rightarrow> bool \<Rightarrow> 'w \<Rightarrow> 'w"
  ob_media_stop :: "nat \<Rightarrow> 'w \<Rightarrow> 'w"
  ob_media_restart :: "nat \<Rightarrow> 'w \<Rightarrow> 'w"
  ob_media_next :: "nat \<Rightarrow> 'w \<Rightarrow> 'w"
  ob_media_previous :: "nat \<Rightarrow> 'w \<Rightarrow> 'w"
  ob_sources :: "'w \<Rightarrow> nat list"
  ob_scenes :: "'w \<Rightarrow> nat list"
  ob_scene_items :: "nat \<Rightarrow> 'w \<Rightarrow> nat list"
  ob_item_source :: "nat \<Rightarrow> 'w \<Rightarrow> nat option"
  ob_item_visible :: "nat \<Rightarrow> 'w \<Rightarrow> bool"
  ob_set_item_visible :: "nat \<Rightarrow> bool \<Rightarrow> 'w \<Rightarrow> 'w"
  ob_item_locked :: "nat \<Rightarrow> 'w \<Rightarrow> bool"
  ob_set_item_locked :: "nat \<Rightarrow> bool \<Rightarrow> 'w \<Rightarrow> 'w"
  ob_item_order :: "nat \<Rightarrow> 'w \<Rightarrow> int32"
  ob_set_item_order :: "nat \<Rightarrow> int32 \<Rightarrow> 'w \<Rightarrow> 'w"
  ob_item_pos :: "nat \<Rightarrow> 'w \<Rightarrow> f32 \<times> f32"
  ob_set_item_pos :: "nat \<Rightarrow> f32 \<times> f32 \<Rightarrow> 'w \<Rightarrow> 'w"
  ob_item_scale :: "nat \<Rightarrow> 'w \<Rightarrow> f32 \<times> f32"
  ob_set_item_scale :: "nat \<Rightarrow> f32 \<times> f32 \<Rightarrow> 'w \<Rightarrow> 'w"
  ob_item_rot :: "nat \<Rightarrow> 'w \<Rightarrow> f32"
  ob_set_item_rot :: "nat \<Rightarrow> f32 \<Rightarrow> 'w \<Rightarrow> 'w"
  ob_item_crop :: "nat \<Rightarrow> 'w \<Rightarrow> item_crop"
  ob_set_item_crop :: "nat \<Rightarrow> item_crop \<Rightarrow> 'w \<Rightarrow> 'w"
  ob_properties :: "nat \<Rightarrow> 'w \<Rightarrow> (string \<times> property_type) list"
  ob_settings :: "nat \<Rightarrow> 'w \<Rightarrow> 'd"
  ob_update :: "nat \<Rightarrow> 'd \<Rightarrow> 'w \<Rightarrow> 'w"
  ob_hotkeys :: "'w \<Rightarrow> (nat \<times> string) list"
  ob_hotkey_trigger :: "nat \<Rightarrow> bool \<Rightarrow> 'w \<Rightarrow> 'w"

text \<open>
  Settings objects.  \<open>dt_float\<close> and \<open>dt_set_float\<close> are the accessors of \<^verbatim>\<open>double\<close> values with
  the conversions from and to \<^verbatim>\<open>float\<close> around them.
\<close>

record 'd data_api =
  dt_new :: 'd
  dt_parse :: "string \<Rightarrow> 'd option"
  dt_json :: "'d \<Rightarrow> string option"
  dt_bool :: "'d \<Rightarrow> string \<Rightarrow> bool"
  dt_int :: "'d \<Rightarrow> string \<Rightarrow> int"
  dt_float :: "'d \<Rightarrow> string \<Rightarrow> f32"
  dt_string :: "'d \<Rightarrow> string \<Rightarrow> string"
  dt_obj :: "'d \<Rightarrow> string \<Rightarrow> 'd option"
  dt_set_bool :: "'d \<Rightarrow> string \<Rightarrow> bool \<Rightarrow> 'd"
  dt_set_int :: "'d \<Rightarrow> string \<Rightarrow> int \<Rightarrow> 'd"
  dt_set_float :: "'d \<Rightarrow> string \<Rightarrow> f32 \<Rightarrow> 'd"
  dt_set_string :: "'d \<Rightarrow> string \<Rightarrow> string \<Rightarrow> 'd"
  dt_set_obj :: "'d \<Rightarrow> string \<Rightarrow> 'd option \<Rightarrow> 'd"
  dt_set_array :: "'d \<Rightarrow> string \<Rightarrow> 'd list \<Rightarrow> 'd"

text \<open>The frontend; a lookup of a current object takes a reference.\<close>

record 'w frontend_api =
  fe_current_scene :: "'w \<Rightarrow> nat option \<times> 'w"
  fe_current_preview :: "'w \<Rightarrow> nat option \<times> 'w"
  fe_current_transition :: "'w \<Rightarrow> nat option \<times> 'w"
  fe_transitions :: "'w \<Rightarrow> nat list"
  fe_set_scene :: "nat \<Rightarrow> 'w \<Rightarrow> 'w"
  fe_set_preview :: "nat \<Rightarrow> 'w \<Rightarrow> 'w"
  fe_set_transition :: "nat \<Rightarrow> 'w \<Rightarrow> 'w"
  fe_studio_active :: "'w \<Rightarrow> bool"
  fe_set_studio :: "bool \<Rightarrow> 'w \<Rightarrow> 'w"
  fe_trigger_transition :: "'w \<Rightarrow> 'w"
  fe_screenshot :: "'w \<Rightarrow> 'w"
  fe_profiles :: "'w \<Rightarrow> string list option"
  fe_current_profile :: "'w \<Rightarrow> string option"
  fe_set_profile :: "string \<Rightarrow> 'w \<Rightarrow> 'w"
  fe_collections :: "'w \<Rightarrow> string list option"
  fe_current_collection :: "'w \<Rightarrow> string option"
  fe_set_collection :: "string \<Rightarrow> 'w \<Rightarrow> 'w"
  fe_streaming_active :: "'w \<Rightarrow> bool"
  fe_streaming_start :: "'w \<Rightarrow> 'w"
  fe_streaming_stop :: "'w \<Rightarrow> 'w"
  fe_recording_active :: "'w \<Rightarrow> bool"
  fe_recording_start :: "'w \<Rightarrow> 'w"
  fe_recording_stop :: "'w \<Rightarrow> 'w"
  fe_recording_paused :: "'w \<Rightarrow> bool"
  fe_recording_pause :: "bool \<Rightarrow> 'w \<Rightarrow> 'w"
  fe_replay_active :: "'w \<Rightarrow> bool"
  fe_replay_start :: "'w \<Rightarrow> 'w"
  fe_replay_stop :: "'w \<Rightarrow> 'w"
  fe_replay_save :: "'w \<Rightarrow> 'w"
  fe_virtualcam_active :: "'w \<Rightarrow> bool"
  fe_virtualcam_start :: "'w \<Rightarrow> 'w"
  fe_virtualcam_stop :: "'w \<Rightarrow> 'w"

text \<open>The two functions of the C math library the standard leaves to the platform.\<close>

record libm =
  lm_log10 :: "f32 \<Rightarrow> f32"
  lm_pow :: "f32 \<Rightarrow> f32 \<Rightarrow> f32"
  lm_oor :: "f32 \<Rightarrow> int32"

subsection \<open>Enumeration\<close>

fun enum_until :: "(nat \<Rightarrow> 's \<Rightarrow> bool \<times> 's) \<Rightarrow> nat list \<Rightarrow> 's \<Rightarrow> 's" where
  "enum_until visit [] s = s"
| "enum_until visit (x # xs) s =
     (case visit x s of (go, s1) \<Rightarrow> if go then enum_until visit xs s1 else s1)"

lemma enum_until_inv:
  "(\<And>x s. P s \<Longrightarrow> P (snd (visit x s))) \<Longrightarrow> P s \<Longrightarrow> P (enum_until visit xs s)"
proof (induction xs arbitrary: s)
  case (Cons x xs)
  obtain go s1 where v: "visit x s = (go, s1)" by fastforce
  from Cons.prems(1) [OF Cons.prems(2), of x] have "P s1" by (simp add: v)
  with Cons.IH [OF Cons.prems(1), of s1] show ?case by (simp add: v)
qed simp

lemma enum_until_fold:
  "(\<And>x s. fst (visit x s)) \<Longrightarrow> enum_until visit xs s = foldl (\<lambda>s x. snd (visit x s)) s xs"
  by (induction xs arbitrary: s) (simp_all add: case_prod_beta)

subsection \<open>References\<close>

text \<open>
  \<open>refs w x\<close> is the number of references of \<open>x\<close> the plugin holds in world \<open>w\<close>.
\<close>

definition takes_ref :: "('w \<Rightarrow> nat \<Rightarrow> int) \<Rightarrow> ('w \<Rightarrow> nat option \<times> 'w) \<Rightarrow> bool" where
  "takes_ref refs f \<longleftrightarrow>
     (\<forall>w. (case f w of
         (None, w') \<Rightarrow> refs w' = refs w
       | (Some x, w') \<Rightarrow> refs w' = (refs w)(x := refs w x + 1)))"

definition keeps_refs :: "('w \<Rightarrow> nat \<Rightarrow> int) \<Rightarrow> ('w \<Rightarrow> 'w) \<Rightarrow> bool" where
  "keeps_refs refs f \<longleftrightarrow> (\<forall>w. refs (f w) = refs w)"

definition balanced_obs :: "('w \<Rightarrow> nat \<Rightarrow> int) \<Rightarrow> ('w, 'd) obs_api \<Rightarrow> bool" where
  "balanced_obs refs ob \<longleftrightarrow>
     (\<forall>n. takes_ref refs (ob_source_by_name ob n)) \<and>
     (\<forall>x w. (case ob_get_ref ob x w of
         (False, w') \<Rightarrow> refs w' = refs w
       | (True, w') \<Rightarrow> refs w' = (refs w)(x := refs w x + 1))) \<and>
     (\<forall>x w. refs (ob_release ob x w) = (refs w)(x := refs w x - 1)) \<and>
     (\<forall>x b. keeps_refs refs (ob_set_muted ob x b)) \<and>
     (\<forall>x v. keeps_refs refs (ob_set_volume ob x v)) \<and>
     (\<forall>x b. keeps_refs refs (ob_set_enabled ob x b)) \<and>
     (\<forall>x b. keeps_refs refs (ob_media_play_pause ob x b)) \<and>
     (\<forall>x. keeps_refs refs (ob_media_stop ob x)) \<and>
     (\<forall>x. keeps_refs refs (ob_media_restart ob x)) \<and>
     (\<forall>x. keeps_refs refs (ob_media_next ob x)) \<and>
     (\<forall>x. keeps_refs refs (ob_media_previous ob x)) \<and>
     (\<forall>x b. keeps_refs refs (ob_set_item_visible ob x b)) \<and>
     (\<forall>x b. keeps_refs refs (ob_set_item_locked ob x b)) \<and>
     (\<forall>x p. keeps_refs refs (ob_set_item_order ob x p)) \<and>
     (\<forall>x v. keeps_refs refs (ob_set_item_pos ob x v)) \<and>
     (\<forall>x v. keeps_refs refs (ob_set_item_scale ob x v)) \<and>
     (\<forall>x v. keeps_refs refs (ob_set_item_rot ob x v)) \<and>
     (\<forall>x v. keeps_refs refs (ob_set_item_crop ob x v)) \<and>
     (\<forall>x d. keeps_refs refs (ob_update ob x d)) \<and>
     (\<forall>x b. keeps_refs refs (ob_hotkey_trigger ob x b))"

definition balanced_frontend :: "('w \<Rightarrow> nat \<Rightarrow> int) \<Rightarrow> 'w frontend_api \<Rightarrow> bool" where
  "balanced_frontend refs fe \<longleftrightarrow>
     takes_ref refs (fe_current_scene fe) \<and> takes_ref refs (fe_current_preview fe) \<and>
     takes_ref refs (fe_current_transition fe) \<and>
     (\<forall>x. keeps_refs refs (fe_set_scene fe x)) \<and> (\<forall>x. keeps_refs refs (fe_set_preview fe x)) \<and>
     (\<forall>x. keeps_refs refs (fe_set_transition fe x)) \<and> (\<forall>b. keeps_refs refs (fe_set_studio fe b)) \<and>
     keeps_refs refs (fe_trigger_transition fe) \<and> keeps_refs refs (fe_screenshot fe) \<and>
     (\<forall>n. keeps_refs refs (fe_set_profile fe n)) \<and> (\<forall>n. keeps_refs refs (fe_set_collection fe n)) \<and>
     keeps_refs refs (fe_streaming_start fe) \<and> keeps_refs refs (fe_streaming_stop fe) \<and>
     keeps_refs refs (fe_recording_start fe) \<and> keeps_refs refs (fe_recording_stop fe) \<and>
     (\<forall>b. keeps_refs refs (fe_recording_pause fe b)) \<and>
     keeps_refs refs (fe_replay_start fe) \<and> keeps_refs refs (fe_replay_stop fe) \<and>
     keeps_refs refs (fe_replay_save fe) \<and>
     keeps_refs refs (fe_virtualcam_start fe) \<and> keeps_refs refs (fe_virtualcam_stop fe)"

lemma takes_refD:
  assumes "takes_ref refs f"
  shows "f w = (None, w') \<Longrightarrow> refs w' = refs w"
    and "f w = (Some x, w') \<Longrightarrow> refs w' = (refs w)(x := refs w x + 1)"
proof -
  have "case f w of (None, w') \<Rightarrow> refs w' = refs w
       | (Some x, w') \<Rightarrow> refs w' = (refs w)(x := refs w x + 1)"
    using assms unfolding takes_ref_def by (rule spec)
  then show "f w = (None, w') \<Longrightarrow> refs w' = refs w"
    "f w = (Some x, w') \<Longrightarrow> refs w' = (refs w)(x := refs w x + 1)" by simp_all
qed

end
