(* ===== verification/OscUtil.thy ===== *)
theory OscUtil
  imports OscObs
begin

text \<open>
  The shared helpers of \<^verbatim>\<open>osc-util.h\<close> and \<^verbatim>\<open>osc-util.cpp\<close> that touch libobs: lookup by name and
  type, the visitors over sources and scene items, the volume mapping and the table of
  scene-item transform fields.  A visitor works on a pair: what its callback accumulates, and
  the world.  Enumerations walk the objects present when they start.  The lemmas show which objects a
  visitor reaches, that it keeps references balanced, and the range of the volume mapping.
\<close>

subsection \<open>Lookup\<close>

definition osc_is_input :: "('w, 'd) obs_api \<Rightarrow> nat \<Rightarrow> 'w \<Rightarrow> bool" where
  "osc_is_input ob source w \<longleftrightarrow> ob_type ob source w = SourceInput"

definition osc_source_of_type ::
  "('w, 'd) obs_api \<Rightarrow> string \<Rightarrow> source_type \<Rightarrow> 'w \<Rightarrow> nat option \<times> 'w" where
  "osc_source_of_type ob name type w =
     (case ob_source_by_name ob name w of
        (None, w1) \<Rightarrow> (None, w1)
      | (Some source, w1) \<Rightarrow>
          (if ob_type ob source w1 \<noteq> type then (None, ob_release ob source w1)
           else (Some source, w1)))"

subsection \<open>Visitors\<close>

datatype source_kind = KindAny | KindInput | KindScene

definition type_ok :: "('w, 'd) obs_api \<Rightarrow> source_kind \<Rightarrow> nat \<Rightarrow> 'w \<Rightarrow> bool" where
  "type_ok ob kind source w =
     (case kind of
        KindInput \<Rightarrow> osc_is_input ob source w
      | KindScene \<Rightarrow> ob_type ob source w = SourceScene
      | KindAny \<Rightarrow> True)"

definition osc_visit_sources ::
  "('w, 'd) obs_api \<Rightarrow> string \<Rightarrow> source_kind \<Rightarrow> (nat \<Rightarrow> 'x \<times> 'w \<Rightarrow> bool \<times> 'x \<times> 'w) \<Rightarrow> 'x \<times> 'w \<Rightarrow> 'x \<times> 'w" where
  "osc_visit_sources ob pattern kind visit s =
     (if \<not> osc_has_wildcard (Some pattern) then
        (case ob_source_by_name ob pattern (snd s) of
           (None, w1) \<Rightarrow> (fst s, w1)
         | (Some source, w1) \<Rightarrow>
             (let s2 = (if type_ok ob kind source w1 then snd (visit source (fst s, w1)) else (fst s, w1))
              in (fst s2, ob_release ob source (snd s2))))
      else
        enum_until
          (\<lambda>source s. if type_ok ob kind source (snd s) \<and> osc_glob_match pattern (ob_name ob source (snd s))
                      then visit source s else (True, s))
          (ob_sources ob (snd s)) s)"

definition visit_item_cb ::
  "('w, 'd) obs_api \<Rightarrow> string option \<Rightarrow> string \<Rightarrow>
   (string \<Rightarrow> nat \<Rightarrow> 'x \<times> 'w \<Rightarrow> bool \<times> 'x \<times> 'w) \<Rightarrow> nat \<Rightarrow> 'x \<times> 'w \<Rightarrow> bool \<times> 'x \<times> 'w" where
  "visit_item_cb ob item_selector scene_name visit item s =
     (case ob_item_source ob item (snd s) of
        None \<Rightarrow> (True, s)
      | Some source \<Rightarrow>
          (if (case item_selector of None \<Rightarrow> False
               | Some sel \<Rightarrow> \<not> osc_selector_matches sel (ob_name ob source (snd s))
                              (nat (sint (ob_item_order ob item (snd s)) mod 2 ^ 64)))
           then (True, s)
           else visit scene_name item s))"

definition enum_items_of_scene ::
  "('w, 'd) obs_api \<Rightarrow> string option \<Rightarrow> (string \<Rightarrow> nat \<Rightarrow> 'x \<times> 'w \<Rightarrow> bool \<times> 'x \<times> 'w) \<Rightarrow> nat \<Rightarrow>
   'x \<times> 'w \<Rightarrow> 'x \<times> 'w" where
  "enum_items_of_scene ob item_selector visit scene s =
     enum_until (visit_item_cb ob item_selector (ob_name ob scene (snd s)) visit)
       (ob_scene_items ob scene (snd s)) s"

definition osc_visit_scene_items ::
  "('w, 'd) obs_api \<Rightarrow> string \<Rightarrow> string option \<Rightarrow>
   (string \<Rightarrow> nat \<Rightarrow> 'x \<times> 'w \<Rightarrow> bool \<times> 'x \<times> 'w) \<Rightarrow> 'x \<times> 'w \<Rightarrow> 'x \<times> 'w" where
  "osc_visit_scene_items ob scene_pattern item_selector visit s =
     (if \<not> osc_has_wildcard (Some scene_pattern) then
        (case ob_source_by_name ob scene_pattern (snd s) of
           (None, w1) \<Rightarrow> (fst s, w1)
         | (Some scene, w1) \<Rightarrow>
             (let s2 = (if ob_type ob scene w1 = SourceScene
                        then enum_items_of_scene ob item_selector visit scene (fst s, w1)
                        else (fst s, w1))
              in (fst s2, ob_release ob scene (snd s2))))
      else
        enum_until
          (\<lambda>scene s. if \<not> osc_glob_match scene_pattern (ob_name ob scene (snd s)) then (True, s)
                     else (True, enum_items_of_scene ob item_selector visit scene s))
          (ob_scenes ob (snd s)) s)"

definition osc_enum_transitions ::
  "'w frontend_api \<Rightarrow> (nat \<Rightarrow> 'x \<times> 'w \<Rightarrow> 'x \<times> 'w) \<Rightarrow> 'x \<times> 'w \<Rightarrow> 'x \<times> 'w" where
  "osc_enum_transitions fe cb s = foldl (\<lambda>s t. cb t s) s (fe_transitions fe (snd s))"

subsection \<open>Volume\<close>

definition f32_sixteen :: f32 where "f32_sixteen = 0x41800000"

definition osc_volume_multiplier :: "f32 \<Rightarrow> f32" where
  "osc_volume_multiplier position =
     (let p = (if f32_lt position f32_zero then f32_zero else position);
          p = (if f32_lt f32_one p then f32_one else p)
      in f32_mul p p)"

definition osc_volume_position :: "f32 \<Rightarrow> f32" where
  "osc_volume_position multiplier =
     (let m = (if f32_lt multiplier f32_zero then f32_zero else multiplier);
          m = (if f32_lt f32_sixteen m then f32_sixteen else m)
      in f32_sqrt m)"

subsection \<open>Transform fields\<close>

record ('w, 'd) transform_field =
  tf_name :: string
  tf_get :: "nat \<Rightarrow> 'w \<Rightarrow> f32"
  tf_set :: "nat \<Rightarrow> f32 \<Rightarrow> 'w \<Rightarrow> 'w"

definition field_pos_x :: "('w, 'd) obs_api \<Rightarrow> nat \<Rightarrow> 'w \<Rightarrow> f32" where
  "field_pos_x ob item w = fst (ob_item_pos ob item w)"

definition field_pos_x_set :: "('w, 'd) obs_api \<Rightarrow> nat \<Rightarrow> f32 \<Rightarrow> 'w \<Rightarrow> 'w" where
  "field_pos_x_set ob item value w = ob_set_item_pos ob item (value, snd (ob_item_pos ob item w)) w"

definition field_pos_y :: "('w, 'd) obs_api \<Rightarrow> nat \<Rightarrow> 'w \<Rightarrow> f32" where
  "field_pos_y ob item w = snd (ob_item_pos ob item w)"

definition field_pos_y_set :: "('w, 'd) obs_api \<Rightarrow> nat \<Rightarrow> f32 \<Rightarrow> 'w \<Rightarrow> 'w" where
  "field_pos_y_set ob item value w = ob_set_item_pos ob item (fst (ob_item_pos ob item w), value) w"

definition field_scale_x :: "('w, 'd) obs_api \<Rightarrow> nat \<Rightarrow> 'w \<Rightarrow> f32" where
  "field_scale_x ob item w = fst (ob_item_scale ob item w)"

definition field_scale_x_set :: "('w, 'd) obs_api \<Rightarrow> nat \<Rightarrow> f32 \<Rightarrow> 'w \<Rightarrow> 'w" where
  "field_scale_x_set ob item value w =
     ob_set_item_scale ob item (value, snd (ob_item_scale ob item w)) w"

definition field_scale_y :: "('w, 'd) obs_api \<Rightarrow> nat \<Rightarrow> 'w \<Rightarrow> f32" where
  "field_scale_y ob item w = snd (ob_item_scale ob item w)"

definition field_scale_y_set :: "('w, 'd) obs_api \<Rightarrow> nat \<Rightarrow> f32 \<Rightarrow> 'w \<Rightarrow> 'w" where
  "field_scale_y_set ob item value w =
     ob_set_item_scale ob item (fst (ob_item_scale ob item w), value) w"

definition field_rotation_get :: "('w, 'd) obs_api \<Rightarrow> nat \<Rightarrow> 'w \<Rightarrow> f32" where
  "field_rotation_get ob item w = ob_item_rot ob item w"

definition field_rotation_set :: "('w, 'd) obs_api \<Rightarrow> nat \<Rightarrow> f32 \<Rightarrow> 'w \<Rightarrow> 'w" where
  "field_rotation_set ob item value w = ob_set_item_rot ob item value w"

text \<open>The macro \<^verbatim>\<open>OSC_CROP_FIELD\<close>: a side of the crop as the selector and its update.\<close>

definition field_crop ::
  "(item_crop \<Rightarrow> int32) \<Rightarrow> ('w, 'd) obs_api \<Rightarrow> nat \<Rightarrow> 'w \<Rightarrow> f32" where
  "field_crop side ob item w = f32_of_int (sint (side (ob_item_crop ob item w)))"

definition field_crop_set ::
  "(int32 \<Rightarrow> item_crop \<Rightarrow> item_crop) \<Rightarrow> libm \<Rightarrow> ('w, 'd) obs_api \<Rightarrow> nat \<Rightarrow> f32 \<Rightarrow> 'w \<Rightarrow> 'w" where
  "field_crop_set upd lm ob item value w =
     ob_set_item_crop ob item (upd (f32_to_int32 (lm_oor lm) value) (ob_item_crop ob item w)) w"

definition osc_transform_fields ::
  "libm \<Rightarrow> ('w, 'd) obs_api \<Rightarrow> ('w, 'd) transform_field list" where
  "osc_transform_fields lm ob =
     [\<lparr>tf_name = ''x'', tf_get = field_pos_x ob, tf_set = field_pos_x_set ob\<rparr>,
      \<lparr>tf_name = ''y'', tf_get = field_pos_y ob, tf_set = field_pos_y_set ob\<rparr>,
      \<lparr>tf_name = ''sx'', tf_get = field_scale_x ob, tf_set = field_scale_x_set ob\<rparr>,
      \<lparr>tf_name = ''sy'', tf_get = field_scale_y ob, tf_set = field_scale_y_set ob\<rparr>,
      \<lparr>tf_name = ''rot'', tf_get = field_rotation_get ob, tf_set = field_rotation_set ob\<rparr>,
      \<lparr>tf_name = ''crop_left'', tf_get = field_crop crop_left ob,
       tf_set = field_crop_set (\<lambda>v c. c\<lparr>crop_left := v\<rparr>) lm ob\<rparr>,
      \<lparr>tf_name = ''crop_top'', tf_get = field_crop crop_top ob,
       tf_set = field_crop_set (\<lambda>v c. c\<lparr>crop_top := v\<rparr>) lm ob\<rparr>,
      \<lparr>tf_name = ''crop_right'', tf_get = field_crop crop_right ob,
       tf_set = field_crop_set (\<lambda>v c. c\<lparr>crop_right := v\<rparr>) lm ob\<rparr>,
      \<lparr>tf_name = ''crop_bottom'', tf_get = field_crop crop_bottom ob,
       tf_set = field_crop_set (\<lambda>v c. c\<lparr>crop_bottom := v\<rparr>) lm ob\<rparr>]"

subsection \<open>Visitors keep references balanced\<close>

lemma balanced_by_name:
  assumes "balanced_obs refs ob"
  shows "ob_source_by_name ob n w = (None, w') \<Longrightarrow> refs w' = refs w"
    and "ob_source_by_name ob n w = (Some x, w') \<Longrightarrow> refs w' = (refs w)(x := refs w x + 1)"
proof -
  have "takes_ref refs (ob_source_by_name ob n)" using assms by (simp add: balanced_obs_def)
  from takes_refD [OF this]
  show "ob_source_by_name ob n w = (None, w') \<Longrightarrow> refs w' = refs w"
    "ob_source_by_name ob n w = (Some x, w') \<Longrightarrow> refs w' = (refs w)(x := refs w x + 1)"
    by blast+
qed

lemma balanced_release:
  "balanced_obs refs ob \<Longrightarrow> refs (ob_release ob x w) = (refs w)(x := refs w x - 1)"
  by (simp add: balanced_obs_def)

lemma source_of_type_refs:
  assumes b: "balanced_obs refs ob"
  shows "osc_source_of_type ob n t w = (None, w') \<Longrightarrow> refs w' = refs w"
    and "osc_source_of_type ob n t w = (Some x, w') \<Longrightarrow> refs w' = (refs w)(x := refs w x + 1)"
  by (auto simp: osc_source_of_type_def balanced_release [OF b] fun_upd_idem
      dest: balanced_by_name [OF b] split: prod.splits option.splits if_splits)

definition keeps_refs_visit ::
  "('w \<Rightarrow> nat \<Rightarrow> int) \<Rightarrow> (nat \<Rightarrow> 'x \<times> 'w \<Rightarrow> bool \<times> 'x \<times> 'w) \<Rightarrow> bool" where
  "keeps_refs_visit refs visit \<longleftrightarrow> (\<forall>x s. refs (snd (snd (visit x s))) = refs (snd s))"

subsection \<open>What a walk over objects keeps\<close>

text \<open>
  The walks relate the state before to the state after by any relation that a visit respects,
  that is reflexive and transitive, and that looking an object up and giving it back respects.
\<close>

locale object_walk =
  fixes rel :: "'x \<times> 'w \<Rightarrow> 'x \<times> 'w \<Rightarrow> bool"
    and ob :: "('w, 'd) obs_api"
  assumes rel_refl: "rel s s"
    and rel_trans: "rel s s1 \<Longrightarrow> rel s1 s2 \<Longrightarrow> rel s s2"
    and rel_missing: "ob_source_by_name ob n (snd s) = (None, w1) \<Longrightarrow> rel s (fst s, w1)"
    and rel_release: "ob_source_by_name ob n (snd s) = (Some x, w1) \<Longrightarrow> rel (fst s, w1) s2 \<Longrightarrow>
      rel s (fst s2, ob_release ob x (snd s2))"
begin

lemma enum_rel: "(\<And>x s. rel s (snd (visit x s))) \<Longrightarrow> rel s (enum_until visit xs s)"
  by (rule enum_until_inv [of "rel s"]) (auto intro: rel_refl rel_trans)

lemma visit_sources_rel:
  assumes v: "\<And>x s. rel s (snd (visit x s))"
  shows "rel s (osc_visit_sources ob pattern kind visit s)"
proof (cases "osc_has_wildcard (Some pattern)")
  case True
  then show ?thesis
    by (simp add: osc_visit_sources_def) (rule enum_rel, simp add: v rel_refl)
next
  case False
  obtain r w1 where n: "ob_source_by_name ob pattern (snd s) = (r, w1)" by fastforce
  show ?thesis
  proof (cases r)
    case None
    with False n rel_missing show ?thesis by (simp add: osc_visit_sources_def)
  next
    case (Some x)
    with n have "rel s (fst s2, ob_release ob x (snd s2))" if "rel (fst s, w1) s2" for s2
      using rel_release that by blast
    with False n Some show ?thesis by (simp add: osc_visit_sources_def Let_def v rel_refl)
  qed
qed

lemma enum_items_rel:
  assumes v: "\<And>n x s. rel s (snd (visit n x s))"
  shows "rel s (enum_items_of_scene ob sel visit scene s)"
  unfolding enum_items_of_scene_def
  by (rule enum_rel) (simp add: visit_item_cb_def v rel_refl split: option.splits)

lemma visit_scene_items_rel:
  assumes v: "\<And>n x s. rel s (snd (visit n x s))"
  shows "rel s (osc_visit_scene_items ob pattern sel visit s)"
proof (cases "osc_has_wildcard (Some pattern)")
  case True
  then show ?thesis
    by (simp add: osc_visit_scene_items_def) (rule enum_rel, simp add: rel_refl enum_items_rel [OF v])
next
  case False
  obtain r w1 where n: "ob_source_by_name ob pattern (snd s) = (r, w1)" by fastforce
  show ?thesis
  proof (cases r)
    case None
    with False n rel_missing show ?thesis by (simp add: osc_visit_scene_items_def)
  next
    case (Some x)
    with n have "rel s (fst s2, ob_release ob x (snd s2))" if "rel (fst s, w1) s2" for s2
      using rel_release that by blast
    with False n Some show ?thesis
      by (simp add: osc_visit_scene_items_def Let_def rel_refl enum_items_rel [OF v])
  qed
qed

lemma source_of_type_rel:
  "osc_source_of_type ob n t (snd s) = (None, w1) \<Longrightarrow> rel s (fst s, w1)"
  "osc_source_of_type ob n t (snd s) = (Some x, w1) \<Longrightarrow> rel (fst s, w1) s2 \<Longrightarrow>
     rel s (fst s2, ob_release ob x (snd s2))"
  using rel_missing [of n s] rel_release [of n s] rel_release [OF _ rel_refl, of n s]
  by (auto simp: osc_source_of_type_def split: prod.splits option.splits if_splits)

end

text \<open>References that every visit keeps are kept by the walk.\<close>

interpretation refs_walk: object_walk
  "\<lambda>s s'. balanced_obs refs ob \<longrightarrow> refs (snd s') = refs (snd s)" ob for refs ob
proof (unfold_locales, goal_cases)
  case (3 n s w1)
  then show ?case by (auto dest: balanced_by_name(1))
next
  case (4 n s x w1 s2)
  show ?case
  proof
    assume b: "balanced_obs refs ob"
    from b 4(1) have "refs w1 = (refs (snd s))(x := refs (snd s) x + 1)" by (rule balanced_by_name(2))
    with 4(2) b show "refs (snd (fst s2, ob_release ob x (snd s2))) = refs (snd s)"
      by (simp add: balanced_release [OF b])
  qed
qed simp_all

lemma visit_sources_refs:
  assumes "balanced_obs refs ob" "keeps_refs_visit refs visit"
  shows "refs (snd (osc_visit_sources ob pattern kind visit s)) = refs (snd s)"
  by (rule refs_walk.visit_sources_rel [rule_format, OF _ assms(1)])
    (use assms(2) in \<open>simp add: keeps_refs_visit_def del: split_paired_All\<close>)

lemma visit_scene_items_refs:
  assumes "balanced_obs refs ob" "\<And>n. keeps_refs_visit refs (visit n)"
  shows "refs (snd (osc_visit_scene_items ob pattern sel visit s)) = refs (snd s)"
  by (rule refs_walk.visit_scene_items_rel [rule_format, OF _ assms(1)])
    (use assms(2) in \<open>simp add: keeps_refs_visit_def del: split_paired_All\<close>)

text \<open>A component of the state beside the world that no visit changes is not changed by the walk.\<close>

interpretation fst_walk: object_walk "\<lambda>s s'. fst s' = fst s" ob for ob
  by unfold_locales simp_all

subsection \<open>Transform fields\<close>

text \<open>What a scene item promises: a setter changes the part it names and nothing else.\<close>

definition item_laws :: "('w, 'd) obs_api \<Rightarrow> bool" where
  "item_laws ob \<longleftrightarrow>
     (\<forall>i v w. ob_item_pos ob i (ob_set_item_pos ob i v w) = v \<and>
        ob_item_scale ob i (ob_set_item_pos ob i v w) = ob_item_scale ob i w \<and>
        ob_item_rot ob i (ob_set_item_pos ob i v w) = ob_item_rot ob i w \<and>
        ob_item_crop ob i (ob_set_item_pos ob i v w) = ob_item_crop ob i w) \<and>
     (\<forall>i v w. ob_item_scale ob i (ob_set_item_scale ob i v w) = v \<and>
        ob_item_pos ob i (ob_set_item_scale ob i v w) = ob_item_pos ob i w \<and>
        ob_item_rot ob i (ob_set_item_scale ob i v w) = ob_item_rot ob i w \<and>
        ob_item_crop ob i (ob_set_item_scale ob i v w) = ob_item_crop ob i w) \<and>
     (\<forall>i v w. ob_item_rot ob i (ob_set_item_rot ob i v w) = v \<and>
        ob_item_pos ob i (ob_set_item_rot ob i v w) = ob_item_pos ob i w \<and>
        ob_item_scale ob i (ob_set_item_rot ob i v w) = ob_item_scale ob i w \<and>
        ob_item_crop ob i (ob_set_item_rot ob i v w) = ob_item_crop ob i w) \<and>
     (\<forall>i v w. ob_item_crop ob i (ob_set_item_crop ob i v w) = v \<and>
        ob_item_pos ob i (ob_set_item_crop ob i v w) = ob_item_pos ob i w \<and>
        ob_item_scale ob i (ob_set_item_crop ob i v w) = ob_item_scale ob i w \<and>
        ob_item_rot ob i (ob_set_item_crop ob i v w) = ob_item_rot ob i w)"

lemmas field_defs = field_pos_x_def field_pos_x_set_def field_pos_y_def field_pos_y_set_def
  field_scale_x_def field_scale_x_set_def field_scale_y_def field_scale_y_set_def
  field_rotation_get_def field_rotation_set_def field_crop_def field_crop_set_def

text \<open>The value a field reads back: crops hold whole numbers.\<close>

definition stored_value :: "libm \<Rightarrow> nat \<Rightarrow> f32 \<Rightarrow> f32" where
  "stored_value lm i v = (if i < 5 then v else f32_of_int (sint (f32_to_int32 (lm_oor lm) v)))"

lemma item_lawsD:
  assumes "item_laws ob"
  shows "ob_item_pos ob i (ob_set_item_pos ob i p w) = p"
    "ob_item_scale ob i (ob_set_item_pos ob i p w) = ob_item_scale ob i w"
    "ob_item_rot ob i (ob_set_item_pos ob i p w) = ob_item_rot ob i w"
    "ob_item_crop ob i (ob_set_item_pos ob i p w) = ob_item_crop ob i w"
    "ob_item_scale ob i (ob_set_item_scale ob i p w) = p"
    "ob_item_pos ob i (ob_set_item_scale ob i p w) = ob_item_pos ob i w"
    "ob_item_rot ob i (ob_set_item_scale ob i p w) = ob_item_rot ob i w"
    "ob_item_crop ob i (ob_set_item_scale ob i p w) = ob_item_crop ob i w"
    "ob_item_rot ob i (ob_set_item_rot ob i v w) = v"
    "ob_item_pos ob i (ob_set_item_rot ob i v w) = ob_item_pos ob i w"
    "ob_item_scale ob i (ob_set_item_rot ob i v w) = ob_item_scale ob i w"
    "ob_item_crop ob i (ob_set_item_rot ob i v w) = ob_item_crop ob i w"
    "ob_item_crop ob i (ob_set_item_crop ob i c w) = c"
    "ob_item_pos ob i (ob_set_item_crop ob i c w) = ob_item_pos ob i w"
    "ob_item_scale ob i (ob_set_item_crop ob i c w) = ob_item_scale ob i w"
    "ob_item_rot ob i (ob_set_item_crop ob i c w) = ob_item_rot ob i w"
  using assms unfolding item_laws_def by blast+

lemma field_index_cases:
  assumes "i < 9" "P 0" "P 1" "P 2" "P 3" "P 4" "P 5" "P 6" "P 7" "P (8 :: nat)"
  shows "P i"
proof -
  have "i = 0 \<or> i = 1 \<or> i = 2 \<or> i = 3 \<or> i = 4 \<or> i = 5 \<or> i = 6 \<or> i = 7 \<or> i = 8"
    using assms(1) by linarith
  then show ?thesis using assms(2-) by blast
qed

lemma transform_field_write:
  assumes "item_laws ob" "i < 9" "j < 9"
  shows "tf_get (osc_transform_fields lm ob ! j) item (tf_set (osc_transform_fields lm ob ! i) item v w) =
     (if i = j then stored_value lm i v else tf_get (osc_transform_fields lm ob ! j) item w)"
  by (rule field_index_cases [OF assms(2)]; rule field_index_cases [OF assms(3)];
      simp add: osc_transform_fields_def field_defs stored_value_def item_lawsD [OF assms(1)])

lemma length_transform_fields [simp]: "length (osc_transform_fields lm ob) = 9"
  by (simp add: osc_transform_fields_def)

lemma transform_field_refs:
  assumes "balanced_obs refs ob" "f \<in> set (osc_transform_fields lm ob)"
  shows "refs (tf_set f item v w) = refs w"
  using assms by (auto simp: osc_transform_fields_def field_defs balanced_obs_def keeps_refs_def)

subsection \<open>The volume mapping\<close>

lemma round_half_even_le:
  assumes "m \<le> d * 2 ^ k"
  shows "round_half_even m k \<le> d"
proof (cases "m div 2 ^ k = d")
  case True
  have "m mod 2 ^ k = m - m div 2 ^ k * 2 ^ k" by (rule modulo_nat_def)
  then have "m mod 2 ^ k = 0" using assms unfolding True by simp
  with True show ?thesis by (simp add: round_half_even_def Let_def)
next
  case False
  have "m div 2 ^ k \<le> d" using assms by (metis div_le_mono nonzero_mult_div_cancel_right power_not_zero zero_neq_numeral)
  with False show ?thesis by (simp add: round_half_even_def Let_def)
qed

lemma bit_length_le: "m < 2 ^ k \<Longrightarrow> bit_length m \<le> k"
proof (cases "m = 0")
  case True
  then show ?thesis by (simp add: bit_length.simps)
next
  case False
  assume "m < 2 ^ k"
  with bit_length_bounds [of m] False have "(2::nat) ^ (bit_length m - 1) < 2 ^ k" by linarith
  then show ?thesis by (simp add: Suc_le_eq)
qed

text \<open>Rounding a number of at most one gives at most one.\<close>

lemma round_le_one:
  assumes m: "m \<le> 2 ^ n" and n: "23 \<le> n" "n \<le> 298"
  shows "unat (f32_round False m (- int n)) \<le> unat f32_one"
proof (cases "m = 0")
  case True
  then show ?thesis by (simp add: f32_round_def f32_pack_def f32_one_def)
next
  case nz: False
  define L where "L = bit_length m"
  define q where "q = max (int L - int n - 24) (- 149)"
  define r where "r = (if q \<le> - int n then m * 2 ^ nat (- int n - q) else round_half_even m (nat (q + int n)))"
  have f: "f32_round False m (- int n) = f32_pack False (min (nat (q + 149) * 2 ^ 23 + r) (unat f32_inf))"
    using nz by (simp add: f32_round_def Let_def L_def q_def r_def algebra_simps)
  have mL: "m < 2 ^ L" "2 ^ (L - 1) \<le> m" using bit_length_bounds [of m] nz by (auto simp: L_def)
  have "nat (q + 149) * 2 ^ 23 + r \<le> 127 * 2 ^ 23"
  proof (cases "m = 2 ^ n")
    case True
    have "L = n + 1"
    proof (rule antisym)
      show "L \<le> n + 1" unfolding L_def by (rule bit_length_le) (simp add: True)
      have "(2::nat) ^ n < 2 ^ L" using mL(1) True by simp
      then show "n + 1 \<le> L" by simp
    qed
    then have q: "q = - 23" by (simp add: q_def)
    have "r \<le> 2 ^ 23"
    proof (cases "q \<le> - int n")
      case True
      then have "n = 23" using q n by simp
      then show ?thesis using \<open>m = 2 ^ n\<close> q by (simp add: r_def)
    next
      case False
      have "nat (q + int n) = n - 23" using q n by simp
      with False have "r = round_half_even m (n - 23)" by (simp add: r_def)
      moreover have "m \<le> 2 ^ 23 * 2 ^ (n - 23)"
        using True n power_add [of "2 :: nat" 23 "n - 23"] by simp
      ultimately show ?thesis by (metis round_half_even_le)
    qed
    then show ?thesis by (simp add: q)
  next
    case False
    then have "m < 2 ^ n" using m by simp
    then have Ln: "L \<le> n" unfolding L_def by (rule bit_length_le)
    then have q: "q \<le> - 24" using n by (simp add: q_def)
    have "r \<le> 2 ^ 24"
    proof (cases "q \<le> - int n")
      case True
      then have "int L - int n - 24 \<le> q" "q \<le> - int n" by (simp_all add: q_def)
      then have e: "L + nat (- int n - q) \<le> 24" by linarith
      have "r = m * 2 ^ nat (- int n - q)" using True by (simp add: r_def)
      also have "\<dots> \<le> 2 ^ L * 2 ^ nat (- int n - q)" using mL by simp
      also have "\<dots> = 2 ^ (L + nat (- int n - q))" by (simp add: power_add)
      also have "\<dots> \<le> 2 ^ 24" using e by (intro power_increasing) simp_all
      finally show ?thesis .
    next
      case False
      then have "r = round_half_even m (nat (q + int n))" by (simp add: r_def)
      moreover have "m \<le> 2 ^ 24 * 2 ^ nat (q + int n)"
      proof -
        have "int L - int n - 24 \<le> q" by (simp add: q_def)
        then have "L \<le> 24 + nat (q + int n)" using False by linarith
        then have "(2::nat) ^ L \<le> 2 ^ (24 + nat (q + int n))" by (intro power_increasing) simp_all
        then show ?thesis using mL by (simp add: power_add)
      qed
      ultimately show ?thesis by (metis round_half_even_le)
    qed
    moreover have "nat (q + 149) \<le> 125" using q by simp
    ultimately show ?thesis by simp
  qed
  then have le: "min (nat (q + 149) * 2 ^ 23 + r) (unat f32_inf) \<le> 127 * 2 ^ 23" by simp
  then have "unat (f32_round False m (- int n)) = min (nat (q + 149) * 2 ^ 23 + r) (unat f32_inf)"
    unfolding f f32_pack_def by (simp add: unsigned_of_nat take_bit_nat_eq_self)
  with le show ?thesis by (simp add: f32_one_def)
qed

lemma f32_fields:
  "unat (x :: f32) = (if f32_neg x then 2 ^ 31 else 0) + f32_exp x * 2 ^ 23 + f32_frac x"
proof -
  have u: "unat x < 4294967296" using unsigned_less [of x] by simp
  define a where "a = unat x div 8388608"
  define f where "f = unat x mod 8388608"
  define d where "d = unat x div 2147483648"
  have 1: "unat x = a * 8388608 + f" by (simp add: a_def f_def)
  have "d = a div 256" by (simp add: a_def d_def flip: div_mult2_eq)
  then have 2: "a = d * 256 + a mod 256" by simp
  have d: "d = (if f32_neg x then 1 else 0)"
    using u by (simp add: d_def f32_neg_def div_nat_eqI)
  have e: "f32_exp x = a mod 256" "f32_frac x = f" by (simp_all add: f32_exp_def f32_frac_def a_def f_def)
  show ?thesis
  proof (cases "f32_neg x")
    case True
    with d have "d = 1" by simp
    with 1 2 have "unat x = (256 + a mod 256) * 8388608 + f" by simp
    with True show ?thesis by (simp add: e algebra_simps)
  next
    case False
    with d have "d = 0" by simp
    with 1 2 have "unat x = (a mod 256) * 8388608 + f" by simp
    with False show ?thesis by (simp add: e)
  qed
qed

lemma f32_frac_less: "f32_frac x < 2 ^ 23"
  by (simp add: f32_frac_def)

text \<open>The floats between zero and one, by their fields.\<close>

lemma unit_interval_fields:
  assumes "unat x \<le> unat f32_one"
  shows "\<not> f32_neg x" "\<not> f32_is_nan x" "\<not> f32_is_inf x"
    "f32_mant x \<le> 2 ^ nat (- f32_scale x)" "- f32_scale x \<ge> 23" "- f32_scale x \<le> 149"
proof -
  have le: "unat x \<le> 127 * 2 ^ 23" using assms by (simp add: f32_one_def)
  then show neg: "\<not> f32_neg x" by (simp add: f32_neg_def)
  have u: "f32_exp x * 2 ^ 23 + f32_frac x \<le> 127 * 2 ^ 23"
    using le f32_fields [of x] neg by simp
  then have e: "f32_exp x \<le> 127" "f32_exp x = 127 \<longrightarrow> f32_frac x = 0" by simp_all
  then show "\<not> f32_is_nan x" "\<not> f32_is_inf x" by (auto simp: f32_is_nan_def f32_is_inf_def)
  show s: "- f32_scale x \<ge> 23" "- f32_scale x \<le> 149" using e by (auto simp: f32_scale_def)
  show "f32_mant x \<le> 2 ^ nat (- f32_scale x)"
  proof (cases "f32_exp x = 127")
    case True
    with e show ?thesis by (simp add: f32_mant_def f32_scale_def)
  next
    case False
    then have n: "24 \<le> nat (- f32_scale x)" using e by (auto simp: f32_scale_def)
    have "f32_mant x \<le> 2 ^ 24" using f32_frac_less [of x] by (simp add: f32_mant_def)
    also have "\<dots> \<le> 2 ^ nat (- f32_scale x)" using n by (intro power_increasing) simp_all
    finally show ?thesis .
  qed
qed

lemma square_unit_interval:
  assumes "unat x \<le> unat f32_one"
  shows "unat (f32_mul x x) \<le> unat f32_one"
proof -
  note x = unit_interval_fields [OF assms]
  let ?k = "nat (- f32_scale x)"
  have "f32_mant x * f32_mant x \<le> 2 ^ ?k * 2 ^ ?k" using x(4) by (rule mult_le_mono) (rule x(4))
  also have "\<dots> = 2 ^ (?k + ?k)" by (simp add: power_add)
  finally have "unat (f32_round False (f32_mant x * f32_mant x) (- int (?k + ?k))) \<le> unat f32_one"
    using x(5,6) by (intro round_le_one) auto
  moreover have "- int (?k + ?k) = f32_scale x + f32_scale x" using x(5) by simp
  ultimately show ?thesis using x(1-3) by (simp add: f32_mul_def)
qed

lemma clamped_unit:
  assumes "\<not> f32_is_nan p"
  shows "unat (let p = (if f32_lt p f32_zero then f32_zero else p)
               in if f32_lt f32_one p then f32_one else p) \<le> unat f32_one \<or>
    f32_mant p = 0 \<and> f32_exp p = 0"
proof -
  have u: "unat p < 2 ^ 32" using unsigned_less [of p] by simp
  have nan: "\<not> f32_is_nan f32_zero" "\<not> f32_is_nan f32_one" by (simp_all add: f32_is_nan_def f32_exp_def f32_frac_def f32_zero_def f32_one_def)
  have k: "f32_key f32_zero = 0" "f32_key f32_one = int (unat f32_one)"
    by (simp_all add: f32_key_def f32_neg_def f32_zero_def f32_one_def)
  have one: "unat f32_zero \<le> unat f32_one" by (simp add: f32_zero_def)
  consider (below) "f32_lt p f32_zero" | (neg0) "f32_neg p" "\<not> f32_lt p f32_zero" | (pos) "\<not> f32_neg p"
    by blast
  then show ?thesis
  proof cases
    case below
    have "\<not> f32_lt f32_one f32_zero" by (simp add: f32_lt_def k nan)
    with below one show ?thesis by (simp add: Let_def)
  next
    case neg0
    have "f32_key p = - int (unat p mod 2 ^ 31)" using neg0(1) by (simp only: f32_key_def if_True)
    moreover have "\<not> f32_key p < 0" using neg0(2) assms by (simp add: f32_lt_def nan k)
    ultimately have "unat p mod 2 ^ 31 = 0" by simp
    then obtain c where "unat p = 2 ^ 31 * c" by (metis dvdE mod_eq_0_iff_dvd)
    then have "unat p = 2 ^ 23 * (256 * c)" by simp
    then have "f32_exp p = 0" "f32_frac p = 0"
      by (simp_all only: f32_exp_def f32_frac_def) simp_all
    then show ?thesis by (simp add: f32_mant_def)
  next
    case pos
    then have kp: "f32_key p = int (unat p)" by (simp add: f32_key_def)
    then have z: "\<not> f32_lt p f32_zero" by (simp add: f32_lt_def k)
    show ?thesis
    proof (cases "f32_lt f32_one p")
      case True
      with z show ?thesis by (simp add: Let_def)
    next
      case False
      then have "unat p \<le> unat f32_one"
        using assms nan by (simp only: f32_lt_def k kp simp_thms of_nat_less_iff not_less)
      with z False show ?thesis by (simp add: Let_def)
    qed
  qed
qed

lemma volume_multiplier_range:
  assumes "\<not> f32_is_nan p"
  shows "unat (osc_volume_multiplier p) \<le> unat f32_one"
proof -
  let ?c = "let p = (if f32_lt p f32_zero then f32_zero else p) in if f32_lt f32_one p then f32_one else p"
  have m: "osc_volume_multiplier p = f32_mul ?c ?c" by (simp add: osc_volume_multiplier_def Let_def)
  from clamped_unit [OF assms] show ?thesis
  proof
    assume "unat ?c \<le> unat f32_one"
    then show ?thesis unfolding m by (rule square_unit_interval)
  next
    assume z: "f32_mant p = 0 \<and> f32_exp p = 0"
    have key: "f32_key p = 0"
    proof -
      have "f32_frac p = 0" using z by (auto simp: f32_mant_def)
      then have "unat p = (if f32_neg p then 2 ^ 31 else 0)" using z f32_fields [of p] by simp
      then show ?thesis by (cases "f32_neg p") (simp_all add: f32_key_def)
    qed
    then have "\<not> f32_lt p f32_zero" "\<not> f32_lt f32_one p"
      by (simp_all add: f32_lt_def f32_key_def f32_neg_def f32_zero_def f32_one_def)
    then have "osc_volume_multiplier p = f32_mul p p" by (simp add: osc_volume_multiplier_def Let_def)
    also have "\<dots> = f32_pack False 0"
      using z assms by (simp add: f32_mul_def f32_is_inf_def f32_round_def)
    finally show ?thesis by (simp add: f32_pack_def)
  qed
qed

lemma volume_multiplier_nan: "f32_is_nan p \<Longrightarrow> osc_volume_multiplier p = f32_nan"
  by (simp add: osc_volume_multiplier_def f32_lt_def f32_mul_def Let_def)

end
