(* ===== verification/OscFeedback.thy ===== *)
theory OscFeedback
  imports OscQuery OscUtil "HOL-Library.AList"
begin

text \<open>
  The state of the plugin and its outgoing side (\<^verbatim>\<open>osc-feedback.cpp\<close>, \<^verbatim>\<open>osc_publish\<close> of
  \<^verbatim>\<open>osc-subscribe.cpp\<close>): the gate in front of the receivers, the fan-out, the throttle, the
  signal callbacks, the table of filter hooks and the frontend events.  A signal callback is a
  function of what its \<^verbatim>\<open>calldata\<close> holds (\<open>None\<close> for a missing entry).  Names of live sources
  are never null, so the null tests on them have no counterpart here.
\<close>

subsection \<open>State\<close>

record filter_hook_entry =
  fh_parent :: nat
  fh_filter :: nat

record 'w plugin =
  pl_config :: osc_config
  pl_server :: server
  pl_ws :: "'w ws_state"
  pl_query :: query
  pl_last_sent :: "(string \<times> int) list"
  pl_filter_hooks :: "filter_hook_entry list"

text \<open>
  The callbacks the plugin registers, and the signal functions of libobs: \<open>None\<close> as handler is
  the global one, \<open>None\<close> as parameter the null pointer.
\<close>

datatype signal_callback =
  MuteSignal | VolumeSignal | MediaSignal | ActivateSignal | DeactivateSignal | ShowSignal |
  HideSignal | FilterAddSignal | FilterRemoveSignal | ItemVisibleSignal | ItemLockedSignal |
  SceneReorderSignal | ItemTransformSignal | FilterEnableSignal | SourceCreate | SourceDestroy

type_synonym connection = "nat option \<times> string \<times> signal_callback \<times> nat option"

record 'w signal_api =
  sg_connect :: "connection \<Rightarrow> 'w \<Rightarrow> 'w"
  sg_disconnect :: "connection \<Rightarrow> 'w \<Rightarrow> 'w"
  sg_add_event_callback :: "'w \<Rightarrow> 'w"
  sg_remove_event_callback :: "'w \<Rightarrow> 'w"

text \<open>Everything outside the program, in one record.\<close>

record ('w, 'd) env =
  en_os :: "'w os_api"
  en_obs :: "('w, 'd) obs_api"
  en_fe :: "'w frontend_api"
  en_sig :: "'w signal_api"
  en_data :: "'d data_api"
  en_lm :: libm
  en_ws :: "'d ws_env"

definition world :: "'w plugin \<Rightarrow> 'w" where
  "world p = ws_world (pl_ws p)"

definition set_world :: "'w \<Rightarrow> 'w plugin \<Rightarrow> 'w plugin" where
  "set_world w p = p\<lparr>pl_ws := (pl_ws p)\<lparr>ws_world := w\<rparr>\<rparr>"

definition on_world :: "('w \<Rightarrow> 'w) \<Rightarrow> 'w plugin \<Rightarrow> 'w plugin" where
  "on_world f p = set_world (f (world p)) p"

abbreviation registry_of :: "'w plugin \<Rightarrow> registry" where
  "registry_of p \<equiv> ws_reg (pl_ws p)"

subsection \<open>Fan-out\<close>

definition osc_publish :: "('w, 'd) env \<Rightarrow> string \<Rightarrow> bytes \<Rightarrow> 'w plugin \<Rightarrow> int \<times> 'w plugin" where
  "osc_publish en addr data p =
     (let targets = publish_targets addr (subscribers (registry_of p));
          peers = publish_peers addr (listeners (registry_of p));
          p1 = p\<lparr>pl_server := foldl (\<lambda>s ep. send_to data ep s) (pl_server p) targets\<rparr>;
          p2 = p1\<lparr>pl_ws := foldl (\<lambda>s peer. send_binary (en_os en) peer data s) (pl_ws p1) peers\<rparr>
      in (int (length targets), p2))"

definition osc_feedback_send ::
  "('w, 'd) env \<Rightarrow> string \<Rightarrow> osc_argument list \<Rightarrow> 'w plugin \<Rightarrow> 'w plugin" where
  "osc_feedback_send en addr as p =
     (if \<not> cf_feedback_enabled (pl_config p) then p
      else
        let have_subscribers = osc_has_subscribers (registry_of p)
        in if \<not> have_subscribers \<and> \<not> has_fixed_target (pl_server p) \<and> \<not> has_last_sender (pl_server p)
           then p
           else
             let buf = osc_build_message [] addr as;
                 p1 = snd (osc_publish en addr buf p);
                 p2 = (if has_fixed_target (pl_server p1)
                       then p1\<lparr>pl_server := send_fixed buf (pl_server p1)\<rparr> else p1)
             in if \<not> have_subscribers \<and> has_last_sender (pl_server p2)
                then p2\<lparr>pl_server := send_last buf (pl_server p2)\<rparr> else p2)"

definition send_source_name :: "('w, 'd) env \<Rightarrow> string \<Rightarrow> nat option \<Rightarrow> 'w plugin \<Rightarrow> 'w plugin" where
  "send_source_name en addr source p =
     (case source of
        None \<Rightarrow> p
      | Some x \<Rightarrow>
          on_world (ob_release (en_obs en) x)
            (osc_feedback_send en addr [osc_str (ob_name (en_obs en) x (world p))] p))"

subsection \<open>Throttling\<close>

text \<open>Times are nanoseconds of \<^verbatim>\<open>steady_clock\<close>; \<open>now\<close> is what the clock returns.\<close>

definition prune_at :: nat where "prune_at = 256"
definition stale_after :: int where "stale_after = 5000000000"

definition throttled :: "int \<Rightarrow> string \<Rightarrow> int \<Rightarrow> (string \<times> int) list \<Rightarrow> bool \<times> (string \<times> int) list" where
  "throttled now key ms last_sent =
     (let m = (if prune_at \<le> length last_sent
               then filter (\<lambda>(k, t). \<not> now - t > stale_after) last_sent else last_sent)
      in case map_of m key of
           Some t \<Rightarrow> (if now - t < ms * 1000000 then (True, m) else (False, AList.update key now m))
         | None \<Rightarrow> (False, AList.update key now m))"

definition throttle :: "int \<Rightarrow> string \<Rightarrow> int \<Rightarrow> 'w plugin \<Rightarrow> bool \<times> 'w plugin" where
  "throttle now key ms p =
     (case throttled now key ms (pl_last_sent p) of (t, m) \<Rightarrow> (t, p\<lparr>pl_last_sent := m\<rparr>))"

subsection \<open>Source signals\<close>

definition osc_bool :: "bool \<Rightarrow> osc_argument" where
  "osc_bool b = osc_int (if b then 1 else 0)"

definition mute_signal_cb :: "('w, 'd) env \<Rightarrow> nat \<Rightarrow> bool option \<Rightarrow> 'w plugin \<Rightarrow> 'w plugin" where
  "mute_signal_cb en source muted p =
     (let muted = (case muted of Some b \<Rightarrow> b | None \<Rightarrow> False)
      in osc_feedback_send en (mute_for (ob_name (en_obs en) source (world p))) [osc_bool muted] p)"

definition volume_signal_cb ::
  "('w, 'd) env \<Rightarrow> int \<Rightarrow> nat \<Rightarrow> f32 option \<Rightarrow> 'w plugin \<Rightarrow> 'w plugin" where
  "volume_signal_cb en now source volume p =
     (case volume of
        None \<Rightarrow> p
      | Some v \<Rightarrow>
          let name = ob_name (en_obs en) source (world p)
          in case throttle now name 33 p of (t, p1) \<Rightarrow>
            if t then p1
            else osc_feedback_send en (volume_for name) [osc_flt (osc_volume_position v)] p1)"

definition media_signal_cb :: "('w, 'd) env \<Rightarrow> nat \<Rightarrow> 'w plugin \<Rightarrow> 'w plugin" where
  "media_signal_cb en source p =
     osc_feedback_send en (media_state_for (ob_name (en_obs en) source (world p)))
       [osc_int (ob_media_state (en_obs en) source (world p))] p"

definition send_bool_feedback :: "('w, 'd) env \<Rightarrow> string \<Rightarrow> int32 \<Rightarrow> 'w plugin \<Rightarrow> 'w plugin" where
  "send_bool_feedback en addr value p = osc_feedback_send en addr [osc_int value] p"

definition activate_signal_cb :: "('w, 'd) env \<Rightarrow> nat \<Rightarrow> 'w plugin \<Rightarrow> 'w plugin" where
  "activate_signal_cb en source p =
     send_bool_feedback en (prefixed active_prefix (ob_name (en_obs en) source (world p))) 1 p"

definition deactivate_signal_cb :: "('w, 'd) env \<Rightarrow> nat \<Rightarrow> 'w plugin \<Rightarrow> 'w plugin" where
  "deactivate_signal_cb en source p =
     send_bool_feedback en (prefixed active_prefix (ob_name (en_obs en) source (world p))) 0 p"

definition show_signal_cb :: "('w, 'd) env \<Rightarrow> nat \<Rightarrow> 'w plugin \<Rightarrow> 'w plugin" where
  "show_signal_cb en source p =
     send_bool_feedback en (prefixed showing_prefix (ob_name (en_obs en) source (world p))) 1 p"

definition hide_signal_cb :: "('w, 'd) env \<Rightarrow> nat \<Rightarrow> 'w plugin \<Rightarrow> 'w plugin" where
  "hide_signal_cb en source p =
     send_bool_feedback en (prefixed showing_prefix (ob_name (en_obs en) source (world p))) 0 p"

subsection \<open>Scene item signals\<close>

text \<open>The source of the item in the calldata: \<open>item\<close> is missing, null, or a handle.\<close>

definition signal_item_source ::
  "('w, 'd) env \<Rightarrow> nat option option \<Rightarrow> 'w plugin \<Rightarrow> (nat \<times> nat) option" where
  "signal_item_source en item p =
     (case item of
        Some (Some i) \<Rightarrow> map_option (\<lambda>s. (i, s)) (ob_item_source (en_obs en) i (world p))
      | _ \<Rightarrow> None)"

definition item_flag_cb ::
  "(string \<Rightarrow> string \<Rightarrow> string) \<Rightarrow> ('w, 'd) env \<Rightarrow> nat \<Rightarrow> nat option option \<Rightarrow> bool option \<Rightarrow>
   'w plugin \<Rightarrow> 'w plugin" where
  "item_flag_cb addr_for en scene_source item flag p =
     (case signal_item_source en item p of
        None \<Rightarrow> p
      | Some (i, source) \<Rightarrow>
          send_bool_feedback en
            (addr_for (ob_name (en_obs en) scene_source (world p)) (ob_name (en_obs en) source (world p)))
            (if flag = Some True then 1 else 0) p)"

definition item_visible_signal_cb ::
  "('w, 'd) env \<Rightarrow> nat \<Rightarrow> nat option option \<Rightarrow> bool option \<Rightarrow> 'w plugin \<Rightarrow> 'w plugin" where
  "item_visible_signal_cb = item_flag_cb visible_for"

definition item_locked_signal_cb ::
  "('w, 'd) env \<Rightarrow> nat \<Rightarrow> nat option option \<Rightarrow> bool option \<Rightarrow> 'w plugin \<Rightarrow> 'w plugin" where
  "item_locked_signal_cb = item_flag_cb locked_for"

definition send_item_transform_feedback ::
  "('w, 'd) env \<Rightarrow> string \<Rightarrow> string \<Rightarrow> nat \<Rightarrow> 'w plugin \<Rightarrow> 'w plugin" where
  "send_item_transform_feedback en scene_name item_name item p =
     foldl (\<lambda>p f. osc_feedback_send en (transform_for scene_name item_name (tf_name f))
                    [osc_flt (tf_get f item (world p))] p)
       p (osc_transform_fields (en_lm en) (en_obs en))"

definition item_transform_signal_cb ::
  "('w, 'd) env \<Rightarrow> int \<Rightarrow> nat \<Rightarrow> nat option option \<Rightarrow> 'w plugin \<Rightarrow> 'w plugin" where
  "item_transform_signal_cb en now scene_source item p =
     (case signal_item_source en item p of
        None \<Rightarrow> p
      | Some (i, source) \<Rightarrow>
          let scene_name = ob_name (en_obs en) scene_source (world p);
              item_name = ob_name (en_obs en) source (world p)
          in case throttle now (scene_name @ ''/'' @ item_name) 100 p of (t, p1) \<Rightarrow>
            if t then p1 else send_item_transform_feedback en scene_name item_name i p1)"

definition reorder_report_cb ::
  "('w, 'd) env \<Rightarrow> string \<Rightarrow> nat \<Rightarrow> 'w plugin \<Rightarrow> bool \<times> 'w plugin" where
  "reorder_report_cb en scene_name item p =
     (case ob_item_source (en_obs en) item (world p) of
        None \<Rightarrow> (True, p)
      | Some source \<Rightarrow>
          (True, send_bool_feedback en (order_for scene_name (ob_name (en_obs en) source (world p)))
                   (ob_item_order (en_obs en) item (world p)) p))"

definition scene_reorder_signal_cb :: "('w, 'd) env \<Rightarrow> int \<Rightarrow> nat \<Rightarrow> 'w plugin \<Rightarrow> 'w plugin" where
  "scene_reorder_signal_cb en now scene_source p =
     (let name = ob_name (en_obs en) scene_source (world p)
      in case throttle now name 100 p of (t, p1) \<Rightarrow>
        if t then p1
        else enum_until (reorder_report_cb en name) (ob_scene_items (en_obs en) scene_source (world p1)) p1)"

subsection \<open>Filter hooks\<close>

definition filter_enable_signal_cb ::
  "('w, 'd) env \<Rightarrow> nat \<Rightarrow> nat option \<Rightarrow> bool option \<Rightarrow> 'w plugin \<Rightarrow> 'w plugin" where
  "filter_enable_signal_cb en parent filter_opt enabled p =
     (case filter_opt of
        None \<Rightarrow> p
      | Some f \<Rightarrow>
          send_bool_feedback en
            (filter_for (ob_name (en_obs en) parent (world p)) (ob_name (en_obs en) f (world p)))
            (if enabled = Some True then 1 else 0) p)"

definition enable_connection :: "nat \<Rightarrow> nat \<Rightarrow> connection" where
  "enable_connection parent f = (Some f, ''enable'', FilterEnableSignal, Some parent)"

definition hook_filter :: "('w, 'd) env \<Rightarrow> nat \<Rightarrow> nat option \<Rightarrow> 'w plugin \<Rightarrow> 'w plugin" where
  "hook_filter en parent filter_opt p =
     (case filter_opt of
        None \<Rightarrow> p
      | Some f \<Rightarrow>
          (if \<exists>entry \<in> set (pl_filter_hooks p). fh_parent entry = parent \<and> fh_filter entry = f then p
           else case ob_get_ref (en_obs en) f (world p) of (ok, w1) \<Rightarrow>
             if \<not> ok then set_world w1 p
             else (set_world (sg_connect (en_sig en) (enable_connection parent f) w1) p)
                    \<lparr>pl_filter_hooks := pl_filter_hooks p @ [\<lparr>fh_parent = parent, fh_filter = f\<rparr>]\<rparr>))"

definition drop_hook_at :: "('w, 'd) env \<Rightarrow> nat \<Rightarrow> 'w plugin \<Rightarrow> 'w plugin" where
  "drop_hook_at en index p =
     (let entry = pl_filter_hooks p ! index
      in (on_world (\<lambda>w. ob_release (en_obs en) (fh_filter entry)
                         (sg_disconnect (en_sig en) (enable_connection (fh_parent entry) (fh_filter entry)) w)) p)
          \<lparr>pl_filter_hooks := take index (pl_filter_hooks p) @ drop (index + 1) (pl_filter_hooks p)\<rparr>)"

function unhook_filter_from :: "('w, 'd) env \<Rightarrow> nat \<Rightarrow> nat \<Rightarrow> nat \<Rightarrow> 'w plugin \<Rightarrow> 'w plugin" where
  "unhook_filter_from en parent f i p =
     (if i < length (pl_filter_hooks p) then
        (if fh_parent (pl_filter_hooks p ! i) = parent \<and> fh_filter (pl_filter_hooks p ! i) = f
         then drop_hook_at en i p
         else unhook_filter_from en parent f (i + 1) p)
      else p)"
  by pat_completeness auto
termination
  by (relation "measure (\<lambda>(en, parent, f, i, p). length (pl_filter_hooks p) - i)") auto

declare unhook_filter_from.simps [simp del]

definition unhook_filter :: "('w, 'd) env \<Rightarrow> nat \<Rightarrow> nat \<Rightarrow> 'w plugin \<Rightarrow> 'w plugin" where
  "unhook_filter en parent f p = unhook_filter_from en parent f 0 p"

fun unhook_parent_from :: "('w, 'd) env \<Rightarrow> nat \<Rightarrow> nat \<Rightarrow> 'w plugin \<Rightarrow> 'w plugin" where
  "unhook_parent_from en parent 0 p = p"
| "unhook_parent_from en parent (Suc i) p =
     unhook_parent_from en parent i
       (if fh_parent (pl_filter_hooks p ! i) = parent then drop_hook_at en i p else p)"

definition unhook_filters_of_parent :: "('w, 'd) env \<Rightarrow> nat \<Rightarrow> 'w plugin \<Rightarrow> 'w plugin" where
  "unhook_filters_of_parent en parent p = unhook_parent_from en parent (length (pl_filter_hooks p)) p"

definition filter_add_signal_cb :: "('w, 'd) env \<Rightarrow> nat \<Rightarrow> nat option option \<Rightarrow> 'w plugin \<Rightarrow> 'w plugin" where
  "filter_add_signal_cb en parent f p = (case f of None \<Rightarrow> p | Some f \<Rightarrow> hook_filter en parent f p)"

definition filter_remove_signal_cb :: "('w, 'd) env \<Rightarrow> nat \<Rightarrow> nat option \<Rightarrow> 'w plugin \<Rightarrow> 'w plugin" where
  "filter_remove_signal_cb en parent f p =
     (case f of None \<Rightarrow> p | Some f \<Rightarrow> unhook_filter en parent f p)"

definition hook_existing_filters :: "('w, 'd) env \<Rightarrow> nat \<Rightarrow> 'w plugin \<Rightarrow> 'w plugin" where
  "hook_existing_filters en source p =
     foldl (\<lambda>p f. hook_filter en source (Some f) p) p (ob_filters (en_obs en) source (world p))"

definition input_hooks :: "(string \<times> signal_callback) list" where
  "input_hooks =
     [(''mute'', MuteSignal), (''volume'', VolumeSignal), (''media_play'', MediaSignal),
      (''media_pause'', MediaSignal), (''media_restart'', MediaSignal),
      (''media_stopped'', MediaSignal), (''media_next'', MediaSignal),
      (''media_previous'', MediaSignal), (''activate'', ActivateSignal),
      (''deactivate'', DeactivateSignal), (''show'', ShowSignal), (''hide'', HideSignal),
      (''filter_add'', FilterAddSignal), (''filter_remove'', FilterRemoveSignal)]"

definition scene_hooks :: "(string \<times> signal_callback) list" where
  "scene_hooks =
     [(''item_visible'', ItemVisibleSignal), (''item_locked'', ItemLockedSignal),
      (''reorder'', SceneReorderSignal), (''item_transform'', ItemTransformSignal)]"

definition connect_hook_table ::
  "('w, 'd) env \<Rightarrow> nat \<Rightarrow> (string \<times> signal_callback) list \<Rightarrow> bool \<Rightarrow> 'w \<Rightarrow> 'w" where
  "connect_hook_table en source hooks connect w =
     foldl (\<lambda>w (sig, cb).
        if connect then sg_connect (en_sig en) (Some source, sig, cb, Some source) w
        else sg_disconnect (en_sig en) (Some source, sig, cb, Some source) w) w hooks"

definition osc_is_scene :: "('w, 'd) obs_api \<Rightarrow> nat \<Rightarrow> 'w \<Rightarrow> bool" where
  "osc_is_scene ob source w \<longleftrightarrow> ob_type ob source w = SourceScene"

definition change_hook_connections :: "('w, 'd) env \<Rightarrow> nat \<Rightarrow> bool \<Rightarrow> 'w plugin \<Rightarrow> 'w plugin" where
  "change_hook_connections en source connect p =
     (let filters = (\<lambda>p. if connect then hook_existing_filters en source p
                         else unhook_filters_of_parent en source p)
      in if osc_is_input (en_obs en) source (world p)
         then filters (on_world (connect_hook_table en source input_hooks connect) p)
         else if osc_is_scene (en_obs en) source (world p)
         then filters (on_world (connect_hook_table en source scene_hooks connect) p)
         else p)"

definition enum_connect_cb :: "('w, 'd) env \<Rightarrow> nat \<Rightarrow> 'w plugin \<Rightarrow> bool \<times> 'w plugin" where
  "enum_connect_cb en source p = (True, change_hook_connections en source True p)"

definition enum_disconnect_cb :: "('w, 'd) env \<Rightarrow> nat \<Rightarrow> 'w plugin \<Rightarrow> bool \<times> 'w plugin" where
  "enum_disconnect_cb en source p = (True, change_hook_connections en source False p)"

definition source_create_cb :: "('w, 'd) env \<Rightarrow> nat option \<Rightarrow> 'w plugin \<Rightarrow> 'w plugin" where
  "source_create_cb en source p =
     (case source of None \<Rightarrow> p | Some x \<Rightarrow> change_hook_connections en x True p)"

definition source_destroy_cb :: "('w, 'd) env \<Rightarrow> nat option \<Rightarrow> 'w plugin \<Rightarrow> 'w plugin" where
  "source_destroy_cb en source p =
     (case source of None \<Rightarrow> p | Some x \<Rightarrow> change_hook_connections en x False p)"

subsection \<open>Frontend events\<close>

datatype frontend_event =
  SceneChanged | PreviewSceneChanged | StudioModeEnabled | StudioModeDisabled |
  TransitionChanged | StreamingStarted | StreamingStopped | RecordingStarted |
  RecordingStopped | RecordingPaused | RecordingUnpaused | ReplayBufferStarted |
  ReplayBufferStopped | ReplayBufferSaved | VirtualcamStarted | VirtualcamStopped |
  ProfileChanged | SceneCollectionChanged | OtherEvent

definition send_current ::
  "('w, 'd) env \<Rightarrow> string \<Rightarrow> ('w \<Rightarrow> nat option \<times> 'w) \<Rightarrow> 'w plugin \<Rightarrow> 'w plugin" where
  "send_current en addr lookup p =
     (case lookup (world p) of (source, w1) \<Rightarrow> send_source_name en addr source (set_world w1 p))"

definition or_empty :: "string option \<Rightarrow> string" where
  "or_empty n = (case n of Some s \<Rightarrow> s | None \<Rightarrow> [])"

fun frontend_event_cb :: "('w, 'd) env \<Rightarrow> frontend_event \<Rightarrow> 'w plugin \<Rightarrow> 'w plugin" where
  "frontend_event_cb en SceneChanged p = send_current en addr_program (fe_current_scene (en_fe en)) p"
| "frontend_event_cb en PreviewSceneChanged p =
     send_current en addr_preview (fe_current_preview (en_fe en)) p"
| "frontend_event_cb en StudioModeEnabled p = osc_feedback_send en addr_studio [osc_int 1] p"
| "frontend_event_cb en StudioModeDisabled p = osc_feedback_send en addr_studio [osc_int 0] p"
| "frontend_event_cb en TransitionChanged p =
     send_current en addr_transition (fe_current_transition (en_fe en)) p"
| "frontend_event_cb en StreamingStarted p = osc_feedback_send en addr_stream [osc_int 1] p"
| "frontend_event_cb en StreamingStopped p = osc_feedback_send en addr_stream [osc_int 0] p"
| "frontend_event_cb en RecordingStarted p = osc_feedback_send en addr_record [osc_int 1] p"
| "frontend_event_cb en RecordingStopped p = osc_feedback_send en addr_record [osc_int 0] p"
| "frontend_event_cb en RecordingPaused p = osc_feedback_send en record_paused [osc_int 1] p"
| "frontend_event_cb en RecordingUnpaused p = osc_feedback_send en record_paused [osc_int 0] p"
| "frontend_event_cb en ReplayBufferStarted p = osc_feedback_send en addr_replay [osc_int 1] p"
| "frontend_event_cb en ReplayBufferStopped p = osc_feedback_send en addr_replay [osc_int 0] p"
| "frontend_event_cb en ReplayBufferSaved p = osc_feedback_send en replay_saved [osc_int 1] p"
| "frontend_event_cb en VirtualcamStarted p = osc_feedback_send en addr_virtualcam [osc_int 1] p"
| "frontend_event_cb en VirtualcamStopped p = osc_feedback_send en addr_virtualcam [osc_int 0] p"
| "frontend_event_cb en ProfileChanged p =
     osc_feedback_send en addr_profile
       [osc_str (c_str (or_empty (fe_current_profile (en_fe en) (world p))))] p"
| "frontend_event_cb en SceneCollectionChanged p =
     osc_feedback_send en addr_collection
       [osc_str (c_str (or_empty (fe_current_collection (en_fe en) (world p))))] p"
| "frontend_event_cb en OtherEvent p = p"

subsection \<open>Lifecycle\<close>

definition osc_feedback_init :: "('w, 'd) env \<Rightarrow> 'w plugin \<Rightarrow> 'w plugin" where
  "osc_feedback_init en p =
     (let p1 = enum_until (enum_connect_cb en) (ob_sources (en_obs en) (world p)) p
      in on_world (\<lambda>w. sg_add_event_callback (en_sig en)
                         (sg_connect (en_sig en) (None, ''source_destroy'', SourceDestroy, None)
                            (sg_connect (en_sig en) (None, ''source_create'', SourceCreate, None) w))) p1)"

definition osc_feedback_shutdown :: "('w, 'd) env \<Rightarrow> 'w plugin \<Rightarrow> 'w plugin" where
  "osc_feedback_shutdown en p =
     (let p1 = on_world (\<lambda>w.
                 sg_disconnect (en_sig en) (None, ''source_destroy'', SourceDestroy, None)
                   (sg_disconnect (en_sig en) (None, ''source_create'', SourceCreate, None)
                      (sg_remove_event_callback (en_sig en) w))) p
      in enum_until (enum_disconnect_cb en) (ob_sources (en_obs en) (world p1)) p1)"

subsection \<open>Throttling: at most one send per interval\<close>

text \<open>Pruning drops only entries too old to throttle anything: the decision never changes.\<close>

lemma map_of_filter_fresh:
  "distinct (map fst m) \<Longrightarrow>
   map_of (filter (\<lambda>(k, t). P t) m) key = (case map_of m key of Some t \<Rightarrow> if P t then Some t else None | None \<Rightarrow> None)"
proof (induction m)
  case (Cons kt m)
  then show ?case
    by (cases kt) (auto simp: map_of_eq_None_iff split: option.splits dest: map_of_SomeD)
qed simp

lemma throttled_decision:
  assumes "distinct (map fst m)" "ms \<le> 5000"
  shows "fst (throttled now key ms m) \<longleftrightarrow>
         (\<exists>t. map_of m key = Some t \<and> now - t < ms * 1000000)"
proof (cases "map_of m key")
  case None
  with map_of_filter_fresh [OF assms(1), of "\<lambda>t. \<not> now - t > stale_after" key] show ?thesis
    by (simp add: throttled_def Let_def)
next
  case (Some t)
  with map_of_filter_fresh [OF assms(1), of "\<lambda>t. \<not> now - t > stale_after" key] assms(2) show ?thesis
    by (simp add: throttled_def Let_def stale_after_def)
qed

lemma throttled_keys: "distinct (map fst m) \<Longrightarrow> distinct (map fst (snd (throttled now key ms m)))"
proof -
  assume d: "distinct (map fst m)"
  then have "distinct (map fst (filter P m))" for P by (rule distinct_map_filter)
  with d show ?thesis
    by (auto simp: throttled_def Let_def distinct_update split: option.splits)
qed

lemma throttled_records:
  "\<not> fst (throttled now key ms m) \<Longrightarrow> map_of (snd (throttled now key ms m)) key = Some now"
  by (auto simp: throttled_def Let_def update_conv' split: option.splits if_splits)

lemma throttled_keeps:
  assumes "distinct (map fst m)" "fst (throttled now key ms m)"
  shows "map_of (snd (throttled now key ms m)) key = map_of m key"
proof -
  have "map_of (filter (\<lambda>(k, t). \<not> now - t > stale_after) m) key = Some t \<Longrightarrow> map_of m key = Some t" for t
    using map_of_filter_fresh [OF assms(1), of "\<lambda>t. \<not> now - t > stale_after" key]
    by (auto split: option.splits if_splits)
  with assms(2) show ?thesis
    by (auto simp: throttled_def Let_def split: option.splits if_splits)
qed

lemma throttled_other:
  assumes "distinct (map fst m)" "other \<noteq> key"
  shows "map_of (snd (throttled now key ms m)) other = map_of m other \<or>
    (\<exists>t. map_of m other = Some t \<and> now - t > stale_after \<and> map_of (snd (throttled now key ms m)) other = None)"
proof -
  have "map_of (filter (\<lambda>(k, t). \<not> now - t > stale_after) m) other = map_of m other \<or>
    (\<exists>t. map_of m other = Some t \<and> now - t > stale_after \<and>
      map_of (filter (\<lambda>(k, t). \<not> now - t > stale_after) m) other = None)"
    using map_of_filter_fresh [OF assms(1), of "\<lambda>t. \<not> now - t > stale_after" other]
    by (auto split: option.splits if_splits)
  with assms(2) show ?thesis
    by (auto simp: throttled_def Let_def update_conv' split: option.splits if_splits)
qed

text \<open>A run of calls: the ones that were not throttled, with their time, key and interval.\<close>

type_synonym tcall = "int \<times> string \<times> int"

fun passed_calls :: "tcall list \<Rightarrow> (string \<times> int) list \<Rightarrow> tcall list" where
  "passed_calls [] m = []"
| "passed_calls ((now, key, ms) # cs) m =
     (case throttled now key ms m of (t, m1) \<Rightarrow>
        (if t then passed_calls cs m1 else (now, key, ms) # passed_calls cs m1))"

text \<open>\<open>m\<close> remembers the passed calls of \<open>hist\<close>, but for those older than the pruning age.\<close>

definition remembers :: "int \<Rightarrow> tcall list \<Rightarrow> (string \<times> int) list \<Rightarrow> bool" where
  "remembers now hist m \<longleftrightarrow>
     distinct (map fst m) \<and>
     (\<forall>(t, key, ms) \<in> set hist. t \<le> now \<and>
        ((\<exists>t'. map_of m key = Some t' \<and> t \<le> t') \<or> now - t > stale_after))"

lemma remembers_spaced:
  assumes "remembers now hist m" "\<not> fst (throttled now' key ms m)" "now \<le> now'" "ms \<le> 5000"
    "(t, key, ms') \<in> set hist"
  shows "ms * 1000000 \<le> now' - t"
proof -
  have d: "distinct (map fst m)" using assms(1) by (simp add: remembers_def)
  have n: "\<nexists>t. map_of m key = Some t \<and> now' - t < ms * 1000000"
    using throttled_decision [OF d assms(4), of now' key] assms(2) by simp
  from assms(1,5) consider t' where "map_of m key = Some t'" "t \<le> t'" | "now - t > stale_after"
    unfolding remembers_def by fastforce
  then show ?thesis
  proof cases
    case 1
    with n show ?thesis by (smt (verit))
  next
    case 2
    with assms(3,4) show ?thesis by (simp add: stale_after_def)
  qed
qed

lemma remembers_step:
  assumes r: "remembers now hist m" and le: "now \<le> now'"
  shows "remembers now' (if fst (throttled now' key ms m) then hist else (now', key, ms) # hist)
           (snd (throttled now' key ms m))"
proof -
  let ?th = "fst (throttled now' key ms m)"
  let ?m = "snd (throttled now' key ms m)"
  have d: "distinct (map fst m)" using r by (simp add: remembers_def)
  have old: "t \<le> now' \<and> ((\<exists>t'. map_of ?m k = Some t' \<and> t \<le> t') \<or> now' - t > stale_after)"
    if h: "(t, k, i) \<in> set hist" for t k i
  proof -
    from r h have t: "t \<le> now" "(\<exists>t'. map_of m k = Some t' \<and> t \<le> t') \<or> now - t > stale_after"
      unfolding remembers_def by fastforce+
    from t(2) consider t' where "map_of m k = Some t'" "t \<le> t'" | "now - t > stale_after" by blast
    then show ?thesis
    proof cases
      case 1
      consider (throttled) "k = key" "?th" | (sent) "k = key" "\<not> ?th" | (other) "k \<noteq> key" by blast
      then show ?thesis
      proof cases
        case throttled
        with throttled_keeps [OF d throttled(2)] 1 t le show ?thesis by auto
      next
        case sent
        with throttled_records [OF sent(2)] t le show ?thesis by auto
      next
        case other
        with throttled_other [OF d other, of now' ms] 1 t le show ?thesis by auto
      qed
    qed (use t le in auto)
  qed
  have new: "map_of ?m key = Some now'" if "\<not> ?th" using throttled_records [OF that] .
  show ?thesis
    using old new throttled_keys [OF d, of now' key ms] unfolding remembers_def by auto
qed

lemma passed_calls_spaced:
  "remembers now hist m \<Longrightarrow> sorted (now # map fst cs) \<Longrightarrow> \<forall>(t, k, ms) \<in> set cs. ms \<le> 5000 \<Longrightarrow>
   \<forall>i j. i < j \<longrightarrow> j < length (rev hist @ passed_calls cs m) \<longrightarrow> length hist \<le> j \<longrightarrow>
     (case ((rev hist @ passed_calls cs m) ! i, (rev hist @ passed_calls cs m) ! j) of
        ((t, k, _), (t', k', ms')) \<Rightarrow> k = k' \<longrightarrow> ms' * 1000000 \<le> t' - t)"
proof (induction cs arbitrary: now hist m)
  case (Cons c cs)
  obtain now' key ms where c: "c = (now', key, ms)" by (cases c) auto
  obtain th m1 where th: "throttled now' key ms m = (th, m1)" by fastforce
  have le: "now \<le> now'" "sorted (now' # map fst cs)" "ms \<le> 5000" using Cons.prems c by auto
  note step = remembers_step [OF Cons.prems(1) le(1), of key ms]
  show ?case
  proof (cases th)
    case True
    with step th have "remembers now' hist m1" by simp
    from Cons.IH [OF this le(2)] Cons.prems(3) True show ?thesis by (simp add: c th)
  next
    case False
    with step th have r: "remembers now' ((now', key, ms) # hist) m1" by simp
    let ?all = "rev hist @ (now', key, ms) # passed_calls cs m1"
    have ih: "\<forall>i j. i < j \<longrightarrow> j < length ?all \<longrightarrow> Suc (length hist) \<le> j \<longrightarrow>
       (case (?all ! i, ?all ! j) of ((t, k, _), (t', k', ms')) \<Rightarrow> k = k' \<longrightarrow> ms' * 1000000 \<le> t' - t)"
      using Cons.IH [OF r le(2)] Cons.prems(3) by simp
    have here: "case (?all ! i, ?all ! length hist) of
        ((t, k, _), (t', k', ms')) \<Rightarrow> k = k' \<longrightarrow> ms' * 1000000 \<le> t' - t"
      if "i < length hist" for i
    proof -
      have "?all ! length hist = (now', key, ms)" by (simp add: nth_append)
      moreover obtain t k i' where h: "rev hist ! i = (t, k, i')" using prod_cases3 by blast
      moreover have "rev hist ! i \<in> set hist" using that by (metis length_rev nth_mem set_rev)
      moreover have "?all ! i = rev hist ! i" using that by (simp add: nth_append)
      ultimately show ?thesis
        using remembers_spaced [OF Cons.prems(1), of now' key ms t i'] th False le by auto
    qed
    have e: "rev hist @ passed_calls (c # cs) m = ?all" by (simp add: c th False)
    show ?thesis unfolding e using ih here by (metis Suc_leI le_neq_implies_less)
  qed
qed auto

subsection \<open>Who receives a feedback message\<close>

lemma world_simps [simp]:
  "world (set_world w p) = w" "world (on_world f p) = f (world p)"
  "world (p\<lparr>pl_server := s\<rparr>) = world p" "world (p\<lparr>pl_config := c\<rparr>) = world p"
  "world (p\<lparr>pl_last_sent := m\<rparr>) = world p" "world (p\<lparr>pl_filter_hooks := h\<rparr>) = world p"
  "world (p\<lparr>pl_query := q\<rparr>) = world p"
  by (simp_all add: world_def set_world_def on_world_def)

lemma set_world_simps [simp]:
  "pl_server (set_world w p) = pl_server p" "pl_config (set_world w p) = pl_config p"
  "pl_query (set_world w p) = pl_query p" "pl_filter_hooks (set_world w p) = pl_filter_hooks p"
  "pl_last_sent (set_world w p) = pl_last_sent p" "ws_reg (pl_ws (set_world w p)) = registry_of p"
  "pl_server (on_world f p) = pl_server p" "pl_config (on_world f p) = pl_config p"
  "pl_query (on_world f p) = pl_query p" "pl_filter_hooks (on_world f p) = pl_filter_hooks p"
  "pl_last_sent (on_world f p) = pl_last_sent p" "ws_reg (pl_ws (on_world f p)) = registry_of p"
  by (simp_all add: set_world_def on_world_def)

definition packet_to :: "bytes \<Rightarrow> osc_endpoint \<Rightarrow> out_packet" where
  "packet_to data ep = \<lparr>pk_target = ep_addr ep, pk_target_len = ep_len ep, pk_data = data\<rparr>"

definition fixed_packet :: "bytes \<Rightarrow> server \<Rightarrow> out_packet" where
  "fixed_packet data s = \<lparr>pk_target = sv_resolved_target s, pk_target_len = sv_resolved_len s, pk_data = data\<rparr>"

definition last_packet :: "bytes \<Rightarrow> server \<Rightarrow> out_packet" where
  "last_packet data s = \<lparr>pk_target = sv_last_sender s, pk_target_len = sv_last_sender_len s, pk_data = data\<rparr>"

text \<open>The datagrams of one event: the matching subscribers, the fixed target, the last sender.\<close>

definition event_packets :: "string \<Rightarrow> bytes \<Rightarrow> 'w plugin \<Rightarrow> out_packet list" where
  "event_packets addr buf p =
     map (packet_to buf) (publish_targets addr (subscribers (registry_of p))) @
     (if sv_have_target (pl_server p) then [fixed_packet buf (pl_server p)] else []) @
     (if \<not> osc_has_subscribers (registry_of p) \<and> sv_have_sender (pl_server p)
      then [last_packet buf (pl_server p)] else [])"

lemma push_packet_frame:
  "sv_resolved_target (push_packet p s) = sv_resolved_target s"
  "sv_resolved_len (push_packet p s) = sv_resolved_len s"
  "sv_have_target (push_packet p s) = sv_have_target s"
  "sv_last_sender (push_packet p s) = sv_last_sender s"
  "sv_last_sender_len (push_packet p s) = sv_last_sender_len s"
  "sv_have_sender (push_packet p s) = sv_have_sender s"
  by (simp_all add: push_packet_def enqueue_frame)

lemma push_packets_frame:
  "sv_resolved_target (foldl (\<lambda>s p. push_packet p s) s ps) = sv_resolved_target s"
  "sv_resolved_len (foldl (\<lambda>s p. push_packet p s) s ps) = sv_resolved_len s"
  "sv_have_target (foldl (\<lambda>s p. push_packet p s) s ps) = sv_have_target s"
  "sv_last_sender (foldl (\<lambda>s p. push_packet p s) s ps) = sv_last_sender s"
  "sv_last_sender_len (foldl (\<lambda>s p. push_packet p s) s ps) = sv_last_sender_len s"
  "sv_have_sender (foldl (\<lambda>s p. push_packet p s) s ps) = sv_have_sender s"
  by (induct ps arbitrary: s) (simp_all add: push_packet_frame)

lemma send_to_push: "send_to data ep s = push_packet (packet_to data ep) s"
  by (simp add: send_to_def push_packet_def packet_to_def)

lemma send_to_fold:
  "foldl (\<lambda>s ep. send_to data ep s) s eps = foldl (\<lambda>s p. push_packet p s) s (map (packet_to data) eps)"
  by (induction eps arbitrary: s) (simp_all add: send_to_push)

lemma send_fixed_push: "send_fixed data s = push_packet (fixed_packet data s) s"
  by (simp add: send_fixed_def push_packet_def fixed_packet_def enqueue_skip)

lemma send_last_push: "sv_have_sender s \<Longrightarrow> send_last data s = push_packet (last_packet data s) s"
  by (simp add: send_last_def push_packet_def last_packet_def)

lemma no_subscribers:
  "registry_inv reg \<Longrightarrow> \<not> osc_has_subscribers reg \<Longrightarrow> subscribers reg = []"
  by (simp add: registry_inv_def osc_has_subscribers_def)

lemma feedback_server:
  assumes "registry_inv (registry_of p)" "cf_feedback_enabled (pl_config p)"
  shows "pl_server (osc_feedback_send en addr as p) =
    foldl (\<lambda>s p. push_packet p s) (pl_server p) (event_packets addr (osc_build_message [] addr as) p)"
proof -
  let ?b = "osc_build_message [] addr as"
  show ?thesis
  proof (cases "\<not> osc_has_subscribers (registry_of p) \<and> \<not> has_fixed_target (pl_server p) \<and>
      \<not> has_last_sender (pl_server p)")
    case True
    with no_subscribers [OF assms(1)] assms(2) show ?thesis
      by (simp add: osc_feedback_send_def event_packets_def has_fixed_target_def has_last_sender_def)
  next
    case False
    have "fixed_packet ?b (foldl (\<lambda>s p. push_packet p s) s ps) = fixed_packet ?b s"
      "last_packet ?b (foldl (\<lambda>s p. push_packet p s) s ps) = last_packet ?b s"
      "last_packet ?b (push_packet q s) = last_packet ?b s"
      "sv_have_sender (push_packet q s) = sv_have_sender s" for s ps q
      by (simp_all add: fixed_packet_def last_packet_def push_packets_frame push_packet_frame)
    with False assms(2) show ?thesis
      by (auto simp: osc_feedback_send_def Let_def osc_publish_def send_to_fold event_packets_def
          has_fixed_target_def has_last_sender_def send_fixed_push send_last_push push_packets_frame)
  qed
qed

lemma feedback_queue:
  assumes "registry_inv (registry_of p)" "cf_feedback_enabled (pl_config p)" "can_queue (pl_server p)"
  shows "sv_send_queue (pl_server (osc_feedback_send en addr as p)) =
    last_n max_send_queue (sv_send_queue (pl_server p) @
      filter sendable (event_packets addr (osc_build_message [] addr as) p))"
  using sq.contents_burst [OF assms(3)] by (simp add: feedback_server [OF assms(1,2)])

text \<open>The gate looks at datagram receivers only: LISTEN peers alone get nothing.\<close>

lemma feedback_gate_ignores_peers:
  assumes "\<not> osc_has_subscribers (registry_of p)" "\<not> sv_have_target (pl_server p)"
    "\<not> sv_have_sender (pl_server p)"
  shows "osc_feedback_send en addr as p = p"
  using assms by (simp add: osc_feedback_send_def has_fixed_target_def has_last_sender_def)

subsection \<open>The table of filter hooks\<close>

text \<open>
  What the signal functions promise: \<open>conns w\<close> is the set of connections; connecting adds
  one, disconnecting removes it, and neither counts references nor changes types.
\<close>

definition signal_contract ::
  "('w \<Rightarrow> nat \<Rightarrow> int) \<Rightarrow> ('w \<Rightarrow> connection set) \<Rightarrow> ('w, 'd) env \<Rightarrow> bool" where
  "signal_contract refs conns en \<longleftrightarrow>
     (\<forall>c w. refs (sg_connect (en_sig en) c w) = refs w \<and>
        conns (sg_connect (en_sig en) c w) = insert c (conns w)) \<and>
     (\<forall>c w. refs (sg_disconnect (en_sig en) c w) = refs w \<and>
        conns (sg_disconnect (en_sig en) c w) = conns w - {c}) \<and>
     (\<forall>x w. conns (snd (ob_get_ref (en_obs en) x w)) = conns w) \<and>
     (\<forall>x w. conns (ob_release (en_obs en) x w) = conns w) \<and>
     (\<forall>w. refs (sg_add_event_callback (en_sig en) w) = refs w \<and>
        conns (sg_add_event_callback (en_sig en) w) = conns w) \<and>
     (\<forall>w. refs (sg_remove_event_callback (en_sig en) w) = refs w \<and>
        conns (sg_remove_event_callback (en_sig en) w) = conns w)"

lemma signal_contractD:
  assumes "signal_contract refs conns en"
  shows "refs (sg_connect (en_sig en) c w) = refs w"
    "conns (sg_connect (en_sig en) c w) = insert c (conns w)"
    "refs (sg_disconnect (en_sig en) c w) = refs w"
    "conns (sg_disconnect (en_sig en) c w) = conns w - {c}"
    "conns (snd (ob_get_ref (en_obs en) x w)) = conns w"
    "conns (ob_release (en_obs en) x w) = conns w"
    "refs (sg_add_event_callback (en_sig en) w) = refs w"
    "conns (sg_add_event_callback (en_sig en) w) = conns w"
    "refs (sg_remove_event_callback (en_sig en) w) = refs w"
    "conns (sg_remove_event_callback (en_sig en) w) = conns w"
  using assms by (simp_all only: signal_contract_def)

definition hook_count :: "nat \<Rightarrow> filter_hook_entry list \<Rightarrow> int" where
  "hook_count f hooks = int (length (filter (\<lambda>h. fh_filter h = f) hooks))"

abbreviation hook :: "nat \<Rightarrow> nat \<Rightarrow> filter_hook_entry" where
  "hook parent f \<equiv> \<lparr>fh_parent = parent, fh_filter = f\<rparr>"

lemma hook_eq: "fh_parent entry = parent \<and> fh_filter entry = f \<longleftrightarrow> entry = hook parent f"
  by (cases entry) simp

lemma hook_in: "(\<exists>entry \<in> hooks. fh_parent entry = parent \<and> fh_filter entry = f) \<longleftrightarrow> hook parent f \<in> hooks"
  by (auto simp: hook_eq)

definition hook_inv ::
  "('w \<Rightarrow> nat \<Rightarrow> int) \<Rightarrow> ('w \<Rightarrow> connection set) \<Rightarrow> (nat \<Rightarrow> int) \<Rightarrow> 'w plugin \<Rightarrow> bool" where
  "hook_inv refs conns base p \<longleftrightarrow>
     distinct (pl_filter_hooks p) \<and>
     (\<forall>f. refs (world p) f = base f + hook_count f (pl_filter_hooks p)) \<and>
     (\<forall>parent f. enable_connection parent f \<in> conns (world p) \<longleftrightarrow> hook parent f \<in> set (pl_filter_hooks p))"

lemma enable_connection_inj [simp]:
  "enable_connection a f = enable_connection b g \<longleftrightarrow> a = b \<and> f = g"
  by (auto simp: enable_connection_def)

lemma hook_count_simps [simp]:
  "hook_count f [] = 0"
  "hook_count f (h # hs) = (if fh_filter h = f then 1 else 0) + hook_count f hs"
  "hook_count f (xs @ ys) = hook_count f xs + hook_count f ys"
  by (simp_all add: hook_count_def)

lemma hook_filter_inv:
  assumes "balanced_obs refs (en_obs en)" "signal_contract refs conns en" "hook_inv refs conns base p"
  shows "hook_inv refs conns base (hook_filter en parent fo p)"
proof (cases "\<exists>f. fo = Some f \<and> hook parent f \<notin> set (pl_filter_hooks p)")
  case False
  then have "hook_filter en parent fo p = p" by (auto simp: hook_filter_def hook_in split: option.splits)
  with assms(3) show ?thesis by simp
next
  case True
  then obtain f where f: "fo = Some f" "hook parent f \<notin> set (pl_filter_hooks p)" by blast
  obtain ok w1 where g: "ob_get_ref (en_obs en) f (world p) = (ok, w1)" by fastforce
  have "case ob_get_ref (en_obs en) f (world p) of (False, w') \<Rightarrow> refs w' = refs (world p)
      | (True, w') \<Rightarrow> refs w' = (refs (world p))(f := refs (world p) f + 1)"
    using assms(1) by (simp add: balanced_obs_def)
  then have r: "refs w1 = (if ok then (refs (world p))(f := refs (world p) f + 1) else refs (world p))"
    by (simp add: g split: bool.splits)
  have "conns (snd (ob_get_ref (en_obs en) f (world p))) = conns (world p)"
    by (rule signal_contractD [OF assms(2)])
  then have c: "conns w1 = conns (world p)" by (simp add: g)
  show ?thesis
  proof (cases ok)
    case False
    with f g r c assms(3) show ?thesis by (simp add: hook_filter_def hook_in hook_inv_def)
  next
    case True
    with f g r c assms(3) show ?thesis
      by (auto simp: hook_filter_def hook_in hook_inv_def signal_contractD [OF assms(2)])
  qed
qed

lemma drop_hook_inv:
  assumes "balanced_obs refs (en_obs en)" "signal_contract refs conns en" "hook_inv refs conns base p"
    "i < length (pl_filter_hooks p)"
  shows "hook_inv refs conns base (drop_hook_at en i p)"
    and "set (pl_filter_hooks (drop_hook_at en i p)) = set (pl_filter_hooks p) - {pl_filter_hooks p ! i}"
proof -
  obtain parent f where h: "pl_filter_hooks p ! i = hook parent f" 
    by (cases "pl_filter_hooks p ! i") auto
  define xs ys where "xs = take i (pl_filter_hooks p)" and "ys = drop (i + 1) (pl_filter_hooks p)"
  have l: "pl_filter_hooks p = xs @ hook parent f # ys"
    using id_take_nth_drop [OF assms(4)] by (simp add: xs_def ys_def h)
  have d: "drop_hook_at en i p =
    (on_world (\<lambda>w. ob_release (en_obs en) f (sg_disconnect (en_sig en) (enable_connection parent f) w)) p)
      \<lparr>pl_filter_hooks := xs @ ys\<rparr>"
    by (simp add: drop_hook_at_def h xs_def ys_def)
  have dist: "distinct (pl_filter_hooks p)" using assms(3) by (simp add: hook_inv_def)
  have r: "refs (world (drop_hook_at en i p)) = (refs (world p))(f := refs (world p) f - 1)"
    by (simp add: d balanced_release [OF assms(1)] signal_contractD [OF assms(2)])
  have c: "conns (world (drop_hook_at en i p)) = conns (world p) - {enable_connection parent f}"
    by (simp add: d signal_contractD [OF assms(2)])
  have hk: "pl_filter_hooks (drop_hook_at en i p) = xs @ ys" by (simp add: d)
  have conn: "enable_connection q g \<in> conns (world p) \<longleftrightarrow> hook q g \<in> set (pl_filter_hooks p)" for q g
    using assms(3) by (simp add: hook_inv_def)
  have cnt: "refs (world p) g = base g + hook_count g (pl_filter_hooks p)" for g
    using assms(3) by (simp add: hook_inv_def)
  show "hook_inv refs conns base (drop_hook_at en i p)"
    unfolding hook_inv_def r c hk using dist conn cnt by (auto simp: l)
  show "set (pl_filter_hooks (drop_hook_at en i p)) = set (pl_filter_hooks p) - {pl_filter_hooks p ! i}"
    unfolding hk h using dist by (auto simp: l)
qed

lemma unhook_filter_from_inv:
  "balanced_obs refs (en_obs en) \<Longrightarrow> signal_contract refs conns en \<Longrightarrow> hook_inv refs conns base p \<Longrightarrow>
   (\<forall>j < i. pl_filter_hooks p ! j \<noteq> hook parent f) \<Longrightarrow>
   hook_inv refs conns base (unhook_filter_from en parent f i p) \<and>
   set (pl_filter_hooks (unhook_filter_from en parent f i p)) = set (pl_filter_hooks p) - {hook parent f}"
proof (induction en parent f i p rule: unhook_filter_from.induct)
  case (1 en parent f i p)
  show ?case
  proof (cases "i < length (pl_filter_hooks p)")
    case False
    with "1.prems"(4) have "hook parent f \<notin> set (pl_filter_hooks p)"
      by (auto simp: in_set_conv_nth)
    with False "1.prems"(3) show ?thesis by (simp add: hook_eq unhook_filter_from.simps [of en parent f i p])
  next
    case i: True
    show ?thesis
    proof (cases "pl_filter_hooks p ! i = hook parent f")
      case True
      with drop_hook_inv [OF "1.prems"(1-3) i] i show ?thesis
        by (simp add: hook_eq unhook_filter_from.simps [of en parent f i p])
    next
      case False
      have "\<forall>j < i + 1. pl_filter_hooks p ! j \<noteq> hook parent f"
        using "1.prems"(4) False by (auto simp: less_Suc_eq)
      from "1.IH" [OF i _ "1.prems"(1-3) this] i False show ?thesis
        by (simp add: hook_eq unhook_filter_from.simps [of en parent f i p])
    qed
  qed
qed

lemma unhook_parent_from_inv:
  "balanced_obs refs (en_obs en) \<Longrightarrow> signal_contract refs conns en \<Longrightarrow> hook_inv refs conns base p \<Longrightarrow>
   i \<le> length (pl_filter_hooks p) \<Longrightarrow>
   (\<forall>j. i \<le> j \<longrightarrow> j < length (pl_filter_hooks p) \<longrightarrow> fh_parent (pl_filter_hooks p ! j) \<noteq> parent) \<Longrightarrow>
   hook_inv refs conns base (unhook_parent_from en parent i p) \<and>
   set (pl_filter_hooks (unhook_parent_from en parent i p)) = {h \<in> set (pl_filter_hooks p). fh_parent h \<noteq> parent}"
proof (induction i arbitrary: p)
  case 0
  then have "\<forall>h \<in> set (pl_filter_hooks p). fh_parent h \<noteq> parent" by (metis in_set_conv_nth le0)
  with 0 show ?case by auto
next
  case (Suc i)
  have i: "i < length (pl_filter_hooks p)" using Suc.prems(4) by simp
  show ?case
  proof (cases "fh_parent (pl_filter_hooks p ! i) = parent")
    case False
    have "\<forall>j. i \<le> j \<longrightarrow> j < length (pl_filter_hooks p) \<longrightarrow> fh_parent (pl_filter_hooks p ! j) \<noteq> parent"
      using Suc.prems(5) False by (metis Suc_leI le_neq_implies_less)
    with Suc.IH [OF Suc.prems(1-3)] i False show ?thesis by simp
  next
    case True
    let ?p = "drop_hook_at en i p"
    note d = drop_hook_inv [OF Suc.prems(1-3) i]
    have hk: "pl_filter_hooks ?p = take i (pl_filter_hooks p) @ drop (i + 1) (pl_filter_hooks p)"
      by (simp add: drop_hook_at_def Let_def)
    have "\<forall>j. i \<le> j \<longrightarrow> j < length (pl_filter_hooks ?p) \<longrightarrow> fh_parent (pl_filter_hooks ?p ! j) \<noteq> parent"
    proof (intro allI impI)
      fix j
      assume j: "i \<le> j" "j < length (pl_filter_hooks ?p)"
      then have "pl_filter_hooks ?p ! j = pl_filter_hooks p ! (j + 1)" "j + 1 < length (pl_filter_hooks p)"
        using i by (auto simp: hk nth_append min_def)
      with Suc.prems(5) j show "fh_parent (pl_filter_hooks ?p ! j) \<noteq> parent" by simp
    qed
    moreover have "i \<le> length (pl_filter_hooks ?p)" using i by (simp add: hk)
    ultimately show ?thesis
      using Suc.IH [OF Suc.prems(1,2) d(1)] d(2) True by auto
  qed
qed

lemma unhook_filter_inv:
  assumes "balanced_obs refs (en_obs en)" "signal_contract refs conns en" "hook_inv refs conns base p"
  shows "hook_inv refs conns base (unhook_filter en parent f p)"
    and "set (pl_filter_hooks (unhook_filter en parent f p)) = set (pl_filter_hooks p) - {hook parent f}"
  using unhook_filter_from_inv [OF assms, of 0 parent f] by (simp_all add: unhook_filter_def)

lemma unhook_parent_inv:
  assumes "balanced_obs refs (en_obs en)" "signal_contract refs conns en" "hook_inv refs conns base p"
  shows "hook_inv refs conns base (unhook_filters_of_parent en parent p)"
    and "set (pl_filter_hooks (unhook_filters_of_parent en parent p)) =
           {h \<in> set (pl_filter_hooks p). fh_parent h \<noteq> parent}"
  using unhook_parent_from_inv [OF assms, of "length (pl_filter_hooks p)" parent]
  by (simp_all add: unhook_filters_of_parent_def)

text \<open>Connecting and disconnecting the other signals does not touch the table.\<close>

definition no_enable :: "connection list \<Rightarrow> bool" where
  "no_enable cs \<longleftrightarrow> (\<forall>c \<in> set cs. fst (snd (snd c)) \<noteq> FilterEnableSignal)"

lemma enable_not_other: "fst (snd (snd c)) \<noteq> FilterEnableSignal \<Longrightarrow> enable_connection q f \<noteq> c"
  by (auto simp: enable_connection_def)

lemma hook_inv_connect:
  assumes "signal_contract refs conns en" "hook_inv refs conns base p" "fst (snd (snd c)) \<noteq> FilterEnableSignal"
  shows "hook_inv refs conns base (on_world (sg_connect (en_sig en) c) p)"
    and "hook_inv refs conns base (on_world (sg_disconnect (en_sig en) c) p)"
  using assms(2) enable_not_other [OF assms(3)]
  by (simp_all add: hook_inv_def signal_contractD [OF assms(1)])

lemma on_world_comp: "on_world g (on_world f p) = on_world (\<lambda>w. g (f w)) p"
  by (simp add: on_world_def set_world_def world_def)

lemma on_world_id: "on_world (\<lambda>w. w) p = p"
  by (simp add: on_world_def set_world_def world_def)

lemma hook_inv_table:
  assumes "signal_contract refs conns en"
  shows "hook_inv refs conns base p \<Longrightarrow> \<forall>h \<in> set hooks. snd h \<noteq> FilterEnableSignal \<Longrightarrow>
    hook_inv refs conns base (on_world (connect_hook_table en source hooks connect) p)"
proof (induction hooks arbitrary: p)
  case Nil
  then show ?case by (simp add: connect_hook_table_def on_world_id)
next
  case (Cons h hooks)
  obtain sig cb where h: "h = (sig, cb)" by fastforce
  let ?c = "(Some source, sig, cb, Some source)"
  have "hook_inv refs conns base
      (on_world (if connect then sg_connect (en_sig en) ?c else sg_disconnect (en_sig en) ?c) p)"
    using hook_inv_connect [OF assms Cons.prems(1), of ?c] Cons.prems(2) h by simp
  from Cons.IH [OF this] Cons.prems(2) show ?case
    by (cases connect) (simp_all add: connect_hook_table_def on_world_comp h)
qed

lemma hooks_no_enable:
  "\<forall>h \<in> set input_hooks. snd h \<noteq> FilterEnableSignal" "\<forall>h \<in> set scene_hooks. snd h \<noteq> FilterEnableSignal"
  by (simp_all add: input_hooks_def scene_hooks_def)

lemma change_hooks_inv:
  assumes "balanced_obs refs (en_obs en)" "signal_contract refs conns en" "hook_inv refs conns base p"
  shows "hook_inv refs conns base (change_hook_connections en source connect p)"
proof -
  have add: "hook_inv refs conns base (hook_existing_filters en source q)" if "hook_inv refs conns base q" for q
  proof -
    have "hook_inv refs conns base (foldl (\<lambda>p f. hook_filter en source (Some f) p) q fs)" for fs
      using that by (induction fs arbitrary: q) (simp_all add: hook_filter_inv [OF assms(1,2)])
    then show ?thesis by (simp add: hook_existing_filters_def)
  qed
  show ?thesis
    using hook_inv_table [OF assms(2,3) hooks_no_enable(1)] hook_inv_table [OF assms(2,3) hooks_no_enable(2)]
      add unhook_parent_inv(1) [OF assms(1,2)] assms(3)
    by (simp add: change_hook_connections_def Let_def)
qed

lemma change_hooks_off:
  assumes "balanced_obs refs (en_obs en)" "signal_contract refs conns en" "hook_inv refs conns base p"
    "ob_type (en_obs en) source (world p) = SourceInput \<or> ob_type (en_obs en) source (world p) = SourceScene"
  shows "set (pl_filter_hooks (change_hook_connections en source False p)) =
    {h \<in> set (pl_filter_hooks p). fh_parent h \<noteq> source}"
  using assms(4)
    unhook_parent_inv(2) [OF assms(1,2) hook_inv_table [OF assms(2,3) hooks_no_enable(1), of source False], of source]
    unhook_parent_inv(2) [OF assms(1,2) hook_inv_table [OF assms(2,3) hooks_no_enable(2), of source False], of source]
  by (simp add: change_hook_connections_def Let_def osc_is_input_def osc_is_scene_def) force

lemma disconnect_all_hooks:
  assumes "balanced_obs refs (en_obs en)" "signal_contract refs conns en"
    and kind: "\<And>x w. ob_type (en_obs en) x w = kind x"
  shows "hook_inv refs conns base p \<Longrightarrow>
    \<forall>x \<in> set xs. kind x = SourceInput \<or> kind x = SourceScene \<Longrightarrow>
    hook_inv refs conns base (enum_until (enum_disconnect_cb en) xs p) \<and>
    set (pl_filter_hooks (enum_until (enum_disconnect_cb en) xs p)) =
      {h \<in> set (pl_filter_hooks p). fh_parent h \<notin> set xs}"
proof (induction xs arbitrary: p)
  case (Cons x xs)
  have "hook_inv refs conns base (change_hook_connections en x False p)"
    by (rule change_hooks_inv [OF assms(1,2) Cons.prems(1)])
  moreover have "set (pl_filter_hooks (change_hook_connections en x False p)) =
      {h \<in> set (pl_filter_hooks p). fh_parent h \<noteq> x}"
    using Cons.prems(2) kind by (intro change_hooks_off [OF assms(1,2) Cons.prems(1)]) simp
  ultimately show ?case
    using Cons.IH [of "change_hook_connections en x False p"] Cons.prems(2)
    by (auto simp: enum_disconnect_cb_def)
qed simp

lemma feedback_shutdown_hooks:
  assumes b: "balanced_obs refs (en_obs en)" and sg: "signal_contract refs conns en"
    and kind: "\<And>x w. ob_type (en_obs en) x w = kind x"
    and inv: "hook_inv refs conns base p"
    and src: "\<And>w. set (ob_sources (en_obs en) w) = srcs"
      "\<forall>x \<in> srcs. kind x = SourceInput \<or> kind x = SourceScene"
    and cover: "\<forall>entry \<in> set (pl_filter_hooks p). fh_parent entry \<in> srcs"
  shows "pl_filter_hooks (osc_feedback_shutdown en p) = []"
    "refs (world (osc_feedback_shutdown en p)) = base"
    "enable_connection parent f \<notin> conns (world (osc_feedback_shutdown en p))"
proof -
  let ?off = "\<lambda>w. sg_disconnect (en_sig en) (None, ''source_destroy'', SourceDestroy, None)
     (sg_disconnect (en_sig en) (None, ''source_create'', SourceCreate, None)
        (sg_remove_event_callback (en_sig en) w))"
  let ?p1 = "on_world ?off p"
  have i1: "hook_inv refs conns base ?p1"
    using inv by (simp add: hook_inv_def signal_contractD [OF sg] enable_connection_def)
  from disconnect_all_hooks [OF b sg kind i1, of "ob_sources (en_obs en) (world ?p1)"] src
  have i2: "hook_inv refs conns base (osc_feedback_shutdown en p)"
    and s: "set (pl_filter_hooks (osc_feedback_shutdown en p)) = {h \<in> set (pl_filter_hooks p). fh_parent h \<notin> srcs}"
    by (simp_all add: osc_feedback_shutdown_def Let_def)
  show h: "pl_filter_hooks (osc_feedback_shutdown en p) = []"
    using s cover by (metis (no_types, lifting) case_prodE empty_Collect_eq fst_conv set_empty)
  show "refs (world (osc_feedback_shutdown en p)) = base"
    using i2 by (auto simp: hook_inv_def h)
  show "enable_connection parent f \<notin> conns (world (osc_feedback_shutdown en p))"
    using i2 by (simp add: hook_inv_def h)
qed

end
