(* ===== verification/OscObjects.thy ===== *)
theory OscObjects
  imports OscServer OscSubscribe OscUtil
begin

text \<open>
  The object model routes (\<^verbatim>\<open>osc-objects.h\<close>, \<^verbatim>\<open>osc-objects.cpp\<close>): scene item flags, order and
  transform, filter enable states and parameters, tally polls and hotkeys.  Every operation
  works on the transport, which collects replies, and the world.  As in the code one visitor
  serves both directions: \<open>to = None\<close> (the null endpoint) writes, \<open>Some\<close> replies; a \<open>value\<close> of
  \<open>None\<close> (the null pointer) toggles.
\<close>

type_synonym 'w ctl = "server \<times> 'w"

definition reply :: "osc_endpoint \<Rightarrow> string \<Rightarrow> osc_argument list \<Rightarrow> 'w ctl \<Rightarrow> 'w ctl" where
  "reply to addr as s = (server_reply to (c_str addr) as (fst s), snd s)"

definition with_world :: "('w \<Rightarrow> 'w) \<Rightarrow> 'x \<times> 'w \<Rightarrow> 'x \<times> 'w" where
  "with_world f s = (fst s, f (snd s))"

subsection \<open>Scene items\<close>

datatype item_prop = PropVisible | PropLocked

definition flag_visit ::
  "('w, 'd) obs_api \<Rightarrow> osc_endpoint option \<Rightarrow> item_prop \<Rightarrow> bool option \<Rightarrow> string \<Rightarrow> nat \<Rightarrow>
   'w ctl \<Rightarrow> bool \<times> 'w ctl" where
  "flag_visit ob to prop value scene_name item s =
     (let w = snd s;
          item_name = (case ob_item_source ob item w of Some x \<Rightarrow> ob_name ob x w | None \<Rightarrow> []);
          state = (case prop of PropVisible \<Rightarrow> ob_item_visible ob item w
                   | PropLocked \<Rightarrow> ob_item_locked ob item w)
      in case to of
        None \<Rightarrow>
          (let target = (case value of Some b \<Rightarrow> b | None \<Rightarrow> \<not> state)
           in (True, with_world (case prop of
                 PropVisible \<Rightarrow> ob_set_item_visible ob item target
               | PropLocked \<Rightarrow> ob_set_item_locked ob item target) s))
      | Some ep \<Rightarrow>
          (let addr = (case prop of PropVisible \<Rightarrow> visible_for scene_name item_name
                       | PropLocked \<Rightarrow> locked_for scene_name item_name)
           in (True, reply ep addr [osc_int (if state then 1 else 0)] s)))"

definition order_visit ::
  "('w, 'd) obs_api \<Rightarrow> osc_endpoint option \<Rightarrow> int32 \<Rightarrow> string \<Rightarrow> nat \<Rightarrow> 'w ctl \<Rightarrow> bool \<times> 'w ctl" where
  "order_visit ob to position scene_name item s =
     (case ob_item_source ob item (snd s) of
        None \<Rightarrow> (True, s)
      | Some source \<Rightarrow>
          (case to of
             None \<Rightarrow> (True, with_world (ob_set_item_order ob item position) s)
           | Some ep \<Rightarrow>
               (True, reply ep (order_for scene_name (ob_name ob source (snd s)))
                        [osc_int (ob_item_order ob item (snd s))] s)))"

definition find_transform_field ::
  "libm \<Rightarrow> ('w, 'd) obs_api \<Rightarrow> string \<Rightarrow> ('w, 'd) transform_field option" where
  "find_transform_field lm ob name = find (\<lambda>f. tf_name f = name) (osc_transform_fields lm ob)"

text \<open>The write path dereferences the field, which is never null there.\<close>

definition transform_visit ::
  "libm \<Rightarrow> ('w, 'd) obs_api \<Rightarrow> osc_endpoint option \<Rightarrow> ('w, 'd) transform_field option \<Rightarrow> f32 \<Rightarrow>
   string \<Rightarrow> nat \<Rightarrow> 'w ctl \<Rightarrow> bool \<times> 'w ctl" where
  "transform_visit lm ob to field value scene_name item s =
     (case ob_item_source ob item (snd s) of
        None \<Rightarrow> (True, s)
      | Some source \<Rightarrow>
          (let item_name = ob_name ob source (snd s)
           in case to of
             None \<Rightarrow>
               (True, case field of Some f \<Rightarrow> with_world (tf_set f item value) s | None \<Rightarrow> s)
           | Some ep \<Rightarrow>
               (case field of
                  Some f \<Rightarrow>
                    (True, reply ep (transform_for scene_name item_name (tf_name f))
                             [osc_flt (tf_get f item (snd s))] s)
                | None \<Rightarrow>
                    (True, foldl (\<lambda>s f. reply ep (transform_for scene_name item_name (tf_name f))
                                     [osc_flt (tf_get f item (snd s))] s)
                             s (osc_transform_fields lm ob)))))"

subsection \<open>Filters\<close>

text \<open>The filter a selector picks, with the reference taken of every filter that matched.\<close>

fun resolve_from ::
  "('w, 'd) obs_api \<Rightarrow> string \<Rightarrow> nat list \<Rightarrow> nat \<Rightarrow> nat option \<Rightarrow> 'w \<Rightarrow> nat option \<times> 'w" where
  "resolve_from ob selector [] next_index found w = (found, w)"
| "resolve_from ob selector (f # fs) next_index found w =
     (if \<not> osc_selector_matches selector (ob_name ob f w) next_index
      then resolve_from ob selector fs (next_index + 1) found w
      else case ob_get_ref ob f w of (ok, w1) \<Rightarrow>
        resolve_from ob selector fs (next_index + 1) (if ok then Some f else found) w1)"

definition resolve_filter ::
  "('w, 'd) obs_api \<Rightarrow> nat \<Rightarrow> string \<Rightarrow> 'w \<Rightarrow> nat option \<times> 'w" where
  "resolve_filter ob parent selector w =
     resolve_from ob selector (ob_filters ob parent w) 0 None w"

fun param_is_scalar :: "property_type \<Rightarrow> bool" where
  "param_is_scalar PropOther = False"
| "param_is_scalar _ = True"

definition read_property ::
  "'d data_api \<Rightarrow> string \<Rightarrow> string \<times> property_type \<Rightarrow> 'd \<Rightarrow> osc_endpoint \<Rightarrow> 'w ctl \<Rightarrow> 'w ctl" where
  "read_property dt base prop settings to s =
     (case prop of (name, ty) \<Rightarrow>
        let addr = base @ ''/'' @ name
        in case ty of
          PropBool \<Rightarrow> reply to addr [osc_int (if dt_bool dt settings name then 1 else 0)] s
        | PropInt \<Rightarrow> reply to addr [osc_int (word_of_int (dt_int dt settings name))] s
        | PropFloat \<Rightarrow> reply to addr [osc_flt (dt_float dt settings name)] s
        | PropText \<Rightarrow> reply to addr [osc_str (dt_string dt settings name)] s
        | PropPath \<Rightarrow> reply to addr [osc_str (dt_string dt settings name)] s
        | PropOther \<Rightarrow> s)"

definition write_property ::
  "libm \<Rightarrow> ('w, 'd) obs_api \<Rightarrow> 'd data_api \<Rightarrow> nat \<Rightarrow> string \<times> property_type \<Rightarrow> osc_message \<Rightarrow> 'w \<Rightarrow> 'w" where
  "write_property lm ob dt f prop msg w =
     (case prop of (name, ty) \<Rightarrow>
        let settings = ob_settings ob f w;
            settings1 = (case ty of
                PropBool \<Rightarrow> dt_set_bool dt settings name (arg_bool msg 0 False)
              | PropInt \<Rightarrow> dt_set_int dt settings name (sint (arg_int (lm_oor lm) msg 0 0))
              | PropFloat \<Rightarrow> dt_set_float dt settings name (arg_float msg 0 f32_zero)
              | PropText \<Rightarrow> dt_set_string dt settings name (c_str (arg_string msg 0 []))
              | PropPath \<Rightarrow> dt_set_string dt settings name (c_str (arg_string msg 0 []))
              | PropOther \<Rightarrow> settings)
        in ob_update ob f settings1 w)"

fun filter_chain ::
  "('w, 'd) obs_api \<Rightarrow> string \<Rightarrow> string \<Rightarrow> bool option \<Rightarrow> osc_endpoint option \<Rightarrow> nat list \<Rightarrow> nat \<Rightarrow>
   'w ctl \<Rightarrow> 'w ctl" where
  "filter_chain ob source_name selector value to [] next_index s = s"
| "filter_chain ob source_name selector value to (f # fs) next_index s =
     filter_chain ob source_name selector value to fs (next_index + 1)
       (if \<not> osc_selector_matches selector (ob_name ob f (snd s)) next_index then s
        else
          let addr = filter_for source_name (ob_name ob f (snd s))
          in case to of
            None \<Rightarrow>
              (let target = (case value of Some b \<Rightarrow> b | None \<Rightarrow> \<not> ob_enabled ob f (snd s))
               in with_world (ob_set_enabled ob f target) s)
          | Some ep \<Rightarrow> reply ep addr [osc_int (if ob_enabled ob f (snd s) then 1 else 0)] s)"

definition run_filter_enable_pass ::
  "('w, 'd) obs_api \<Rightarrow> string \<Rightarrow> string \<Rightarrow> bool option \<Rightarrow> osc_endpoint option \<Rightarrow> 'w ctl \<Rightarrow> 'w ctl" where
  "run_filter_enable_pass ob source_pattern selector value to s =
     osc_visit_sources ob source_pattern KindAny
       (\<lambda>source s. (True, filter_chain ob (ob_name ob source (snd s)) selector value to
                            (ob_filters ob source (snd s)) 0 s)) s"

datatype param_mode = ListAll | ReadOne | WriteOne

text \<open>The property loop; the message and the endpoint are those of the mode.\<close>

fun param_loop ::
  "libm \<Rightarrow> ('w, 'd) obs_api \<Rightarrow> 'd data_api \<Rightarrow> nat \<Rightarrow> string \<Rightarrow> string \<Rightarrow> param_mode \<Rightarrow> osc_message \<Rightarrow>
   osc_endpoint \<Rightarrow> (string \<times> property_type) list \<Rightarrow> 'w ctl \<Rightarrow> 'w ctl" where
  "param_loop lm ob dt f base param mode msg to [] s = s"
| "param_loop lm ob dt f base param mode msg to (prop # props) s =
     (if mode \<noteq> ListAll \<and> fst prop \<noteq> param
      then param_loop lm ob dt f base param mode msg to props s
      else if \<not> param_is_scalar (snd prop)
      then param_loop lm ob dt f base param mode msg to props s
      else
        let s1 = (if mode = WriteOne then with_world (write_property lm ob dt f prop msg) s
                  else read_property dt base prop (ob_settings ob f (snd s)) to s)
        in if mode \<noteq> ListAll then s1
           else param_loop lm ob dt f base param mode msg to props s1)"

definition run_param_pass ::
  "libm \<Rightarrow> ('w, 'd) obs_api \<Rightarrow> 'd data_api \<Rightarrow> string \<Rightarrow> string \<Rightarrow> string \<Rightarrow> param_mode \<Rightarrow> osc_message \<Rightarrow>
   osc_endpoint \<Rightarrow> 'w ctl \<Rightarrow> 'w ctl" where
  "run_param_pass lm ob dt source_pattern selector param mode msg to s =
     osc_visit_sources ob source_pattern KindAny
       (\<lambda>source s.
          case resolve_filter ob source selector (snd s) of
            (None, w1) \<Rightarrow> (True, fst s, w1)
          | (Some f, w1) \<Rightarrow>
              (let base = filter_for (ob_name ob source w1) (ob_name ob f w1);
                   s2 = param_loop lm ob dt f base param mode msg to (ob_properties ob f w1) (fst s, w1)
               in (True, with_world (ob_release ob f) s2))) s"

subsection \<open>Public entry points\<close>

definition set_item_flag ::
  "('w, 'd) obs_api \<Rightarrow> string \<Rightarrow> string \<Rightarrow> item_prop \<Rightarrow> bool option \<Rightarrow> 'w ctl \<Rightarrow> 'w ctl" where
  "set_item_flag ob scene_pattern item_selector prop value s =
     osc_visit_scene_items ob scene_pattern (Some item_selector) (flag_visit ob None prop value) s"

definition poll_item_flag ::
  "('w, 'd) obs_api \<Rightarrow> osc_endpoint \<Rightarrow> string \<Rightarrow> string \<Rightarrow> item_prop \<Rightarrow> 'w ctl \<Rightarrow> 'w ctl" where
  "poll_item_flag ob to scene_pattern item_selector prop s =
     osc_visit_scene_items ob scene_pattern (Some item_selector) (flag_visit ob (Some to) prop None) s"

definition set_item_order ::
  "('w, 'd) obs_api \<Rightarrow> string \<Rightarrow> string \<Rightarrow> int32 \<Rightarrow> 'w ctl \<Rightarrow> 'w ctl" where
  "set_item_order ob scene_pattern item_selector position s =
     osc_visit_scene_items ob scene_pattern (Some item_selector) (order_visit ob None position) s"

definition poll_item_order ::
  "('w, 'd) obs_api \<Rightarrow> osc_endpoint \<Rightarrow> string \<Rightarrow> string \<Rightarrow> 'w ctl \<Rightarrow> 'w ctl" where
  "poll_item_order ob to scene_pattern item_selector s =
     osc_visit_scene_items ob scene_pattern (Some item_selector) (order_visit ob (Some to) 0) s"

definition write_transform ::
  "libm \<Rightarrow> ('w, 'd) obs_api \<Rightarrow> string \<Rightarrow> string \<Rightarrow> string \<Rightarrow> f32 \<Rightarrow> 'w ctl \<Rightarrow> 'w ctl" where
  "write_transform lm ob scene_pattern item_selector field_name value s =
     (case find_transform_field lm ob field_name of
        None \<Rightarrow> s
      | Some f \<Rightarrow>
          osc_visit_scene_items ob scene_pattern (Some item_selector)
            (transform_visit lm ob None (Some f) value) s)"

definition poll_transform ::
  "libm \<Rightarrow> ('w, 'd) obs_api \<Rightarrow> osc_endpoint \<Rightarrow> string \<Rightarrow> string \<Rightarrow> string option \<Rightarrow> 'w ctl \<Rightarrow> 'w ctl" where
  "poll_transform lm ob to scene_pattern item_selector field_name s =
     (let visit = (\<lambda>field. osc_visit_scene_items ob scene_pattern (Some item_selector)
                             (transform_visit lm ob (Some to) field f32_zero) s)
      in case field_name of
        None \<Rightarrow> visit None
      | Some n \<Rightarrow>
          (case find_transform_field lm ob n of None \<Rightarrow> s | Some f \<Rightarrow> visit (Some f)))"

definition set_filter_enabled ::
  "('w, 'd) obs_api \<Rightarrow> string \<Rightarrow> string \<Rightarrow> bool option \<Rightarrow> 'w ctl \<Rightarrow> 'w ctl" where
  "set_filter_enabled ob source_pattern selector value s =
     run_filter_enable_pass ob source_pattern selector value None s"

definition poll_filter_enabled ::
  "('w, 'd) obs_api \<Rightarrow> osc_endpoint \<Rightarrow> string \<Rightarrow> string \<Rightarrow> 'w ctl \<Rightarrow> 'w ctl" where
  "poll_filter_enabled ob to source_pattern selector s =
     run_filter_enable_pass ob source_pattern selector None (Some to) s"

text \<open>The null message and the null endpoint are never read in the modes that pass them.\<close>

definition no_message :: osc_message where
  "no_message = \<lparr>address = [], args = []\<rparr>"

definition no_endpoint :: osc_endpoint where
  "no_endpoint = \<lparr>ep_addr = no_addr, ep_len = 0\<rparr>"

definition poll_filter_params ::
  "libm \<Rightarrow> ('w, 'd) obs_api \<Rightarrow> 'd data_api \<Rightarrow> osc_endpoint \<Rightarrow> string \<Rightarrow> string \<Rightarrow> 'w ctl \<Rightarrow> 'w ctl" where
  "poll_filter_params lm ob dt to source_pattern selector s =
     run_param_pass lm ob dt source_pattern selector [] ListAll no_message to s"

definition poll_filter_param ::
  "libm \<Rightarrow> ('w, 'd) obs_api \<Rightarrow> 'd data_api \<Rightarrow> osc_endpoint \<Rightarrow> string \<Rightarrow> string \<Rightarrow> string \<Rightarrow> 'w ctl \<Rightarrow> 'w ctl" where
  "poll_filter_param lm ob dt to source_pattern selector param s =
     run_param_pass lm ob dt source_pattern selector param ReadOne no_message to s"

definition write_filter_param ::
  "libm \<Rightarrow> ('w, 'd) obs_api \<Rightarrow> 'd data_api \<Rightarrow> osc_message \<Rightarrow> string \<Rightarrow> string \<Rightarrow> string \<Rightarrow> 'w ctl \<Rightarrow> 'w ctl" where
  "write_filter_param lm ob dt msg source_pattern selector param s =
     run_param_pass lm ob dt source_pattern selector param WriteOne msg no_endpoint s"

definition poll_input_state ::
  "('w, 'd) obs_api \<Rightarrow> osc_endpoint \<Rightarrow> string \<Rightarrow> bool \<Rightarrow> 'w ctl \<Rightarrow> 'w ctl" where
  "poll_input_state ob to pattern showing s =
     osc_visit_sources ob pattern KindInput
       (\<lambda>source s.
          let on = (if showing then ob_showing ob source (snd s) else ob_source_active ob source (snd s));
              addr = prefixed (if showing then showing_prefix else active_prefix)
                       (ob_name ob source (snd s))
          in (True, reply to addr [osc_int (if on then 1 else 0)] s)) s"

definition trigger_hotkey :: "('w, 'd) obs_api \<Rightarrow> string \<Rightarrow> 'w \<Rightarrow> 'w" where
  "trigger_hotkey ob name w =
     (case find (\<lambda>hk. snd hk = name) (ob_hotkeys ob w) of
        None \<Rightarrow> w
      | Some (hk, _) \<Rightarrow> ob_hotkey_trigger ob hk False (ob_hotkey_trigger ob hk True w))"

subsection \<open>References\<close>

lemma snd_reply [simp]: "snd (reply to addr as s) = snd s"
  by (simp add: reply_def)

lemma snd_with_world [simp]: "snd (with_world f s) = f (snd s)" "fst (with_world f s) = fst s"
  by (simp_all add: with_world_def)

lemma balanced_setters:
  assumes "balanced_obs refs ob"
  shows "refs (ob_set_muted ob x b w) = refs w" "refs (ob_set_volume ob x v w) = refs w"
    "refs (ob_set_enabled ob x b w) = refs w" "refs (ob_media_play_pause ob x b w) = refs w"
    "refs (ob_media_stop ob x w) = refs w" "refs (ob_media_restart ob x w) = refs w"
    "refs (ob_media_next ob x w) = refs w" "refs (ob_media_previous ob x w) = refs w"
    "refs (ob_set_item_visible ob x b w) = refs w" "refs (ob_set_item_locked ob x b w) = refs w"
    "refs (ob_set_item_order ob x i w) = refs w" "refs (ob_update ob x d w) = refs w"
    "refs (ob_hotkey_trigger ob x b w) = refs w"
  using assms by (simp_all add: balanced_obs_def keeps_refs_def)

lemma flag_visit_refs: "balanced_obs refs ob \<Longrightarrow> keeps_refs_visit refs (flag_visit ob to prop value n)"
  by (simp add: keeps_refs_visit_def flag_visit_def Let_def balanced_setters split: option.splits item_prop.splits)

lemma order_visit_refs: "balanced_obs refs ob \<Longrightarrow> keeps_refs_visit refs (order_visit ob to pos n)"
  by (simp add: keeps_refs_visit_def order_visit_def balanced_setters split: option.splits)

lemma snd_reply_fold: "snd (foldl (\<lambda>s f. reply to (a f) (as f s) s) s fs) = snd s"
  by (induction fs arbitrary: s) simp_all

lemma transform_visit_refs:
  assumes "balanced_obs refs ob" "\<And>f. field = Some f \<Longrightarrow> f \<in> set (osc_transform_fields lm ob)"
  shows "keeps_refs_visit refs (transform_visit lm ob to field value n)"
  using transform_field_refs [OF assms(1)] assms(2)
  by (auto simp: keeps_refs_visit_def transform_visit_def Let_def snd_reply_fold split: option.splits)

lemma find_transform_field_in: "find_transform_field lm ob n = Some f \<Longrightarrow> f \<in> set (osc_transform_fields lm ob)"
  by (simp add: find_transform_field_def find_SomeD)

lemma filter_chain_refs:
  "balanced_obs refs ob \<Longrightarrow> refs (snd (filter_chain ob n sel value to fs i s)) = refs (snd s)"
  by (induction fs arbitrary: i s) (simp_all add: Let_def balanced_setters split: option.splits)

lemma item_ops_refs:
  assumes b: "balanced_obs refs ob"
  shows "refs (snd (set_item_flag ob sp sel prop value s)) = refs (snd s)"
    "refs (snd (poll_item_flag ob to sp sel prop s)) = refs (snd s)"
    "refs (snd (set_item_order ob sp sel pos s)) = refs (snd s)"
    "refs (snd (poll_item_order ob to sp sel s)) = refs (snd s)"
  by (simp_all add: set_item_flag_def poll_item_flag_def set_item_order_def poll_item_order_def
      visit_scene_items_refs [OF b] flag_visit_refs [OF b] order_visit_refs [OF b])

lemma transform_ops_refs:
  assumes b: "balanced_obs refs ob"
  shows "refs (snd (write_transform lm ob sp sel n v s)) = refs (snd s)"
    "refs (snd (poll_transform lm ob to sp sel no s)) = refs (snd s)"
proof -
  have v: "refs (snd (osc_visit_scene_items ob sp (Some sel) (transform_visit lm ob to fo v) s)) = refs (snd s)"
    if "\<And>f. fo = Some f \<Longrightarrow> f \<in> set (osc_transform_fields lm ob)" for to fo v
    by (intro visit_scene_items_refs [OF b] transform_visit_refs [OF b] that)
  show "refs (snd (write_transform lm ob sp sel n v s)) = refs (snd s)"
  proof (cases "find_transform_field lm ob n")
    case (Some f)
    with v [of "Some f" None v] find_transform_field_in [OF Some] show ?thesis
      by (simp add: write_transform_def)
  qed (simp add: write_transform_def)
  show "refs (snd (poll_transform lm ob to sp sel no s)) = refs (snd s)"
  proof (cases "case no of None \<Rightarrow> None | Some n \<Rightarrow> find_transform_field lm ob n")
    case None
    with v [of None "Some to"] show ?thesis
      by (auto simp: poll_transform_def Let_def split: option.splits)
  next
    case (Some f)
    then obtain n where n: "no = Some n" "find_transform_field lm ob n = Some f"
      by (auto split: option.splits)
    with v [of "Some f" "Some to"] find_transform_field_in [OF n(2)] show ?thesis
      by (simp add: poll_transform_def)
  qed
qed

lemma filter_enable_refs:
  assumes b: "balanced_obs refs ob"
  shows "refs (snd (run_filter_enable_pass ob sp sel value to s)) = refs (snd s)"
  unfolding run_filter_enable_pass_def
  by (rule visit_sources_refs [OF b]) (simp add: keeps_refs_visit_def filter_chain_refs [OF b])

lemma input_state_refs:
  assumes b: "balanced_obs refs ob"
  shows "refs (snd (poll_input_state ob to pattern showing s)) = refs (snd s)"
  unfolding poll_input_state_def
  by (rule visit_sources_refs [OF b]) (simp add: keeps_refs_visit_def Let_def)

lemma trigger_hotkey_refs: "balanced_obs refs ob \<Longrightarrow> refs (trigger_hotkey ob n w) = refs w"
  by (simp add: trigger_hotkey_def balanced_setters split: option.splits)

lemma read_property_world [simp]: "snd (read_property dt base prop settings to s) = snd s"
  by (simp add: read_property_def Let_def split: prod.splits property_type.splits)

lemma param_loop_refs:
  "balanced_obs refs ob \<Longrightarrow> refs (snd (param_loop lm ob dt f base param mode msg to props s)) = refs (snd s)"
  by (cases mode; induction props arbitrary: s)
    (simp_all add: Let_def write_property_def balanced_setters split: prod.splits)

text \<open>
  What the resolution of a selector costs: a reference of every filter that matches, of which
  the caller gives back only the last.  Names do not change while it runs.
\<close>

fun matching_filters :: "string \<Rightarrow> (nat \<Rightarrow> string) \<Rightarrow> nat list \<Rightarrow> nat \<Rightarrow> nat list" where
  "matching_filters selector nm [] i = []"
| "matching_filters selector nm (f # fs) i =
     (if osc_selector_matches selector (nm f) i then [f] else []) @ matching_filters selector nm fs (i + 1)"

definition last_or :: "nat option \<Rightarrow> nat list \<Rightarrow> nat option" where
  "last_or d xs = (if xs = [] then d else Some (last xs))"

lemma resolve_from_refs:
  assumes b: "balanced_obs refs ob" and nm: "\<And>x w. ob_name ob x w = nm x"
    and live: "\<And>x w. fst (ob_get_ref ob x w)"
  shows "resolve_from ob sel fs i found w = (r, w') \<Longrightarrow>
    r = last_or found (matching_filters sel nm fs i) \<and>
    (\<forall>g. refs w' g = refs w g + int (count_list (matching_filters sel nm fs i) g))"
proof (induction fs arbitrary: i found w)
  case Nil
  then show ?case by (simp add: last_or_def)
next
  case (Cons f fs)
  show ?case
  proof (cases "osc_selector_matches sel (nm f) i")
    case False
    with Cons show ?thesis by (simp add: nm)
  next
    case True
    obtain w1 where g: "ob_get_ref ob f w = (True, w1)" using live [of f w] by (metis prod.collapse)
    have "case ob_get_ref ob f w of (False, w') \<Rightarrow> refs w' = refs w
        | (True, w') \<Rightarrow> refs w' = (refs w)(f := refs w f + 1)"
      using b by (simp add: balanced_obs_def)
    then have r1: "refs w1 = (refs w)(f := refs w f + 1)" by (simp add: g)
    have "resolve_from ob sel fs (i + 1) (Some f) w1 = (r, w')"
      using Cons.prems True by (simp add: nm g)
    from Cons.IH [OF this] r1 True show ?thesis by (auto simp: last_or_def)
  qed
qed

text \<open>A parameter pass over one source leaks a reference of every match but the last.\<close>

definition leaked :: "nat list \<Rightarrow> nat \<Rightarrow> int" where
  "leaked ms g = int (count_list (butlast ms) g)"

lemma leaked_last: "ms \<noteq> [] \<Longrightarrow> int (count_list ms g) - (if g = last ms then 1 else 0) = leaked ms g"
proof -
  assume "ms \<noteq> []"
  then have "count_list ms g = count_list (butlast ms @ [last ms]) g" by simp
  also have "\<dots> = count_list (butlast ms) g + (if last ms = g then 1 else 0)"
    by (simp only: count_list_append) simp
  finally show ?thesis by (auto simp: leaked_def)
qed

lemma run_param_pass_refs:
  assumes b: "balanced_obs refs ob" and nm: "\<And>x w. ob_name ob x w = nm x"
    and live: "\<And>x w. fst (ob_get_ref ob x w)" and fl: "\<And>x w. ob_filters ob x w = fl x"
    and exact: "\<not> osc_has_wildcard (Some pattern)"
    and src: "ob_source_by_name ob pattern w = (Some x, w1)"
  shows "refs (snd (run_param_pass lm ob dt pattern sel param mode msg to (sv, w))) g =
     refs w g + leaked (matching_filters sel nm (fl x) 0) g"
proof -
  let ?ms = "matching_filters sel nm (fl x) 0"
  have r1: "refs w1 = (refs w)(x := refs w x + 1)" by (rule balanced_by_name(2) [OF b src])
  obtain r w2 where res: "resolve_filter ob x sel w1 = (r, w2)" by fastforce
  then have "resolve_from ob sel (fl x) 0 None w1 = (r, w2)" by (simp add: resolve_filter_def fl)
  from resolve_from_refs [OF b nm live this]
  have r: "r = last_or None ?ms" and c: "\<And>g. refs w2 g = refs w1 g + int (count_list ?ms g)" by auto
  show ?thesis
  proof (cases "?ms = []")
    case True
    with r have "r = None" by (simp add: last_or_def)
    with exact src res c r1 True show ?thesis
      by (simp add: run_param_pass_def osc_visit_sources_def type_ok_def balanced_release [OF b] leaked_def)
  next
    case False
    then have rs: "r = Some (last ?ms)" using r by (simp add: last_or_def)
    let ?base = "filter_for (ob_name ob x w2) (ob_name ob (last ?ms) w2)"
    let ?s = "param_loop lm ob dt (last ?ms) ?base param mode msg to (ob_properties ob (last ?ms) w2) (sv, w2)"
    have "run_param_pass lm ob dt pattern sel param mode msg to (sv, w) =
        (fst ?s, ob_release ob x (ob_release ob (last ?ms) (snd ?s)))"
      using exact src res rs
      by (simp add: run_param_pass_def osc_visit_sources_def type_ok_def Let_def with_world_def)
    then have "refs (snd (run_param_pass lm ob dt pattern sel param mode msg to (sv, w))) g =
       refs w2 g - (if g = last ?ms then 1 else 0) - (if g = x then 1 else 0)"
      using param_loop_refs [OF b, of lm dt "last ?ms" ?base param mode msg to "ob_properties ob (last ?ms) w2" "(sv, w2)"]
      by (simp add: balanced_release [OF b])
    then show ?thesis using c [of g] r1 leaked_last [OF False, of g] by (auto split: if_splits)
  qed
qed

lemma matching_index:
  assumes "osc_index_segment sel"
  shows "length (matching_filters sel nm fs i) \<le> 1 \<and>
    (matching_filters sel nm fs i \<noteq> [] \<longrightarrow> int i \<le> atoi sel mod 2 ^ 64)"
proof (induction fs arbitrary: i)
  case (Cons f fs)
  show ?case
  proof (cases "atoi sel mod 2 ^ 64 = int i")
    case True
    with Cons.IH [of "i + 1"] assms show ?thesis by (auto simp: osc_selector_matches_def)
  next
    case False
    with Cons.IH [of "i + 1"] assms show ?thesis by (auto simp: osc_selector_matches_def)
  qed
qed simp

lemma leaked_index: "osc_index_segment sel \<Longrightarrow> leaked (matching_filters sel nm fs 0) g = 0"
  using matching_index [of sel nm fs 0]
  by (cases "matching_filters sel nm fs 0") (auto simp: leaked_def)

end
