(* ===== verification/OscControls.thy ===== *)
theory OscControls
  imports OscFeedback OscObjects
begin

text \<open>
  The control plane (\<^verbatim>\<open>osc-controls.cpp\<close>): the commands on scenes, outputs and sources, the polls,
  and the dispatcher that routes a message.  The long chains of routes are split into groups,
  in the order of the code; a group answers \<open>None\<close> when none of its routes matches.
\<close>

subsection \<open>Scenes, preview and transitions\<close>

definition get_input_by_name :: "('w, 'd) obs_api \<Rightarrow> string \<Rightarrow> 'w \<Rightarrow> nat option \<times> 'w" where
  "get_input_by_name ob name w = osc_source_of_type ob name SourceInput w"

definition get_scene_by_name :: "('w, 'd) obs_api \<Rightarrow> string \<Rightarrow> 'w \<Rightarrow> nat option \<times> 'w" where
  "get_scene_by_name ob name w = osc_source_of_type ob name SourceScene w"

definition scene_index_enum ::
  "('w, 'd) obs_api \<Rightarrow> int \<Rightarrow> 'w \<Rightarrow> nat \<Rightarrow> int \<times> string \<Rightarrow> bool \<times> int \<times> string" where
  "scene_index_enum ob want w scene ctx =
     (case ctx of (current, found_name) \<Rightarrow>
        let current = current + 1
        in if current = want then (False, current, ob_name ob scene w)
           else (True, current, found_name))"

definition switch_program_scene :: "('w, 'd) env \<Rightarrow> string \<Rightarrow> 'w \<Rightarrow> 'w" where
  "switch_program_scene en name w =
     (case get_scene_by_name (en_obs en) name w of
        (None, w1) \<Rightarrow> w1
      | (Some scene, w1) \<Rightarrow> ob_release (en_obs en) scene (fe_set_scene (en_fe en) scene w1))"

definition switch_program_scene_index :: "('w, 'd) env \<Rightarrow> int \<Rightarrow> 'w \<Rightarrow> 'w" where
  "switch_program_scene_index en index w =
     (if index \<le> 0 then w
      else
        let ctx = enum_until (scene_index_enum (en_obs en) index w) (ob_scenes (en_obs en) w) (0, [])
        in if snd ctx \<noteq> [] then switch_program_scene en (c_str (snd ctx)) w else w)"

definition switch_preview_scene :: "('w, 'd) env \<Rightarrow> string \<Rightarrow> 'w \<Rightarrow> 'w" where
  "switch_preview_scene en name w =
     (case get_scene_by_name (en_obs en) name w of
        (None, w1) \<Rightarrow> w1
      | (Some scene, w1) \<Rightarrow> ob_release (en_obs en) scene (fe_set_preview (en_fe en) scene w1))"

definition transition_enum_cb ::
  "('w, 'd) obs_api \<Rightarrow> string \<Rightarrow> nat \<Rightarrow> nat option \<times> 'w \<Rightarrow> nat option \<times> 'w" where
  "transition_enum_cb ob want transition s =
     (if fst s = None \<and> ob_name ob transition (snd s) = want
      then (case ob_get_ref ob transition (snd s) of (ok, w1) \<Rightarrow>
              (if ok then Some transition else None, w1))
      else s)"

definition select_transition :: "('w, 'd) env \<Rightarrow> string \<Rightarrow> 'w \<Rightarrow> 'w" where
  "select_transition en name w =
     (case osc_enum_transitions (en_fe en) (transition_enum_cb (en_obs en) name) (None, w) of
        (None, w1) \<Rightarrow> w1
      | (Some t, w1) \<Rightarrow> ob_release (en_obs en) t (fe_set_transition (en_fe en) t w1))"

subsection \<open>Outputs\<close>

text \<open>The function pointers of \<^verbatim>\<open>run_output_command\<close>; \<open>None\<close> for those an output leaves null.\<close>

record 'w output_ops =
  op_active :: "'w \<Rightarrow> bool"
  op_start :: "'w \<Rightarrow> 'w"
  op_stop :: "'w \<Rightarrow> 'w"
  op_paused :: "('w \<Rightarrow> bool) option"
  op_set_paused :: "(bool \<Rightarrow> 'w \<Rightarrow> 'w) option"
  op_save :: "('w \<Rightarrow> 'w) option"

fun output_ops_of :: "'w frontend_api \<Rightarrow> output_id \<Rightarrow> 'w output_ops" where
  "output_ops_of fe OutStream =
     \<lparr>op_active = fe_streaming_active fe, op_start = fe_streaming_start fe,
      op_stop = fe_streaming_stop fe, op_paused = None, op_set_paused = None, op_save = None\<rparr>"
| "output_ops_of fe OutRecord =
     \<lparr>op_active = fe_recording_active fe, op_start = fe_recording_start fe,
      op_stop = fe_recording_stop fe, op_paused = Some (fe_recording_paused fe),
      op_set_paused = Some (fe_recording_pause fe), op_save = None\<rparr>"
| "output_ops_of fe OutReplay =
     \<lparr>op_active = fe_replay_active fe, op_start = fe_replay_start fe,
      op_stop = fe_replay_stop fe, op_paused = None, op_set_paused = None,
      op_save = Some (fe_replay_save fe)\<rparr>"
| "output_ops_of fe OutVirtualcam =
     \<lparr>op_active = fe_virtualcam_active fe, op_start = fe_virtualcam_start fe,
      op_stop = fe_virtualcam_stop fe, op_paused = None, op_set_paused = None, op_save = None\<rparr>"

definition run_output_command ::
  "'w frontend_api \<Rightarrow> output_id \<Rightarrow> osc_message \<Rightarrow> string \<Rightarrow> 'w \<Rightarrow> 'w" where
  "run_output_command fe out msg sub w =
     (let ops = output_ops_of fe out
      in if op_save ops \<noteq> None \<and> sub = sub_save then
           (if op_active ops w then the (op_save ops) w else w)
         else if op_set_paused ops \<noteq> None \<and> sub = sub_pause then
           the (op_set_paused ops) (arg_bool msg 0 (\<not> the (op_paused ops) w)) w
         else
           let is_active = op_active ops w;
               start_it = (if sub = sub_start then True
                           else if sub = sub_stop then False
                           else if sub = sub_toggle then \<not> is_active
                           else arg_bool msg 0 (\<not> is_active))
           in if start_it \<and> \<not> is_active then op_start ops w
              else if \<not> start_it \<and> is_active then op_stop ops w
              else w)"

subsection \<open>Sources\<close>

definition mute_inputs :: "('w, 'd) obs_api \<Rightarrow> string \<Rightarrow> bool option \<Rightarrow> 'w ctl \<Rightarrow> 'w ctl" where
  "mute_inputs ob pattern value s =
     osc_visit_sources ob pattern KindInput
       (\<lambda>source s.
          (True, with_world (ob_set_muted ob source
                   (case value of Some b \<Rightarrow> b | None \<Rightarrow> \<not> ob_muted ob source (snd s))) s)) s"

definition set_input_volume :: "('w, 'd) obs_api \<Rightarrow> string \<Rightarrow> f32 \<Rightarrow> 'w \<Rightarrow> 'w" where
  "set_input_volume ob name multiplier w =
     (case get_input_by_name ob name w of
        (None, w1) \<Rightarrow> w1
      | (Some source, w1) \<Rightarrow> ob_release ob source (ob_set_volume ob source multiplier w1))"

text \<open>\<^verbatim>\<open>OBS_MEDIA_STATE_PLAYING\<close> is 1.\<close>

definition media_state_playing :: int32 where "media_state_playing = 1"

fun media_act :: "('w, 'd) obs_api \<Rightarrow> media_action \<Rightarrow> nat \<Rightarrow> 'w \<Rightarrow> 'w" where
  "media_act ob MediaPlay source w = ob_media_play_pause ob source False w"
| "media_act ob MediaPause source w = ob_media_play_pause ob source True w"
| "media_act ob MediaToggle source w =
     ob_media_play_pause ob source (ob_media_state ob source w = media_state_playing) w"
| "media_act ob MediaStop source w = ob_media_stop ob source w"
| "media_act ob MediaRestart source w = ob_media_restart ob source w"
| "media_act ob MediaNext source w = ob_media_next ob source w"
| "media_act ob MediaPrev source w = ob_media_previous ob source w"

definition media_command :: "('w, 'd) obs_api \<Rightarrow> string \<Rightarrow> string \<Rightarrow> 'w \<Rightarrow> 'w" where
  "media_command ob name verb w =
     (case get_input_by_name ob name w of
        (None, w1) \<Rightarrow> w1
      | (Some source, w1) \<Rightarrow>
          ob_release ob source
            (case find (\<lambda>v. fst v = verb) media_verbs of
               None \<Rightarrow> w1
             | Some (_, action) \<Rightarrow> media_act ob action source w1))"

subsection \<open>Polls\<close>

definition output_active :: "'w frontend_api \<Rightarrow> output_id \<Rightarrow> 'w \<Rightarrow> bool" where
  "output_active fe out w =
     (case out of
        OutStream \<Rightarrow> fe_streaming_active fe w
      | OutRecord \<Rightarrow> fe_recording_active fe w
      | OutReplay \<Rightarrow> fe_replay_active fe w
      | OutVirtualcam \<Rightarrow> fe_virtualcam_active fe w)"

definition poll_mute_inputs :: "('w, 'd) obs_api \<Rightarrow> string \<Rightarrow> osc_endpoint \<Rightarrow> 'w ctl \<Rightarrow> 'w ctl" where
  "poll_mute_inputs ob pattern to s =
     osc_visit_sources ob pattern KindInput
       (\<lambda>source s. (True, reply to (mute_for (ob_name ob source (snd s)))
                            [osc_bool (ob_muted ob source (snd s))] s)) s"

text \<open>The common shape of the polls of one input: look it up, answer, release it.\<close>

definition with_input ::
  "('w, 'd) obs_api \<Rightarrow> string \<Rightarrow> (nat \<Rightarrow> 'x \<times> 'w \<Rightarrow> 'x \<times> 'w) \<Rightarrow> 'x \<times> 'w \<Rightarrow> 'x \<times> 'w" where
  "with_input ob name f s =
     (case get_input_by_name ob name (snd s) of
        (None, w1) \<Rightarrow> (fst s, w1)
      | (Some source, w1) \<Rightarrow> with_world (ob_release ob source) (f source (fst s, w1)))"

definition poll_media_state :: "('w, 'd) obs_api \<Rightarrow> string \<Rightarrow> osc_endpoint \<Rightarrow> 'w ctl \<Rightarrow> 'w ctl" where
  "poll_media_state ob name to s =
     with_input ob name
       (\<lambda>source s. reply to (media_state_for name) [osc_int (ob_media_state ob source (snd s))] s) s"

definition poll_current ::
  "('w, 'd) env \<Rightarrow> osc_endpoint \<Rightarrow> string \<Rightarrow> ('w \<Rightarrow> nat option \<times> 'w) \<Rightarrow> 'w ctl \<Rightarrow> 'w ctl" where
  "poll_current en to addr lookup s =
     (case lookup (snd s) of
        (None, w1) \<Rightarrow> reply to addr [osc_str []] (fst s, w1)
      | (Some x, w1) \<Rightarrow>
          with_world (ob_release (en_obs en) x)
            (reply to addr [osc_str (ob_name (en_obs en) x w1)] (fst s, w1)))"

definition poll_frontend :: "('w, 'd) env \<Rightarrow> string \<Rightarrow> osc_endpoint \<Rightarrow> 'w ctl \<Rightarrow> 'w ctl option" where
  "poll_frontend en a to s =
     (let fe = en_fe en
      in if a = addr_studio then Some (reply to addr_studio [osc_bool (fe_studio_active fe (snd s))] s)
         else if a = addr_program then Some (poll_current en to addr_program (fe_current_scene fe) s)
         else if a = addr_preview then Some (poll_current en to addr_preview (fe_current_preview fe) s)
         else if a = addr_transition
           then Some (poll_current en to addr_transition (fe_current_transition fe) s)
         else if a = addr_profile
           then Some (reply to addr_profile [osc_str (or_empty (fe_current_profile fe (snd s)))] s)
         else if a = addr_collection
           then Some (reply to addr_collection [osc_str (or_empty (fe_current_collection fe (snd s)))] s)
         else if a = record_paused
           then Some (reply to record_paused [osc_bool (fe_recording_paused fe (snd s))] s)
         else map_option
                (\<lambda>out. reply to (out_base out) [osc_bool (output_active fe (out_id out) (snd s))] s)
                (find (\<lambda>out. a = out_base out) outputs))"

definition f32_ten :: f32 where "f32_ten = 0x41200000"
definition f32_twenty :: f32 where "f32_twenty = 0x41A00000"
definition f32_minus_hundred :: f32 where "f32_minus_hundred = 0xC2C80000"

definition volume_db :: "libm \<Rightarrow> f32 \<Rightarrow> f32" where
  "volume_db lm mult =
     (if f32_lt f32_zero mult then f32_mul f32_twenty (lm_log10 lm mult) else f32_minus_hundred)"

text \<open>The flag is what the poll returns: transport verbs act regardless of arguments.\<close>

definition poll_sources ::
  "('w, 'd) env \<Rightarrow> string \<Rightarrow> osc_endpoint \<Rightarrow> 'w ctl \<Rightarrow> (bool \<times> 'w ctl) option" where
  "poll_sources en a to s =
     (let ob = en_obs en
      in case tail a mute_prefix of
        Some pattern \<Rightarrow> Some (True, poll_mute_inputs ob pattern to s)
      | None \<Rightarrow>
      (case tail a volume_prefix of
        Some name \<Rightarrow>
          Some (True, with_input ob name
            (\<lambda>source s. reply to (volume_for name)
                [osc_flt (osc_volume_position (ob_volume ob source (snd s)))] s) s)
      | None \<Rightarrow>
      (case tail a db_prefix of
        Some name \<Rightarrow>
          Some (True, with_input ob name
            (\<lambda>source s. reply to (prefixed db_prefix name)
                [osc_flt (volume_db (en_lm en) (ob_volume ob source (snd s)))] s) s)
      | None \<Rightarrow>
      (case tail a media_prefix of
        Some rest \<Rightarrow>
          (case split_two_segments rest of
             None \<Rightarrow> Some (True, poll_media_state ob rest to s)
           | Some (name, verb) \<Rightarrow>
               (if verb = media_state_node then Some (True, poll_media_state ob (c_str name) to s)
                else Some (False, s)))
      | None \<Rightarrow> None))))"

definition poll_all_objects :: "('w, 'd) env \<Rightarrow> string \<Rightarrow> osc_endpoint \<Rightarrow> 'w ctl \<Rightarrow> 'w ctl option" where
  "poll_all_objects en a to s =
     (let ob = en_obs en
      in if a = addr_visible then Some (poll_item_flag ob to ''*'' ''*'' PropVisible s)
         else if a = addr_locked then Some (poll_item_flag ob to ''*'' ''*'' PropLocked s)
         else if a = addr_order then Some (poll_item_order ob to ''*'' ''*'' s)
         else if a = addr_filter then Some (poll_filter_enabled ob to ''*'' ''*'' s)
         else if a = addr_active then Some (poll_input_state ob to ''*'' False s)
         else if a = addr_showing then Some (poll_input_state ob to ''*'' True s)
         else if a = addr_transform then Some (poll_transform (en_lm en) ob to ''*'' ''*'' None s)
         else None)"

text \<open>\<^verbatim>\<open>/<route>/<scene>\<close> polls every item, \<^verbatim>\<open>/<route>/<scene>/<item>\<close> one.\<close>

definition scene_and_item :: "string \<Rightarrow> string \<times> string" where
  "scene_and_item rest =
     (case split_two_segments rest of None \<Rightarrow> (rest, ''*'') | Some (scene, item) \<Rightarrow> (scene, item))"

definition poll_filter_route :: "('w, 'd) env \<Rightarrow> string \<Rightarrow> osc_endpoint \<Rightarrow> 'w ctl \<Rightarrow> 'w ctl" where
  "poll_filter_route en rest to s =
     (case split_two_segments rest of
        None \<Rightarrow> poll_filter_enabled (en_obs en) to rest ''*'' s
      | Some (source, rest2) \<Rightarrow>
          (case split_two_segments rest2 of
             None \<Rightarrow> poll_filter_enabled (en_obs en) to source rest2 s
           | Some (selector, param) \<Rightarrow>
               (if param = filter_params_node
                then poll_filter_params (en_lm en) (en_obs en) (en_data en) to source selector s
                else poll_filter_param (en_lm en) (en_obs en) (en_data en) to source selector param s)))"

definition poll_transform_route :: "('w, 'd) env \<Rightarrow> string \<Rightarrow> osc_endpoint \<Rightarrow> 'w ctl \<Rightarrow> 'w ctl" where
  "poll_transform_route en rest to s =
     (case split_two_segments rest of
        None \<Rightarrow> poll_transform (en_lm en) (en_obs en) to rest ''*'' None s
      | Some (scene, remainder) \<Rightarrow>
          (case split_two_segments remainder of
             None \<Rightarrow> poll_transform (en_lm en) (en_obs en) to scene remainder None s
           | Some (item, field) \<Rightarrow>
               poll_transform (en_lm en) (en_obs en) to scene item (Some field) s))"

definition poll_objects :: "('w, 'd) env \<Rightarrow> string \<Rightarrow> osc_endpoint \<Rightarrow> 'w ctl \<Rightarrow> 'w ctl option" where
  "poll_objects en a to s =
     (let ob = en_obs en
      in case tail a visible_prefix of
        Some rest \<Rightarrow>
          Some (poll_item_flag ob to (fst (scene_and_item rest)) (snd (scene_and_item rest)) PropVisible s)
      | None \<Rightarrow>
      (case tail a locked_prefix of
        Some rest \<Rightarrow>
          Some (poll_item_flag ob to (fst (scene_and_item rest)) (snd (scene_and_item rest)) PropLocked s)
      | None \<Rightarrow>
      (case tail a order_prefix of
        Some rest \<Rightarrow> Some (poll_item_order ob to (fst (scene_and_item rest)) (snd (scene_and_item rest)) s)
      | None \<Rightarrow>
      (case tail a filter_prefix of
        Some rest \<Rightarrow> Some (poll_filter_route en rest to s)
      | None \<Rightarrow>
      (case tail a transform_prefix of
        Some rest \<Rightarrow> Some (poll_transform_route en rest to s)
      | None \<Rightarrow>
      (case tail a active_prefix of
        Some pattern \<Rightarrow> Some (poll_input_state ob to pattern False s)
      | None \<Rightarrow>
      (case tail a showing_prefix of
        Some pattern \<Rightarrow> Some (poll_input_state ob to pattern True s)
      | None \<Rightarrow> None)))))))"

definition poll_routes :: "('w, 'd) env \<Rightarrow> string \<Rightarrow> osc_endpoint \<Rightarrow> 'w ctl \<Rightarrow> bool \<times> 'w ctl" where
  "poll_routes en a to s =
     (case poll_frontend en a to s of
        Some s1 \<Rightarrow> (True, s1)
      | None \<Rightarrow>
      (case poll_sources en a to s of
        Some r \<Rightarrow> r
      | None \<Rightarrow>
      (case poll_all_objects en a to s of
        Some s1 \<Rightarrow> (True, s1)
      | None \<Rightarrow>
      (case poll_objects en a to s of
        Some s1 \<Rightarrow> (True, s1)
      | None \<Rightarrow> (False, s)))))"


definition poll_dispatch :: "('w, 'd) env \<Rightarrow> string \<Rightarrow> osc_endpoint \<Rightarrow> 'w ctl \<Rightarrow> bool \<times> 'w ctl" where
  "poll_dispatch en a to s =
     reply_batch_scope to (poll_routes en a to) s"

subsection \<open>Commands\<close>

definition arg_is_toggle :: "osc_message \<Rightarrow> bool" where
  "arg_is_toggle msg =
     (if args msg = [] then False
      else
        let a = args msg ! 0
        in if arg_type a = CHR ''i'' then arg_i a = - 1
           else if arg_type a = CHR ''f'' then f32_eq (arg_f a) f32_minus_one
           else False)"

text \<open>The value most routes pass on: null (toggle) for -1, else the flag of the argument.\<close>

definition toggle_value :: "osc_message \<Rightarrow> bool option" where
  "toggle_value msg = (if arg_is_toggle msg then None else Some (arg_bool msg 0 False))"

definition scene_commands :: "('w, 'd) env \<Rightarrow> osc_message \<Rightarrow> 'w \<Rightarrow> 'w option" where
  "scene_commands en msg w =
     (let a = address msg; fe = en_fe en
      in if a = addr_studio then
           Some (fe_set_studio fe
                   (if arg_is_toggle msg then \<not> fe_studio_active fe w else arg_bool msg 0 False) w)
         else if a = addr_transition then Some (fe_trigger_transition fe w)
         else
      case tail a transition_prefix of
        Some name \<Rightarrow>
          Some (if name = transition_go then fe_trigger_transition fe w else select_transition en name w)
      | None \<Rightarrow>
      (case tail a program_index_prefix of
        Some index \<Rightarrow> Some (switch_program_scene_index en (atoi index) w)
      | None \<Rightarrow>
      (case tail a program_prefix of
        Some name \<Rightarrow> Some (switch_program_scene en name w)
      | None \<Rightarrow>
      (case tail a preview_prefix of
        Some name \<Rightarrow> Some (switch_preview_scene en name w)
      | None \<Rightarrow>
      (case find (\<lambda>out. sub_action a (out_base out) \<noteq> None) outputs of
        Some out \<Rightarrow>
          Some (run_output_command fe (out_id out) msg (the (sub_action a (out_base out))) w)
      | None \<Rightarrow>
          (if a = addr_screenshot then Some (fe_screenshot fe w) else None))))))"

definition source_commands :: "('w, 'd) env \<Rightarrow> osc_message \<Rightarrow> 'w ctl \<Rightarrow> 'w ctl option" where
  "source_commands en msg s =
     (let a = address msg; ob = en_obs en
      in case tail a mute_prefix of
        Some pattern \<Rightarrow> Some (mute_inputs ob pattern (toggle_value msg) s)
      | None \<Rightarrow>
      (case tail a volume_prefix of
        Some name \<Rightarrow>
          Some (with_world (set_input_volume ob name
                  (osc_volume_multiplier (arg_float msg 0 f32_minus_one))) s)
      | None \<Rightarrow>
      (case tail a db_prefix of
        Some name \<Rightarrow>
          Some (with_world (set_input_volume ob name
                  (lm_pow (en_lm en) f32_ten (f32_div (arg_float msg 0 f32_zero) f32_twenty))) s)
      | None \<Rightarrow>
      (case tail a media_prefix of
        Some rest \<Rightarrow>
          Some (case split_two_segments rest of
                  Some (name, verb) \<Rightarrow> with_world (media_command ob name verb) s
                | None \<Rightarrow> s)
      | None \<Rightarrow> None))))"

definition filter_command :: "('w, 'd) env \<Rightarrow> osc_message \<Rightarrow> string \<Rightarrow> 'w ctl \<Rightarrow> 'w ctl" where
  "filter_command en msg rest s =
     (case split_two_segments rest of
        None \<Rightarrow> s
      | Some (source, rest2) \<Rightarrow>
          (case split_two_segments rest2 of
             Some (selector, param) \<Rightarrow>
               write_filter_param (en_lm en) (en_obs en) (en_data en) msg source selector param s
           | None \<Rightarrow> set_filter_enabled (en_obs en) source rest2 (toggle_value msg) s))"

definition transform_command :: "('w, 'd) env \<Rightarrow> osc_message \<Rightarrow> string \<Rightarrow> 'w ctl \<Rightarrow> 'w ctl" where
  "transform_command en msg rest s =
     (case split_two_segments rest of
        None \<Rightarrow> s
      | Some (scene, remainder) \<Rightarrow>
          (case split_two_segments remainder of
             None \<Rightarrow> s
           | Some (item, field) \<Rightarrow>
               write_transform (en_lm en) (en_obs en) scene item field (arg_float msg 0 f32_zero) s))"

definition item_flag_command ::
  "('w, 'd) env \<Rightarrow> osc_message \<Rightarrow> item_prop \<Rightarrow> string \<Rightarrow> 'w ctl \<Rightarrow> 'w ctl" where
  "item_flag_command en msg prop rest s =
     (case split_two_segments rest of
        Some (scene, item) \<Rightarrow> set_item_flag (en_obs en) scene item prop (toggle_value msg) s
      | None \<Rightarrow> s)"

definition order_command :: "('w, 'd) env \<Rightarrow> osc_message \<Rightarrow> string \<Rightarrow> 'w ctl \<Rightarrow> 'w ctl" where
  "order_command en msg rest s =
     (case split_two_segments rest of
        Some (scene, item) \<Rightarrow>
          set_item_order (en_obs en) scene item (arg_int (lm_oor (en_lm en)) msg 0 (- 1)) s
      | None \<Rightarrow> s)"

definition object_commands :: "('w, 'd) env \<Rightarrow> osc_message \<Rightarrow> 'w ctl \<Rightarrow> 'w ctl option" where
  "object_commands en msg s =
     (let a = address msg; ob = en_obs en; fe = en_fe en
      in case tail a visible_prefix of
        Some rest \<Rightarrow> Some (item_flag_command en msg PropVisible rest s)
      | None \<Rightarrow>
      (case tail a locked_prefix of
        Some rest \<Rightarrow> Some (item_flag_command en msg PropLocked rest s)
      | None \<Rightarrow>
      (case tail a order_prefix of
        Some rest \<Rightarrow> Some (order_command en msg rest s)
      | None \<Rightarrow>
      (case tail a filter_prefix of
        Some rest \<Rightarrow> Some (filter_command en msg rest s)
      | None \<Rightarrow>
      (case tail a transform_prefix of
        Some rest \<Rightarrow> Some (transform_command en msg rest s)
      | None \<Rightarrow>
      (case tail a hotkey_prefix of
        Some name \<Rightarrow> Some (with_world (trigger_hotkey ob name) s)
      | None \<Rightarrow>
      (case tail a profile_prefix of
        Some name \<Rightarrow> Some (with_world (fe_set_profile fe name) s)
      | None \<Rightarrow>
      (case tail a collection_prefix of
        Some name \<Rightarrow> Some (with_world (fe_set_collection fe name) s)
      | None \<Rightarrow> None))))))))"

definition run_command :: "('w, 'd) env \<Rightarrow> osc_message \<Rightarrow> 'w ctl \<Rightarrow> 'w ctl" where
  "run_command en msg s =
     (case scene_commands en msg (snd s) of
        Some w1 \<Rightarrow> (fst s, w1)
      | None \<Rightarrow>
      (case source_commands en msg s of
        Some s1 \<Rightarrow> s1
      | None \<Rightarrow>
      (case object_commands en msg s of
        Some s1 \<Rightarrow> s1
      | None \<Rightarrow> s)))"

subsection \<open>The dispatcher\<close>

definition on_ctl :: "('w ctl \<Rightarrow> 'w ctl) \<Rightarrow> 'w plugin \<Rightarrow> 'w plugin" where
  "on_ctl f p =
     (case f (pl_server p, world p) of (sv, w) \<Rightarrow> (set_world w p)\<lparr>pl_server := sv\<rparr>)"

definition dispatch_ctl :: "('w, 'd) env \<Rightarrow> osc_message \<Rightarrow> osc_endpoint \<Rightarrow> 'w ctl \<Rightarrow> 'w ctl" where
  "dispatch_ctl en msg reply_to s =
     (if args msg = [] then
        (case poll_dispatch en (address msg) reply_to s of (handled, s1) \<Rightarrow>
           if handled then s1 else run_command en msg s1)
      else run_command en msg s)"

definition osc_dispatch_command ::
  "('w, 'd) env \<Rightarrow> osc_message \<Rightarrow> osc_endpoint \<Rightarrow> 'w plugin \<Rightarrow> 'w plugin" where
  "osc_dispatch_command en msg reply_to p =
     (let a = address msg
      in if \<not> has_prefix a addr_root then p
         else if a = addr_subscribe \<or> a = addr_unsubscribe then
           p\<lparr>pl_ws := (pl_ws p)\<lparr>ws_reg :=
               osc_handle_subscription (lm_oor (en_lm en)) msg reply_to (a = addr_unsubscribe)
                 (registry_of p)\<rparr>\<rparr>
         else on_ctl (dispatch_ctl en msg reply_to) p)"

subsection \<open>Routing\<close>

text \<open>Feedback messages sent back as commands reach the object they came from.\<close>

lemmas route_simps = tail_def compare_prefix_def sub_action_def prefixed_def addr_defs

lemma dispatch_mute:
  assumes "n \<noteq> []"
  shows "dispatch_ctl en \<lparr>address = mute_for n, args = [osc_bool b]\<rparr> to s = mute_inputs (en_obs en) n (Some b) s"
  using assms
  by (simp add: dispatch_ctl_def run_command_def scene_commands_def source_commands_def Let_def
      mute_for_def route_simps outputs_def toggle_value_def arg_is_toggle_def arg_bool_def osc_bool_def
      osc_int_def empty_argument_def)

lemma dispatch_volume:
  assumes "n \<noteq> []"
  shows "dispatch_ctl en \<lparr>address = volume_for n, args = [osc_flt v]\<rparr> to s =
    with_world (set_input_volume (en_obs en) n (osc_volume_multiplier v)) s"
  using assms
  by (simp add: dispatch_ctl_def run_command_def scene_commands_def source_commands_def Let_def
      volume_for_def route_simps outputs_def arg_float_def osc_flt_def empty_argument_def)

lemma dispatch_item_flag:
  assumes "CHR ''/'' \<notin> set scene" "scene \<noteq> []" "item \<noteq> []"
  shows "dispatch_ctl en \<lparr>address = visible_for scene item, args = [osc_bool b]\<rparr> to s =
      set_item_flag (en_obs en) scene item PropVisible (Some b) s"
    and "dispatch_ctl en \<lparr>address = locked_for scene item, args = [osc_bool b]\<rparr> to s =
      set_item_flag (en_obs en) scene item PropLocked (Some b) s"
  using assms split_two_segments_append [OF assms]
  by (simp_all add: dispatch_ctl_def run_command_def scene_commands_def source_commands_def
      object_commands_def item_flag_command_def Let_def visible_for_def locked_for_def joined_for_def
      route_simps outputs_def toggle_value_def arg_is_toggle_def arg_bool_def osc_bool_def
      osc_int_def empty_argument_def)

lemma dispatch_filter:
  assumes "CHR ''/'' \<notin> set source" "source \<noteq> []" "f \<noteq> []" "CHR ''/'' \<notin> set f"
  shows "dispatch_ctl en \<lparr>address = filter_for source f, args = [osc_bool b]\<rparr> to s =
      set_filter_enabled (en_obs en) source f (Some b) s"
proof -
  have "split_two_segments f = None" using assms(4) by (simp add: split_two_segments_def)
  with assms split_two_segments_append [OF assms(1-3)] show ?thesis
    by (simp add: dispatch_ctl_def run_command_def scene_commands_def source_commands_def
      object_commands_def filter_command_def Let_def filter_for_def joined_for_def
      route_simps outputs_def toggle_value_def arg_is_toggle_def arg_bool_def osc_bool_def
      osc_int_def empty_argument_def)
qed

lemma dispatch_order:
  assumes "CHR ''/'' \<notin> set scene" "scene \<noteq> []" "item \<noteq> []"
  shows "dispatch_ctl en \<lparr>address = order_for scene item, args = [osc_int v]\<rparr> to s =
      set_item_order (en_obs en) scene item v s"
  using assms split_two_segments_append [OF assms]
  by (simp add: dispatch_ctl_def run_command_def scene_commands_def source_commands_def
      object_commands_def order_command_def Let_def order_for_def joined_for_def
      route_simps outputs_def arg_int_def osc_int_def empty_argument_def)

lemma dispatch_transform:
  assumes "CHR ''/'' \<notin> set scene" "scene \<noteq> []" "CHR ''/'' \<notin> set item" "item \<noteq> []" "field \<noteq> []"
  shows "dispatch_ctl en \<lparr>address = transform_for scene item field, args = [osc_flt v]\<rparr> to s =
      write_transform (en_lm en) (en_obs en) scene item field v s"
proof -
  have "split_two_segments (scene @ ''/'' @ item @ ''/'' @ field) = Some (scene, item @ ''/'' @ field)"
    by (rule split_two_segments_append) (use assms in simp_all)
  moreover have "split_two_segments (item @ ''/'' @ field) = Some (item, field)"
    by (rule split_two_segments_append) (use assms in simp_all)
  ultimately show ?thesis using assms
    by (simp add: dispatch_ctl_def run_command_def scene_commands_def source_commands_def
      object_commands_def transform_command_def Let_def transform_for_def joined3_for_def
      route_simps outputs_def arg_float_def osc_flt_def empty_argument_def)
qed

subsection \<open>Every command gives back the references it takes\<close>

lemma balanced_fe:
  assumes "balanced_frontend refs fe"
  shows "refs (fe_set_scene fe x w) = refs w" "refs (fe_set_preview fe x w) = refs w"
    "refs (fe_set_transition fe x w) = refs w" "refs (fe_set_studio fe b w) = refs w"
    "refs (fe_trigger_transition fe w) = refs w" "refs (fe_screenshot fe w) = refs w"
    "refs (fe_set_profile fe n w) = refs w" "refs (fe_set_collection fe n w) = refs w"
    "refs (fe_streaming_start fe w) = refs w" "refs (fe_streaming_stop fe w) = refs w"
    "refs (fe_recording_start fe w) = refs w" "refs (fe_recording_stop fe w) = refs w"
    "refs (fe_recording_pause fe b w) = refs w" "refs (fe_replay_start fe w) = refs w"
    "refs (fe_replay_stop fe w) = refs w" "refs (fe_replay_save fe w) = refs w"
    "refs (fe_virtualcam_start fe w) = refs w" "refs (fe_virtualcam_stop fe w) = refs w"
  using assms by (simp_all add: balanced_frontend_def keeps_refs_def)

text \<open>The routes of one filter parameter: \<^verbatim>\<open>/filter/\<close> with a third segment.\<close>

definition filter_param_route :: "string \<Rightarrow> bool" where
  "filter_param_route a \<longleftrightarrow>
     (case tail a filter_prefix of
        None \<Rightarrow> False
      | Some rest \<Rightarrow>
          (case split_two_segments rest of
             None \<Rightarrow> False | Some (source, rest2) \<Rightarrow> split_two_segments rest2 \<noteq> None))"

lemma lookup_release:
  assumes "balanced_obs refs ob" "osc_source_of_type ob n t w = (r, w1)"
  shows "r = None \<Longrightarrow> refs w1 = refs w"
    "r = Some x \<Longrightarrow> refs w2 = refs w1 \<Longrightarrow> refs (ob_release ob x w2) = refs w"
  using assms(2) source_of_type_refs [OF assms(1)]
  by (simp_all add: balanced_release [OF assms(1)])

lemma switch_refs:
  assumes "balanced_obs refs (en_obs en)" "balanced_frontend refs (en_fe en)"
  shows "refs (switch_program_scene en n w) = refs w" "refs (switch_preview_scene en n w) = refs w"
    "refs (switch_program_scene_index en i w) = refs w"
proof -
  show p: "refs (switch_program_scene en n w) = refs w" for n
    using lookup_release [OF assms(1)] balanced_fe [OF assms(2)]
    by (auto simp: switch_program_scene_def get_scene_by_name_def split: prod.splits option.splits)
  show "refs (switch_preview_scene en n w) = refs w"
    using lookup_release [OF assms(1)] balanced_fe [OF assms(2)]
    by (auto simp: switch_preview_scene_def get_scene_by_name_def split: prod.splits option.splits)
  show "refs (switch_program_scene_index en i w) = refs w"
    by (simp add: switch_program_scene_index_def Let_def p)
qed

definition found_ref :: "('w \<Rightarrow> nat \<Rightarrow> int) \<Rightarrow> (nat \<Rightarrow> int) \<Rightarrow> nat option \<times> 'w \<Rightarrow> bool" where
  "found_ref refs base s \<longleftrightarrow>
     (case fst s of None \<Rightarrow> refs (snd s) = base | Some t \<Rightarrow> refs (snd s) = base(t := base t + 1))"

lemma found_ref_step:
  assumes "balanced_obs refs ob" "found_ref refs base s"
  shows "found_ref refs base (transition_enum_cb ob n t s)"
proof (cases "fst s = None \<and> ob_name ob t (snd s) = n")
  case True
  obtain ok w1 where g: "ob_get_ref ob t (snd s) = (ok, w1)" by fastforce
  have "case ob_get_ref ob t (snd s) of (False, w') \<Rightarrow> refs w' = refs (snd s)
      | (True, w') \<Rightarrow> refs w' = (refs (snd s))(t := refs (snd s) t + 1)"
    using assms(1) by (simp add: balanced_obs_def)
  with True assms(2) g show ?thesis
    by (auto simp: transition_enum_cb_def found_ref_def split: bool.splits)
qed (use assms(2) in \<open>auto simp: transition_enum_cb_def\<close>)

lemma select_transition_refs:
  assumes "balanced_obs refs (en_obs en)" "balanced_frontend refs (en_fe en)"
  shows "refs (select_transition en n w) = refs w"
proof -
  have "found_ref refs (refs w) (foldl (\<lambda>s t. transition_enum_cb (en_obs en) n t s) s ts)"
    if "found_ref refs (refs w) s" for s ts
    using that by (induction ts arbitrary: s) (simp_all add: found_ref_step [OF assms(1)])
  then have "found_ref refs (refs w) (osc_enum_transitions (en_fe en) (transition_enum_cb (en_obs en) n) (None, w))"
    by (simp add: osc_enum_transitions_def found_ref_def)
  then show ?thesis
    by (auto simp: select_transition_def found_ref_def balanced_release [OF assms(1)] balanced_fe [OF assms(2)]
        split: prod.splits option.splits)
qed

lemma run_output_refs:
  "balanced_frontend refs fe \<Longrightarrow> refs (run_output_command fe out msg sub w) = refs w"
  by (cases out) (simp_all add: run_output_command_def Let_def balanced_fe)

lemma mute_refs:
  assumes "balanced_obs refs ob"
  shows "refs (snd (mute_inputs ob pattern value s)) = refs (snd s)"
  unfolding mute_inputs_def
  by (rule visit_sources_refs [OF assms]) (simp add: keeps_refs_visit_def balanced_setters [OF assms])

lemma media_act_refs: "balanced_obs refs ob \<Longrightarrow> refs (media_act ob a x w) = refs w"
  by (cases a) (simp_all add: balanced_setters)

lemma input_refs:
  assumes "balanced_obs refs ob"
  shows "refs (set_input_volume ob n v w) = refs w" "refs (media_command ob n verb w) = refs w"
  using lookup_release [OF assms] balanced_setters [OF assms] media_act_refs [OF assms]
  by (auto simp: set_input_volume_def media_command_def get_input_by_name_def
      split: prod.splits option.splits)

context object_walk
begin

lemma with_input_rel:
  assumes "\<And>x s. rel s (f x s)"
  shows "rel s (with_input ob n f s)"
proof -
  obtain r w1 where "osc_source_of_type ob n SourceInput (snd s) = (r, w1)" by fastforce
  then show ?thesis
    using source_of_type_rel [of n SourceInput s] assms
    by (cases r) (auto simp: with_input_def get_input_by_name_def with_world_def)
qed

end

lemmas with_input_refs = refs_walk.with_input_rel [rule_format, rotated]

lemma poll_current_refs:
  assumes "balanced_obs refs (en_obs en)" "takes_ref refs lookup"
  shows "refs (snd (poll_current en to addr lookup s)) = refs (snd s)"
  using takes_refD [OF assms(2)]
  by (auto simp: poll_current_def balanced_release [OF assms(1)] split: prod.splits option.splits)

lemma scene_commands_refs:
  assumes "balanced_obs refs (en_obs en)" "balanced_frontend refs (en_fe en)"
  shows "scene_commands en msg w = Some w' \<Longrightarrow> refs w' = refs w"
  unfolding scene_commands_def Let_def
  by (auto simp: balanced_fe [OF assms(2)] switch_refs [OF assms] select_transition_refs [OF assms]
      run_output_refs [OF assms(2)] split: if_splits option.splits)

lemma source_commands_refs:
  assumes "balanced_obs refs (en_obs en)"
  shows "source_commands en msg s = Some s' \<Longrightarrow> refs (snd s') = refs (snd s)"
  unfolding source_commands_def Let_def
  by (auto simp: mute_refs [OF assms] input_refs [OF assms] split: option.splits)

lemma object_commands_refs:
  assumes "balanced_obs refs (en_obs en)" "balanced_frontend refs (en_fe en)"
    "\<not> filter_param_route (address msg)"
  shows "object_commands en msg s = Some s' \<Longrightarrow> refs (snd s') = refs (snd s)"
  unfolding object_commands_def Let_def using assms(3)
  by (auto simp: item_flag_command_def order_command_def transform_command_def filter_command_def
      filter_param_route_def set_filter_enabled_def filter_enable_refs [OF assms(1)]
      item_ops_refs [OF assms(1)] transform_ops_refs [OF assms(1)] trigger_hotkey_refs [OF assms(1)]
      balanced_fe [OF assms(2)] split: option.splits)

lemma run_command_refs:
  assumes "balanced_obs refs (en_obs en)" "balanced_frontend refs (en_fe en)"
    "\<not> filter_param_route (address msg)"
  shows "refs (snd (run_command en msg s)) = refs (snd s)"
  using scene_commands_refs [OF assms(1,2), of msg "snd s"] source_commands_refs [OF assms(1), of msg s]
    object_commands_refs [OF assms, of s]
  by (auto simp: run_command_def split: option.splits)

lemma poll_routes_refs:
  assumes "balanced_obs refs (en_obs en)" "balanced_frontend refs (en_fe en)"
    "\<not> filter_param_route a"
  shows "refs (snd (snd (poll_routes en a to s))) = refs (snd s)"
proof -
  have cur: "takes_ref refs (fe_current_scene (en_fe en))" "takes_ref refs (fe_current_preview (en_fe en))"
    "takes_ref refs (fe_current_transition (en_fe en))"
    using assms(2) by (simp_all add: balanced_frontend_def)
  have f: "refs (snd s1) = refs (snd s)" if "poll_frontend en a to s = Some s1" for s1
    using that by (auto simp: poll_frontend_def Let_def poll_current_refs [OF assms(1)] cur split: if_splits)
  have src: "refs (snd (snd r)) = refs (snd s)" if "poll_sources en a to s = Some r" for r
  proof -
    have "refs (snd (poll_mute_inputs (en_obs en) pattern to s)) = refs (snd s)" for pattern
      unfolding poll_mute_inputs_def
      by (rule visit_sources_refs [OF assms(1)]) (simp add: keeps_refs_visit_def)
    then show ?thesis
      using that
      by (auto simp: poll_sources_def Let_def poll_media_state_def with_input_refs [OF assms(1)]
          split: option.splits if_splits)
  qed
  have allo: "refs (snd s1) = refs (snd s)" if "poll_all_objects en a to s = Some s1" for s1
    using that
    by (auto simp: poll_all_objects_def Let_def item_ops_refs [OF assms(1)] transform_ops_refs [OF assms(1)]
        input_state_refs [OF assms(1)] poll_filter_enabled_def filter_enable_refs [OF assms(1)] split: if_splits)
  have obj: "refs (snd s1) = refs (snd s)" if "poll_objects en a to s = Some s1" for s1
    using that assms(3)
    by (auto simp: poll_objects_def Let_def item_ops_refs [OF assms(1)] transform_ops_refs [OF assms(1)]
        input_state_refs [OF assms(1)] poll_transform_route_def poll_filter_route_def filter_param_route_def
        poll_filter_enabled_def filter_enable_refs [OF assms(1)] split: option.splits)
  show ?thesis
    unfolding poll_routes_def using f src allo obj
    by (auto split: option.splits)
qed

lemma dispatch_refs:
  assumes "balanced_obs refs (en_obs en)" "balanced_frontend refs (en_fe en)"
    "\<not> filter_param_route (address msg)"
  shows "refs (world (osc_dispatch_command en msg to p)) = refs (world p)"
proof -
  have p: "refs (snd (snd (poll_dispatch en (address msg) to s))) = refs (snd s)" for s
    using poll_routes_refs [OF assms, of to "(begin_batch to (fst s), snd s)"]
    by (auto simp: poll_dispatch_def reply_batch_scope_def split: prod.splits)
  have "refs (snd (dispatch_ctl en msg to s)) = refs (snd s)" for s
    using p [of s] run_command_refs [OF assms]
    by (auto simp: dispatch_ctl_def split: prod.splits)
  then have "refs (world (on_ctl (dispatch_ctl en msg to) p)) = refs (world p)"
    by (simp add: on_ctl_def split: prod.splits) (metis snd_conv)
  then show ?thesis
    by (simp add: osc_dispatch_command_def Let_def world_def)
qed

end
