(* ===== verification/OscReplies.thy ===== *)
theory OscReplies
  imports OscControls
begin

text \<open>
  What a message does to the transport: a poll collects its replies into one batch and leaves
  the world as it is; a command leaves the transport as it is.
\<close>

subsection \<open>Polls answer in one datagram and change nothing\<close>

text \<open>
  \<open>view\<close> is anything one can observe of OBS that looking an object up, referencing and
  releasing it leave alone.
\<close>

definition reads_only :: "('w \<Rightarrow> 'v) \<Rightarrow> ('w, 'd) env \<Rightarrow> bool" where
  "reads_only view en \<longleftrightarrow>
     (\<forall>n w. view (snd (ob_source_by_name (en_obs en) n w)) = view w) \<and>
     (\<forall>x w. view (snd (ob_get_ref (en_obs en) x w)) = view w) \<and>
     (\<forall>x w. view (ob_release (en_obs en) x w) = view w) \<and>
     (\<forall>w. view (snd (fe_current_scene (en_fe en) w)) = view w) \<and>
     (\<forall>w. view (snd (fe_current_preview (en_fe en) w)) = view w) \<and>
     (\<forall>w. view (snd (fe_current_transition (en_fe en) w)) = view w)"

lemma reads_onlyD:
  assumes "reads_only view en"
  shows "view (snd (fe_current_scene (en_fe en) w)) = view w"
    "view (snd (fe_current_preview (en_fe en) w)) = view w"
    "view (snd (fe_current_transition (en_fe en) w)) = view w"
    "view (snd (ob_source_by_name (en_obs en) n w)) = view w"
    "view (snd (ob_get_ref (en_obs en) x w)) = view w"
    "view (ob_release (en_obs en) x w) = view w"
  using assms by (simp_all only: reads_only_def)

definition batching :: "osc_endpoint \<Rightarrow> server \<Rightarrow> bool" where
  "batching to sv \<longleftrightarrow> rb_active (sv_batch sv) \<and> rb_to (sv_batch sv) = to"

definition collected :: "osc_message list \<Rightarrow> server \<Rightarrow> server" where
  "collected ms sv =
     sv\<lparr>sv_batch := (sv_batch sv)\<lparr>rb_messages := rb_messages (sv_batch sv) @ map enc_message ms\<rparr>\<rparr>"

lemma collected_Nil [simp]: "collected [] sv = sv"
  by (simp add: collected_def)

lemma collected_collected: "collected ns (collected ms sv) = collected (ms @ ns) sv"
  by (simp add: collected_def)

lemma batching_collected [simp]: "batching to (collected ms sv) = batching to sv"
  by (simp add: batching_def collected_def)

definition poll_step :: "('w \<Rightarrow> 'v) \<Rightarrow> osc_endpoint \<Rightarrow> 'w ctl \<Rightarrow> 'w ctl \<Rightarrow> bool" where
  "poll_step view to s s' \<longleftrightarrow>
     view (snd s') = view (snd s) \<and> (batching to (fst s) \<longrightarrow> (\<exists>ms. fst s' = collected ms (fst s)))"

lemma poll_step_refl [simp]: "poll_step view to s s"
  unfolding poll_step_def by (auto intro!: exI [of _ "[]"])

lemma poll_step_world: "view w = view (snd s) \<Longrightarrow> poll_step view to s (fst s, w)"
  unfolding poll_step_def by (auto intro!: exI [of _ "[]"])

lemma poll_step_trans: "poll_step view to s s1 \<Longrightarrow> poll_step view to s1 s2 \<Longrightarrow> poll_step view to s s2"
  unfolding poll_step_def by (metis batching_collected collected_collected)

lemma poll_step_reply: "poll_step view to s (reply to addr as s)"
proof -
  have "server_reply to (c_str addr) as (fst s) = collected [\<lparr>address = c_str addr, args = as\<rparr>] (fst s)"
    if "batching to (fst s)"
    using that by (simp add: server_reply_def batching_def collected_def enc_message_def Let_def)
  then show ?thesis unfolding poll_step_def reply_def by auto
qed

lemma poll_step_enum:
  assumes "\<And>x s. poll_step view to s (snd (visit x s))"
  shows "poll_step view to s (enum_until visit xs s)"
  by (rule enum_until_inv [of "poll_step view to s"]) (auto intro: poll_step_trans assms)

lemma poll_step_release:
  "reads_only view en \<Longrightarrow> poll_step view to s s' \<Longrightarrow> poll_step view to s (fst s', ob_release (en_obs en) x (snd s'))"
  by (simp add: poll_step_def reads_only_def)

interpretation poll_walk: object_walk "\<lambda>s s'. reads_only view en \<longrightarrow> poll_step view to s s'" "en_obs en"
  for view en to
proof (unfold_locales, goal_cases)
  case (2 s s1 s2)
  then show ?case by (blast intro: poll_step_trans)
next
  case (3 n s w1)
  then show ?case by (auto intro!: poll_step_world dest: reads_onlyD(4) [where n = n and w = "snd s"])
next
  case (4 n s x w1 s2)
  show ?case
  proof
    assume ro: "reads_only view en"
    have "poll_step view to s (fst s, w1)"
      using reads_onlyD(4) [OF ro, of n "snd s"] 4(1) by (intro poll_step_world) simp
    with 4(2) ro show "poll_step view to s (fst s2, ob_release (en_obs en) x (snd s2))"
      by (blast intro: poll_step_trans poll_step_release)
  qed
qed simp

lemmas visit_sources_poll = poll_walk.visit_sources_rel [rule_format, rotated]
lemmas visit_scene_items_poll = poll_walk.visit_scene_items_rel [rule_format, rotated]

lemma poll_step_fold:
  "(\<And>x s. poll_step view to s (f x s)) \<Longrightarrow> poll_step view to s (foldl (\<lambda>s x. f x s) s xs)"
proof (induction xs arbitrary: s)
  case (Cons x xs)
  then show ?case using poll_step_trans [OF Cons.prems [of s x] Cons.IH [OF Cons.prems]] by simp
qed simp

lemma poll_items:
  assumes ro: "reads_only view en"
  shows "poll_step view to s (poll_item_flag (en_obs en) to sp sel prop s)"
    "poll_step view to s (poll_item_order (en_obs en) to sp sel s)"
    "poll_step view to s (poll_transform (en_lm en) (en_obs en) to sp sel no s)"
proof -
  show "poll_step view to s (poll_item_flag (en_obs en) to sp sel prop s)"
    unfolding poll_item_flag_def
    by (rule visit_scene_items_poll [OF ro])
      (simp add: flag_visit_def Let_def poll_step_reply split: option.splits item_prop.splits)
  show "poll_step view to s (poll_item_order (en_obs en) to sp sel s)"
    unfolding poll_item_order_def
    by (rule visit_scene_items_poll [OF ro]) (simp add: order_visit_def poll_step_reply split: option.splits)
  have "poll_step view to s (osc_visit_scene_items (en_obs en) sp (Some sel)
      (transform_visit (en_lm en) (en_obs en) (Some to) fo v) s)" for fo v
    by (rule visit_scene_items_poll [OF ro])
      (auto simp: transform_visit_def Let_def poll_step_reply intro: poll_step_fold split: option.splits)
  then show "poll_step view to s (poll_transform (en_lm en) (en_obs en) to sp sel no s)"
    by (simp add: poll_transform_def Let_def split: option.splits)
qed

lemma poll_inputs:
  assumes ro: "reads_only view en"
  shows "poll_step view to s (poll_input_state (en_obs en) to pattern showing s)"
    "poll_step view to s (poll_mute_inputs (en_obs en) pattern to s)"
  unfolding poll_input_state_def poll_mute_inputs_def
  by (rule visit_sources_poll [OF ro]; simp add: Let_def poll_step_reply)+

lemmas poll_with_input = poll_walk.with_input_rel [rule_format, rotated]

lemma poll_filters:
  assumes ro: "reads_only view en"
  shows "poll_step view to s (poll_filter_enabled (en_obs en) to sp sel s)"
proof -
  have c: "poll_step view to s (filter_chain (en_obs en) n sel v (Some to) fs i s)" for n v fs i s
  proof (induction fs arbitrary: i s)
    case (Cons f fs)
    show ?case
      unfolding filter_chain.simps
      by (rule poll_step_trans [OF _ Cons.IH]) (simp add: Let_def poll_step_reply)
  qed simp
  show ?thesis
    unfolding poll_filter_enabled_def run_filter_enable_pass_def
    by (rule visit_sources_poll [OF ro]) (simp add: c)
qed

lemma poll_params:
  assumes ro: "reads_only view en" and mode: "mode \<noteq> WriteOne"
  shows "poll_step view to s (run_param_pass (en_lm en) (en_obs en) (en_data en) sp sel param mode msg to s)"
proof -
  have rd: "poll_step view to s (read_property (en_data en) base p d to s)" for base p d s
    by (simp add: read_property_def Let_def poll_step_reply split: prod.splits property_type.splits)
  have lp: "poll_step view to s
      (param_loop (en_lm en) (en_obs en) (en_data en) f base param mode msg to ps s)" for f base ps s
  proof (induction ps arbitrary: s)
    case (Cons p ps)
    show ?case
      using mode Cons.IH poll_step_trans [OF rd Cons.IH] by (cases mode) (simp_all add: Let_def rd)
  qed simp
  have rs: "view w' = view w"
    if "resolve_from (en_obs en) sel fs i found w = (r, w')" for fs i found r w w'
    using that
  proof (induction fs arbitrary: i found w)
    case (Cons f fs)
    have "view (snd (ob_get_ref (en_obs en) f w)) = view w" by (rule reads_onlyD [OF ro])
    with Cons show ?case by (auto split: if_splits prod.splits)
  qed simp
  show ?thesis
    unfolding run_param_pass_def
  proof (rule visit_sources_poll [OF ro])
    fix x and s :: "'a ctl"
    obtain r w1 where res: "resolve_filter (en_obs en) x sel (snd s) = (r, w1)" by fastforce
    then have "view w1 = view (snd s)" using rs by (simp add: resolve_filter_def)
    then have s1: "poll_step view to s (fst s, w1)" by (rule poll_step_world)
    show "poll_step view to s (snd (case resolve_filter (en_obs en) x sel (snd s) of
            (None, w1) \<Rightarrow> (True, fst s, w1)
          | (Some f, w1) \<Rightarrow>
              (let base = filter_for (ob_name (en_obs en) x w1) (ob_name (en_obs en) f w1);
                   s2 = param_loop (en_lm en) (en_obs en) (en_data en) f base param mode msg to
                          (ob_properties (en_obs en) f w1) (fst s, w1)
               in (True, with_world (ob_release (en_obs en) f) s2))))"
      using s1 poll_step_release [OF ro poll_step_trans [OF s1 lp]]
      by (simp add: res Let_def with_world_def split: option.splits)
  qed
qed

lemma poll_current_step:
  assumes ro: "reads_only view en" and l: "\<And>w. view (snd (lookup w)) = view w"
  shows "poll_step view to s (poll_current en to addr lookup s)"
proof -
  obtain r w1 where lk: "lookup (snd s) = (r, w1)" by fastforce
  then have s1: "poll_step view to s (fst s, w1)" using l by (intro poll_step_world) (metis snd_conv)
  note s2 = poll_step_trans [OF s1 poll_step_reply]
  show ?thesis
    using lk s2 poll_step_release [OF ro s2]
    by (simp add: poll_current_def with_world_def split: option.splits)
qed

lemma poll_routes_step:
  assumes ro: "reads_only view en"
  shows "poll_step view to s (snd (poll_routes en a to s))"
proof -
  have cur: "poll_step view to s (poll_current en to ad (fe_current_scene (en_fe en)) s)"
    "poll_step view to s (poll_current en to ad (fe_current_preview (en_fe en)) s)"
    "poll_step view to s (poll_current en to ad (fe_current_transition (en_fe en)) s)" for ad
    by (rule poll_current_step [OF ro], simp only: reads_onlyD [OF ro])+
  have f: "poll_step view to s s1" if "poll_frontend en a to s = Some s1" for s1
    using that
    by (auto simp: poll_frontend_def Let_def poll_step_reply cur split: if_splits)
  have src: "poll_step view to s (snd r)" if "poll_sources en a to s = Some r" for r
    using that
    by (auto simp: poll_sources_def Let_def poll_media_state_def poll_inputs [OF ro] poll_with_input [OF ro]
        poll_step_reply split: option.splits if_splits)
  have allo: "poll_step view to s s1" if "poll_all_objects en a to s = Some s1" for s1
    using that
    by (auto simp: poll_all_objects_def Let_def poll_items [OF ro] poll_filters [OF ro] poll_inputs [OF ro]
        split: if_splits)
  have obj: "poll_step view to s s1" if "poll_objects en a to s = Some s1" for s1
    using that
    by (auto simp: poll_objects_def Let_def poll_items [OF ro] poll_inputs [OF ro] poll_filters [OF ro]
        poll_transform_route_def poll_filter_route_def poll_filter_params_def poll_filter_param_def
        poll_params [OF ro] split: option.splits)
  show ?thesis
    unfolding poll_routes_def using f src allo obj by (auto split: option.splits)
qed

lemma poll_dispatch_step:
  assumes ro: "reads_only view en"
  shows "view (snd (snd (poll_dispatch en a to s))) = view (snd s) \<and>
    (\<exists>ms. fst (snd (poll_dispatch en a to s)) = end_batch (collected ms (begin_batch to (fst s))))"
proof -
  let ?s0 = "(begin_batch to (fst s), snd s)"
  have "batching to (fst ?s0)" by (simp add: batching_def begin_batch_def)
  with poll_routes_step [OF ro, of to ?s0 a] show ?thesis
    by (auto simp: poll_step_def poll_dispatch_def reply_batch_scope_def split: prod.splits)
qed

lemma end_batch_queue:
  assumes "can_queue sv" "ep_len to \<noteq> 0"
  shows "sv_send_queue (end_batch (collected ms (begin_batch to sv))) =
    (if ms = [] then sv_send_queue sv
     else last_n max_send_queue (sv_send_queue sv @ [packet_to (batch_datagram (map enc_message ms)) to]))"
proof (cases "ms = []")
  case True
  then show ?thesis by (simp add: end_batch_def begin_batch_def Let_def)
next
  case False
  have "can_queue (sv\<lparr>sv_batch := b\<rparr>)" for b using assms(1) by (simp add: can_queue_def)
  from queue_enqueue [OF this assms(2) batch_datagram_nonempty [OF False]] False show ?thesis
    by (simp add: end_batch_def begin_batch_def collected_def Let_def packet_to_def)
qed

lemma poll_dispatch_queue:
  assumes ro: "reads_only view en" and q: "can_queue (fst s)" "ep_len to \<noteq> 0"
  shows "view (snd (snd (poll_dispatch en a to s))) = view (snd s) \<and>
    (\<exists>ms. sv_send_queue (fst (snd (poll_dispatch en a to s))) =
       (if ms = [] then sv_send_queue (fst s)
        else last_n max_send_queue (sv_send_queue (fst s) @
               [packet_to (batch_datagram (map enc_message ms)) to])))"
  using poll_dispatch_step [OF ro, of a to s] end_batch_queue [OF q] by metis

subsection \<open>Commands do not send\<close>

lemma mute_fst: "fst (mute_inputs ob pattern value s) = fst s"
  by (simp add: mute_inputs_def fst_walk.visit_sources_rel)

lemma item_flag_fst: "fst (set_item_flag ob sp sel prop value s) = fst s"
  unfolding set_item_flag_def
  by (rule fst_walk.visit_scene_items_rel) (simp add: flag_visit_def Let_def)

lemma item_order_fst: "fst (set_item_order ob sp sel pos s) = fst s"
  unfolding set_item_order_def
  by (rule fst_walk.visit_scene_items_rel) (simp add: order_visit_def split: option.splits)

lemma transform_fst: "fst (write_transform lm ob sp sel n v s) = fst s"
proof -
  have "fst (osc_visit_scene_items ob sp (Some sel) (transform_visit lm ob None (Some f) v) s) = fst s" for f
    by (rule fst_walk.visit_scene_items_rel) (simp add: transform_visit_def Let_def split: option.splits)
  then show ?thesis by (simp add: write_transform_def split: option.splits)
qed

lemma filter_enabled_fst: "fst (set_filter_enabled ob sp sel value s) = fst s"
proof -
  have c: "fst (filter_chain ob n sel value None fs i s) = fst s" for n fs i s
    by (induction fs arbitrary: i s) (simp_all add: Let_def)
  show ?thesis
    unfolding set_filter_enabled_def run_filter_enable_pass_def
    by (rule fst_walk.visit_sources_rel) (simp add: c)
qed

lemma write_param_fst: "fst (write_filter_param lm ob dt msg sp sel param s) = fst s"
proof -
  have l: "fst (param_loop lm ob dt f base param WriteOne msg to ps s) = fst s" for f base to ps s
    by (induction ps arbitrary: s) (simp_all add: Let_def)
  show ?thesis
    unfolding write_filter_param_def run_param_pass_def
    by (rule fst_walk.visit_sources_rel) (simp add: l Let_def split: prod.splits option.splits)
qed

lemma run_command_server: "fst (run_command en msg s) = fst s"
proof -
  have src: "fst s1 = fst s" if "source_commands en msg s = Some s1" for s1
    using that by (auto simp: source_commands_def Let_def mute_fst split: option.splits)
  have flag: "fst (item_flag_command en msg pr rest s) = fst s" for pr rest
    by (simp add: item_flag_command_def item_flag_fst split: option.splits)
  have ord: "fst (order_command en msg rest s) = fst s" for rest
    by (simp add: order_command_def item_order_fst split: option.splits)
  have flt: "fst (filter_command en msg rest s) = fst s" for rest
    by (simp add: filter_command_def write_param_fst filter_enabled_fst split: option.splits)
  have trf: "fst (transform_command en msg rest s) = fst s" for rest
    by (simp add: transform_command_def transform_fst split: option.splits)
  have obj: "fst s1 = fst s" if "object_commands en msg s = Some s1" for s1
    using that by (auto simp: object_commands_def Let_def flag ord flt trf split: option.splits)
  show ?thesis using src obj by (simp add: run_command_def split: option.splits)
qed

text \<open>Hence dispatching keeps the transport's invariant.\<close>

lemma server_inv_dispatch:
  assumes "server_inv (fst s)"
  shows "server_inv (fst (dispatch_ctl en msg to s))"
proof -
  have "reads_only (\<lambda>_. ()) en" by (simp add: reads_only_def)
  then obtain ms where "fst (snd (poll_dispatch en (address msg) to s)) =
      end_batch (collected ms (begin_batch to (fst s)))"
    using poll_dispatch_step by blast
  then have "server_inv (fst (snd (poll_dispatch en (address msg) to s)))"
    using assms by (simp add: server_inv_end collected_def begin_batch_def)
  then show ?thesis
    using assms by (auto simp: dispatch_ctl_def run_command_server split: prod.splits)
qed

end
