(* ===== verification/OscSchema.thy ===== *)
theory OscSchema
  imports OscFeedback
begin

text \<open>
  The OSCQuery document (\<^verbatim>\<open>osc-query-schema.cpp\<close>): the node helpers, one builder per
  top-level section, the root document, and the lookup of a path.  A node is a settings object
  of libobs, reached through \<open>data_api\<close>; while a builder runs, a CONTENTS map is reachable from
  its parent only, so the update in place of \<^verbatim>\<open>add_child\<close> is the update of the parent's
  entry.  The builders read the world and never change it.  The lemmas show that a targeted
  request returns the subtree of the full document, which sections can be addressed at all, and
  which children the sections have.
\<close>

subsection \<open>Nodes\<close>

definition contents_key :: string where "contents_key = ''CONTENTS''"

definition map_set :: "'d data_api \<Rightarrow> 'd \<Rightarrow> string \<Rightarrow> 'd option \<Rightarrow> 'd" where
  "map_set da contents name child = dt_set_obj da contents name child"

definition add_child :: "'d data_api \<Rightarrow> 'd \<Rightarrow> string \<Rightarrow> 'd \<Rightarrow> 'd" where
  "add_child da parent name child =
     (case dt_obj da parent contents_key of
        None \<Rightarrow> parent
      | Some contents \<Rightarrow>
          dt_set_obj da parent contents_key (Some (map_set da contents name (Some child))))"

definition set_description :: "'d data_api \<Rightarrow> 'd \<Rightarrow> string \<Rightarrow> 'd" where
  "set_description da node description = dt_set_string da node ''DESCRIPTION'' description"

text \<open>
  The \<^verbatim>\<open>double\<close> arguments of \<^verbatim>\<open>make_leaf\<close> come from a \<^verbatim>\<open>long\<close> below \<open>2 ^ 53\<close> or from a
  \<^verbatim>\<open>float\<close>; both conversions are exact.
\<close>

datatype leaf_number = FromLong int | FromFloat f32

definition as_long :: "leaf_number \<Rightarrow> int" where
  "as_long v = (case v of FromLong i \<Rightarrow> i | FromFloat x \<Rightarrow> f32_trunc x)"

definition as_float :: "leaf_number \<Rightarrow> f32" where
  "as_float v = (case v of FromLong i \<Rightarrow> f32_of_int i | FromFloat x \<Rightarrow> x)"

definition set_number :: "'d data_api \<Rightarrow> bool \<Rightarrow> 'd \<Rightarrow> string \<Rightarrow> leaf_number \<Rightarrow> 'd" where
  "set_number da integral node key v =
     (if integral then dt_set_int da node key (as_long v) else dt_set_float da node key (as_float v))"

definition make_leaf ::
  "'d data_api \<Rightarrow> int \<Rightarrow> string option \<Rightarrow> leaf_number \<Rightarrow> (leaf_number \<times> leaf_number) option \<Rightarrow>
   string option \<Rightarrow> 'd" where
  "make_leaf da access type value ranged description =
     (let node = dt_set_int da (dt_new da) ''ACCESS'' access;
          integral = (case type of Some (c # _) \<Rightarrow> c = CHR ''i'' | _ \<Rightarrow> False);
          node = (case type of
                    None \<Rightarrow> node
                  | Some t \<Rightarrow> set_number da integral (dt_set_string da node ''TYPE'' t) ''VALUE'' value);
          node = (case ranged of
                    None \<Rightarrow> node
                  | Some (lo, hi) \<Rightarrow>
                      dt_set_array da node ''RANGE''
                        [set_number da integral (set_number da integral (dt_new da) ''MIN'' lo) ''MAX'' hi])
      in case description of None \<Rightarrow> node | Some t \<Rightarrow> set_description da node t)"

definition make_bang :: "'d data_api \<Rightarrow> string option \<Rightarrow> 'd" where
  "make_bang da description = make_leaf da 1 None (FromFloat f32_zero) None description"

definition make_rw_int :: "'d data_api \<Rightarrow> int \<Rightarrow> int \<Rightarrow> int \<Rightarrow> string option \<Rightarrow> 'd" where
  "make_rw_int da value lo hi description =
     make_leaf da 3 (Some ''i'') (FromLong value) (Some (FromLong lo, FromLong hi)) description"

definition make_rw_float :: "'d data_api \<Rightarrow> f32 \<Rightarrow> string option \<Rightarrow> 'd" where
  "make_rw_float da value description =
     make_leaf da 3 (Some ''f'') (FromFloat value) (Some (FromFloat f32_zero, FromFloat f32_one)) description"

definition make_ro_int :: "'d data_api \<Rightarrow> int \<Rightarrow> string option \<Rightarrow> 'd" where
  "make_ro_int da value description =
     make_leaf da 2 (Some ''i'') (FromLong value) None description"

definition make_container :: "'d data_api \<Rightarrow> string option \<Rightarrow> 'd" where
  "make_container da description =
     (let node = dt_set_int da (dt_new da) ''ACCESS'' 0;
          node = dt_set_obj da node contents_key (Some (dt_new da))
      in case description of None \<Rightarrow> node | Some t \<Rightarrow> set_description da node t)"

definition add_media_children :: "'d data_api \<Rightarrow> 'd \<Rightarrow> 'd" where
  "add_media_children da parent =
     add_child da (foldl (\<lambda>n (verb, _). add_child da n verb (make_bang da None)) parent media_verbs)
       media_state_node
       (make_ro_int da 0 (Some ''Media state (0 none, 1 playing, 4 paused, ...)''))"

definition bool_long :: "bool \<Rightarrow> int" where
  "bool_long b = (if b then 1 else 0)"

subsection \<open>Sections\<close>

definition scene_bang_cb :: "('w, 'd) env \<Rightarrow> nat \<Rightarrow> 'd \<times> 'w \<Rightarrow> bool \<times> 'd \<times> 'w" where
  "scene_bang_cb en scene s =
     (True, add_child (en_data en) (fst s) (ob_name (en_obs en) scene (snd s)) (make_bang (en_data en) None),
      snd s)"

definition build_scenes_section :: "('w, 'd) env \<Rightarrow> string \<Rightarrow> 'w \<Rightarrow> 'd" where
  "build_scenes_section en description w =
     fst (enum_until (scene_bang_cb en) (ob_scenes (en_obs en) w)
            (make_container (en_data en) (Some description), w))"

definition build_transition_section :: "('w, 'd) env \<Rightarrow> 'w \<Rightarrow> 'd" where
  "build_transition_section en w =
     (let da = en_data en;
          node = make_container da (Some ''Select transition; 'go' runs it'');
          node = add_child da node transition_go (make_bang da (Some ''Trigger transition''))
      in fst (osc_enum_transitions (en_fe en)
                (\<lambda>t s. (add_child da (fst s) (ob_name (en_obs en) t (snd s)) (make_bang da None), snd s))
                (node, w)))"

definition build_output_section :: "('w, 'd) env \<Rightarrow> output_info \<Rightarrow> 'w \<Rightarrow> 'd" where
  "build_output_section en out w =
     (let da = en_data en
      in foldl (\<lambda>node sub.
           if sub = sub_pause
           then add_child da node sub
                  (make_rw_int da (bool_long (fe_recording_paused (en_fe en) w)) 0 1 (Some ''Pause state''))
           else add_child da node sub (make_bang da None))
         (make_container da (Some (out_description out))) (out_subs out))"

record 'd source_ctx =
  sc_mute :: "'d option"
  sc_volume :: "'d option"
  sc_media :: "'d option"

definition source_enum_visit ::
  "('w, 'd) env \<Rightarrow> nat \<Rightarrow> 'd source_ctx \<times> 'w \<Rightarrow> bool \<times> 'd source_ctx \<times> 'w" where
  "source_enum_visit en source s =
     (let da = en_data en; ob = en_obs en; ctx = fst s; w = snd s;
          name = ob_name ob source w;
          mute = map_option (\<lambda>n. add_child da n name
                   (make_rw_int da (bool_long (ob_muted ob source w)) 0 1 None)) (sc_mute ctx);
          volume = map_option (\<lambda>n. add_child da n name
                   (make_rw_float da (osc_volume_position (ob_volume ob source w)) None)) (sc_volume ctx);
          media = (if ob_controllable_media ob source w
                   then map_option (\<lambda>n. add_child da n name
                          (add_media_children da (make_container da (Some ''Media playback controls''))))
                          (sc_media ctx)
                   else sc_media ctx)
      in (True, \<lparr>sc_mute = mute, sc_volume = volume, sc_media = media\<rparr>, w))"

definition build_source_section :: "('w, 'd) env \<Rightarrow> string \<Rightarrow> 'w \<Rightarrow> 'd" where
  "build_source_section en which w =
     (let da = en_data en; c = make_container da None;
          start = (if which = addr_mute
                   then (''Mute inputs (* and ? globs work over OSC)'',
                         \<lparr>sc_mute = Some c, sc_volume = None, sc_media = None\<rparr>)
                   else if which = addr_volume
                   then (''Volume faders, 0..1'', \<lparr>sc_mute = None, sc_volume = Some c, sc_media = None\<rparr>)
                   else (''Media source transport'', \<lparr>sc_mute = None, sc_volume = None, sc_media = Some c\<rparr>));
          ctx = fst (osc_visit_sources (en_obs en) ''*'' KindInput (source_enum_visit en) (snd start, w));
          node = (case sc_mute ctx of
                    Some n \<Rightarrow> n
                  | None \<Rightarrow> (case sc_volume ctx of Some n \<Rightarrow> n | None \<Rightarrow> the (sc_media ctx)))
      in set_description da node (fst start))"

record 'd item_roots =
  ir_visible :: "'d option"
  ir_locked :: "'d option"
  ir_order :: "'d option"

definition schema_item_cb ::
  "('w, 'd) env \<Rightarrow> nat \<Rightarrow> 'd item_roots \<times> 'w \<Rightarrow> bool \<times> 'd item_roots \<times> 'w" where
  "schema_item_cb en item s =
     (let da = en_data en; ob = en_obs en; ctx = fst s; w = snd s
      in case ob_item_source ob item w of
        None \<Rightarrow> (True, s)
      | Some source \<Rightarrow>
          let name = ob_name ob source w;
              visible = map_option (\<lambda>n. add_child da n name
                          (make_rw_int da (bool_long (ob_item_visible ob item w)) 0 1 None)) (ir_visible ctx);
              locked = map_option (\<lambda>n. add_child da n name
                          (make_rw_int da (bool_long (ob_item_locked ob item w)) 0 1 None)) (ir_locked ctx);
              order = map_option (\<lambda>n. add_child da n name
                          (make_rw_int da (sint (ob_item_order ob item w)) 0 4095 (Some ''0 = bottom'')))
                          (ir_order ctx)
          in (True, \<lparr>ir_visible = visible, ir_locked = locked, ir_order = order\<rparr>, w))"

definition add_under :: "'d data_api \<Rightarrow> string \<Rightarrow> 'd option \<Rightarrow> 'd option \<Rightarrow> 'd option" where
  "add_under da name child root =
     (case child of None \<Rightarrow> root | Some c \<Rightarrow> map_option (\<lambda>r. add_child da r name c) root)"

definition schema_scene_cb ::
  "('w, 'd) env \<Rightarrow> nat \<Rightarrow> 'd item_roots \<times> 'w \<Rightarrow> bool \<times> 'd item_roots \<times> 'w" where
  "schema_scene_cb en scene s =
     (let da = en_data en; ob = en_obs en; roots = fst s; w = snd s;
          scene_name = ob_name ob scene w;
          fresh = map_option (\<lambda>_. make_container da None);
          ctx = fst (enum_until (schema_item_cb en) (ob_scene_items ob scene w)
                  (\<lparr>ir_visible = fresh (ir_visible roots), ir_locked = fresh (ir_locked roots),
                    ir_order = fresh (ir_order roots)\<rparr>, w))
      in (True,
          \<lparr>ir_visible = add_under da scene_name (ir_visible ctx) (ir_visible roots),
           ir_locked = add_under da scene_name (ir_locked ctx) (ir_locked roots),
           ir_order = add_under da scene_name (ir_order ctx) (ir_order roots)\<rparr>, w))"

definition build_item_sections ::
  "('w, 'd) env \<Rightarrow> bool \<Rightarrow> bool \<Rightarrow> bool \<Rightarrow> 'w \<Rightarrow> 'd item_roots" where
  "build_item_sections en visible_out locked_out order_out w =
     (let root = (\<lambda>wanted d. if wanted then Some (make_container (en_data en) (Some d)) else None)
      in fst (enum_until (schema_scene_cb en) (ob_scenes (en_obs en) w)
           (\<lparr>ir_visible = root visible_out ''Scene item visibility'',
             ir_locked = root locked_out ''Scene item lock'',
             ir_order = root order_out ''Scene item stacking order''\<rparr>, w)))"

definition build_filter_section :: "('w, 'd) env \<Rightarrow> 'w \<Rightarrow> 'd" where
  "build_filter_section en w =
     (let da = en_data en; ob = en_obs en
      in fst (osc_visit_sources ob ''*'' KindAny
           (\<lambda>source s.
              if ob_filters ob source (snd s) = [] then (True, s)
              else
                let filters = foldl (\<lambda>n f. add_child da n (ob_name ob f (snd s))
                       (make_rw_int da (bool_long (ob_enabled ob f (snd s))) 0 1 None))
                     (make_container da None) (ob_filters ob source (snd s))
                in (True, add_child da (fst s) (ob_name ob source (snd s)) filters, snd s))
           (make_container da (Some ''Filter enable toggles''), w)))"

definition tally_enum_visit :: "('w, 'd) env \<Rightarrow> bool \<Rightarrow> nat \<Rightarrow> 'd \<times> 'w \<Rightarrow> bool \<times> 'd \<times> 'w" where
  "tally_enum_visit en showing source s =
     (let ob = en_obs en; da = en_data en;
          on = (if showing then ob_showing ob source (snd s) else ob_source_active ob source (snd s))
      in (True,
          add_child da (fst s) (ob_name ob source (snd s))
            (make_ro_int da (bool_long on) (Some (if showing then ''On screen'' else ''In program chain''))),
          snd s))"

definition build_tally_section :: "('w, 'd) env \<Rightarrow> bool \<Rightarrow> 'w \<Rightarrow> 'd" where
  "build_tally_section en showing w =
     fst (osc_visit_sources (en_obs en) ''*'' KindInput (tally_enum_visit en showing)
       (make_container (en_data en)
          (Some (if showing then ''Inputs shown on screen at all'' else ''Inputs rendered in the program chain'')),
        w))"

definition build_hotkey_section :: "('w, 'd) env \<Rightarrow> 'w \<Rightarrow> 'd" where
  "build_hotkey_section en w =
     foldl (\<lambda>n (_, name). add_child (en_data en) n name (make_bang (en_data en) None))
       (make_container (en_data en) (Some ''Trigger hotkey by OBS name'')) (ob_hotkeys (en_obs en) w)"

definition add_name_children :: "'d data_api \<Rightarrow> 'd \<Rightarrow> string list option \<Rightarrow> 'd" where
  "add_name_children da parent names =
     (case names of
        None \<Rightarrow> parent
      | Some ns \<Rightarrow> foldl (\<lambda>n name. add_child da n name (make_bang da None)) parent ns)"

definition build_profile_section :: "('w, 'd) env \<Rightarrow> 'w \<Rightarrow> 'd" where
  "build_profile_section en w =
     add_name_children (en_data en) (make_container (en_data en) (Some ''Switch profile''))
       (fe_profiles (en_fe en) w)"

definition build_collection_section :: "('w, 'd) env \<Rightarrow> 'w \<Rightarrow> 'd" where
  "build_collection_section en w =
     add_name_children (en_data en) (make_container (en_data en) (Some ''Switch scene collection''))
       (fe_collections (en_fe en) w)"

definition build_section :: "('w, 'd) env \<Rightarrow> string \<Rightarrow> 'w \<Rightarrow> 'd option" where
  "build_section en segment w =
     (if segment = ''program'' then Some (build_scenes_section en ''Switch program scene'' w)
      else if segment = ''preview'' then Some (build_scenes_section en ''Set preview scene'' w)
      else if segment = leaf addr_transition then Some (build_transition_section en w)
      else case find (\<lambda>out. segment = leaf (out_base out)) outputs of
        Some out \<Rightarrow> Some (build_output_section en out w)
      | None \<Rightarrow>
      (if segment = leaf addr_studio then
         Some (make_rw_int (en_data en) (bool_long (fe_studio_active (en_fe en) w)) 0 1 (Some ''Studio mode''))
       else if segment = leaf addr_screenshot then Some (make_bang (en_data en) (Some ''Take screenshot''))
       else if segment = addr_mute \<or> segment = addr_volume \<or> segment = addr_media then
         Some (build_source_section en segment w)
       else if segment = leaf visible_prefix then ir_visible (build_item_sections en True False False w)
       else if segment = leaf locked_prefix then ir_locked (build_item_sections en False True False w)
       else if segment = leaf order_prefix then ir_order (build_item_sections en False False True w)
       else if segment = leaf filter_prefix then Some (build_filter_section en w)
       else if segment = leaf active_prefix then Some (build_tally_section en False w)
       else if segment = leaf showing_prefix then Some (build_tally_section en True w)
       else if segment = hotkey_prefix then Some (build_hotkey_section en w)
       else if segment = leaf addr_profile then Some (build_profile_section en w)
       else if segment = leaf addr_collection then Some (build_collection_section en w)
       else if segment = leaf addr_subscribe then
         Some (make_bang (en_data en)
           (Some (''Subscribe this client to a topic: ,s <pattern> [,i port]; '' @
                  ''wildcards * and ? allowed'')))
       else if segment = leaf addr_unsubscribe then
         Some (make_bang (en_data en) (Some ''Unsubscribe: ,s <pattern>, or no argument for everything''))
       else None))"

subsection \<open>The document\<close>

text \<open>The calls of \<^verbatim>\<open>map_set\<close> in their order.\<close>

definition root_entries :: "('w, 'd) env \<Rightarrow> 'w \<Rightarrow> (string \<times> 'd option) list" where
  "root_entries en w =
     (let section = (\<lambda>key. (key, build_section en key w)); items = build_item_sections en True True True w
      in [section ''program'', section ''preview'', section (leaf addr_transition)] @
         map (\<lambda>out. (leaf (out_base out), Some (build_output_section en out w))) outputs @
         [section (leaf addr_studio), section (leaf addr_screenshot),
          section addr_mute, section addr_volume, section addr_media,
          (leaf visible_prefix, ir_visible items), (leaf locked_prefix, ir_locked items),
          (leaf order_prefix, ir_order items),
          section (leaf filter_prefix), section (leaf active_prefix), section (leaf showing_prefix),
          section hotkey_prefix, section (leaf addr_profile), section (leaf addr_collection),
          section (leaf addr_subscribe), section (leaf addr_unsubscribe)])"

definition build_root :: "('w, 'd) env \<Rightarrow> 'w \<Rightarrow> 'd" where
  "build_root en w =
     (let da = en_data en
      in dt_set_obj da (dt_new da) contents_key
           (Some (foldl (\<lambda>c (key, node). map_set da c key node) (dt_new da) (root_entries en w))))"

function split_path :: "string \<Rightarrow> string list" where
  "split_path path =
     (let segment = takeWhile (\<lambda>c. c \<noteq> CHR ''/'') path;
          this = (if segment = [] then [] else [segment])
      in case dropWhile (\<lambda>c. c \<noteq> CHR ''/'') path of
           [] \<Rightarrow> this
         | _ # rest \<Rightarrow> this @ split_path rest)"
  by pat_completeness auto
termination
proof (relation "measure length", simp)
  fix path segment this c rest
  assume "dropWhile (\<lambda>c. c \<noteq> CHR ''/'') path = c # rest"
  then show "(rest, path) \<in> measure length"
    using length_dropWhile_le [of "\<lambda>c. c \<noteq> CHR ''/''" path] by simp
qed

declare split_path.simps [simp del]

fun descend :: "'d data_api \<Rightarrow> 'd option \<Rightarrow> string list \<Rightarrow> 'd option" where
  "descend da node [] = node"
| "descend da node (s # ss) =
     (case node of
        None \<Rightarrow> None
      | Some n \<Rightarrow>
          descend da (case dt_obj da n contents_key of
                        None \<Rightarrow> None
                      | Some contents \<Rightarrow> dt_obj da contents (c_str s)) ss)"

definition walk_tree :: "('w, 'd) env \<Rightarrow> string \<Rightarrow> 'w \<Rightarrow> string" where
  "walk_tree en path w =
     (case split_path path of
        [] \<Rightarrow> or_empty (dt_json (en_data en) (build_root en w))
      | first # rest \<Rightarrow>
          (case descend (en_data en) (build_section en first w) rest of
             None \<Rightarrow> []
           | Some node \<Rightarrow> or_empty (dt_json (en_data en) node)))"

definition osc_query_schema_lookup :: "('w, 'd) env \<Rightarrow> string \<Rightarrow> 'w \<Rightarrow> string" where
  "osc_query_schema_lookup en path w = walk_tree en path w"


subsection \<open>Paths\<close>

lemma split_path_Nil [simp]: "split_path [] = []"
  by (simp add: split_path.simps [of "[]"])

lemma split_path_slash [simp]: "split_path (CHR ''/'' # p) = split_path p"
  by (simp add: split_path.simps [of "CHR ''/'' # p"])

lemma split_path_segment:
  assumes "s \<noteq> []" "CHR ''/'' \<notin> set s"
  shows "split_path (s @ CHR ''/'' # p) = s # split_path p" "split_path s = [s]"
proof -
  have t: "takeWhile (\<lambda>c. c \<noteq> CHR ''/'') s = s" "dropWhile (\<lambda>c. c \<noteq> CHR ''/'') s = []"
    using assms(2) by (auto simp: takeWhile_eq_all_conv dropWhile_eq_Nil_conv)
  show "split_path s = [s]" by (simp add: split_path.simps [of s] t assms(1))
  show "split_path (s @ CHR ''/'' # p) = s # split_path p"
    by (simp add: split_path.simps [of "s @ CHR ''/'' # p"] takeWhile_neq_append dropWhile_neq_append assms)
qed

text \<open>A path segment: what \<^verbatim>\<open>split_path\<close> keeps.\<close>

definition path_segment :: "string \<Rightarrow> bool" where
  "path_segment s \<longleftrightarrow> s \<noteq> [] \<and> CHR ''/'' \<notin> set s"

definition join_path :: "string list \<Rightarrow> string" where
  "join_path ss = concat (map (\<lambda>s. CHR ''/'' # s) ss)"

lemma split_join_path: "\<forall>s \<in> set ss. path_segment s \<Longrightarrow> split_path (join_path ss) = ss"
proof (induction ss)
  case (Cons s ss)
  then have s: "s \<noteq> []" "CHR ''/'' \<notin> set s" by (simp_all add: path_segment_def)
  show ?case
  proof (cases ss)
    case Nil
    with s show ?thesis by (simp add: join_path_def split_path_segment)
  next
    case (Cons t ts)
    then have "join_path (s # ss) = CHR ''/'' # (s @ CHR ''/'' # (t @ join_path ts))"
      "join_path ss = CHR ''/'' # (t @ join_path ts)" by (simp_all add: join_path_def)
    with Cons.IH Cons.prems s show ?thesis by (simp add: split_path_segment)
  qed
qed (simp add: join_path_def)

lemma split_path_segments: "\<forall>s \<in> set (split_path p). path_segment s"
proof (induction p rule: split_path.induct)
  case (1 path)
  have n: "CHR ''/'' \<notin> set (takeWhile (\<lambda>c. c \<noteq> CHR ''/'') path)" by (auto dest: set_takeWhileD)
  show ?case
  proof (cases "dropWhile (\<lambda>c. c \<noteq> CHR ''/'') path")
    case Nil
    with n show ?thesis
      by (simp add: split_path.simps [of path] path_segment_def Let_def del: dropWhile_eq_Nil_conv)
  next
    case (Cons c rest)
    with n "1" [OF refl refl Cons] show ?thesis
      by (simp add: split_path.simps [of path] path_segment_def Let_def)
  qed
qed

lemma split_path_canonical: "split_path (join_path (split_path p)) = split_path p"
  by (rule split_join_path [OF split_path_segments])

subsection \<open>Sections that can be addressed\<close>

definition schema_segments :: "string list" where
  "schema_segments =
     [''program'', ''preview'', ''transition'', ''stream'', ''record'', ''replay'', ''virtualcam'',
      ''studio'', ''screenshot'', ''mute'', ''volume'', ''media'', ''profile'', ''collection'',
      ''subscribe'', ''unsubscribe'']"

lemma leaf_values [simp]:
  "leaf addr_transition = ''transition''" "leaf addr_studio = ''studio''"
  "leaf addr_screenshot = ''screenshot''" "leaf addr_profile = ''profile''"
  "leaf addr_collection = ''collection''" "leaf addr_subscribe = ''subscribe''"
  "leaf addr_unsubscribe = ''unsubscribe''" "leaf addr_stream = ''stream''"
  "leaf addr_record = ''record''" "leaf addr_replay = ''replay''"
  "leaf addr_virtualcam = ''virtualcam''"
  by (simp_all add: leaf_def addr_defs)

text \<open>A route constant that ends in a slash has the empty leaf.\<close>

lemma leaf_prefixes [simp]:
  "leaf visible_prefix = []" "leaf locked_prefix = []" "leaf order_prefix = []"
  "leaf filter_prefix = []" "leaf active_prefix = []" "leaf showing_prefix = []"
  by (simp_all add: leaf_def addr_defs)

lemmas segment_names = addr_mute_def addr_volume_def addr_media_def hotkey_prefix_def

lemma find_output_leaf:
  "find (\<lambda>out. segment = leaf (out_base out)) outputs =
     (if segment = ''stream'' then Some (outputs ! 0)
      else if segment = ''record'' then Some (outputs ! 1)
      else if segment = ''replay'' then Some (outputs ! 2)
      else if segment = ''virtualcam'' then Some (outputs ! 3) else None)"
  by (simp add: outputs_def)

text \<open>
  One walk over the scenes fills every requested root; each root is what a walk of its own
  builds.
\<close>

definition item_children :: "('w, 'd) env \<Rightarrow> (nat \<Rightarrow> 'd) \<Rightarrow> 'w \<Rightarrow> nat list \<Rightarrow> 'd \<Rightarrow> 'd" where
  "item_children en leaf_of w items node =
     foldl (\<lambda>n item. case ob_item_source (en_obs en) item w of
                       None \<Rightarrow> n
                     | Some source \<Rightarrow> add_child (en_data en) n (ob_name (en_obs en) source w) (leaf_of item))
       node items"

definition item_section :: "('w, 'd) env \<Rightarrow> (nat \<Rightarrow> 'd) \<Rightarrow> 'w \<Rightarrow> nat list \<Rightarrow> 'd \<Rightarrow> 'd" where
  "item_section en leaf_of w scenes node =
     foldl (\<lambda>n scene. add_child (en_data en) n (ob_name (en_obs en) scene w)
             (item_children en leaf_of w (ob_scene_items (en_obs en) scene w) (make_container (en_data en) None)))
       node scenes"

definition visible_leaf :: "('w, 'd) env \<Rightarrow> 'w \<Rightarrow> nat \<Rightarrow> 'd" where
  "visible_leaf en w item =
     make_rw_int (en_data en) (bool_long (ob_item_visible (en_obs en) item w)) 0 1 None"

definition locked_leaf :: "('w, 'd) env \<Rightarrow> 'w \<Rightarrow> nat \<Rightarrow> 'd" where
  "locked_leaf en w item =
     make_rw_int (en_data en) (bool_long (ob_item_locked (en_obs en) item w)) 0 1 None"

definition order_leaf :: "('w, 'd) env \<Rightarrow> 'w \<Rightarrow> nat \<Rightarrow> 'd" where
  "order_leaf en w item =
     make_rw_int (en_data en) (sint (ob_item_order (en_obs en) item w)) 0 4095 (Some ''0 = bottom'')"

lemma item_children_simps [simp]:
  "item_children en f w [] = (\<lambda>n. n)"
  "item_children en f w (item # items) = (\<lambda>n. item_children en f w items
     (case ob_item_source (en_obs en) item w of
        None \<Rightarrow> n | Some source \<Rightarrow> add_child (en_data en) n (ob_name (en_obs en) source w) (f item)))"
  by (rule ext, simp add: item_children_def)+

lemma schema_item_step:
  "snd (schema_item_cb en item (r, w)) =
     (\<lparr>ir_visible = map_option (item_children en (visible_leaf en w) w [item]) (ir_visible r),
       ir_locked = map_option (item_children en (locked_leaf en w) w [item]) (ir_locked r),
       ir_order = map_option (item_children en (order_leaf en w) w [item]) (ir_order r)\<rparr>, w)"
  "fst (schema_item_cb en item (r, w))"
  by (cases r; auto simp: schema_item_cb_def visible_leaf_def locked_leaf_def order_leaf_def Let_def
      option.map_ident split: option.splits)+

lemma schema_items:
  "enum_until (schema_item_cb en) items (r, w) =
     (\<lparr>ir_visible = map_option (item_children en (visible_leaf en w) w items) (ir_visible r),
       ir_locked = map_option (item_children en (locked_leaf en w) w items) (ir_locked r),
       ir_order = map_option (item_children en (order_leaf en w) w items) (ir_order r)\<rparr>, w)"
  by (induction items arbitrary: r)
    (simp_all add: case_prod_beta schema_item_step option.map_ident option.map_comp comp_def)

lemma item_section_simps [simp]:
  "item_section en f w [] = (\<lambda>n. n)"
  "item_section en f w (scene # scenes) = (\<lambda>n. item_section en f w scenes
     (add_child (en_data en) n (ob_name (en_obs en) scene w)
        (item_children en f w (ob_scene_items (en_obs en) scene w) (make_container (en_data en) None))))"
  by (rule ext, simp add: item_section_def)+

lemma add_under_fresh:
  "add_under da n (map_option f (map_option (\<lambda>_. c) x)) x = map_option (\<lambda>r. add_child da r n (f c)) x"
  by (cases x) (simp_all add: add_under_def)

lemma schema_scene_step:
  "schema_scene_cb en scene (r, w) =
     (True,
      \<lparr>ir_visible = map_option (item_section en (visible_leaf en w) w [scene]) (ir_visible r),
       ir_locked = map_option (item_section en (locked_leaf en w) w [scene]) (ir_locked r),
       ir_order = map_option (item_section en (order_leaf en w) w [scene]) (ir_order r)\<rparr>, w)"
  by (simp add: schema_scene_cb_def schema_items Let_def add_under_fresh)

lemma schema_scenes:
  "enum_until (schema_scene_cb en) scenes (r, w) =
     (\<lparr>ir_visible = map_option (item_section en (visible_leaf en w) w scenes) (ir_visible r),
       ir_locked = map_option (item_section en (locked_leaf en w) w scenes) (ir_locked r),
       ir_order = map_option (item_section en (order_leaf en w) w scenes) (ir_order r)\<rparr>, w)"
  by (induction scenes arbitrary: r)
    (simp_all add: schema_scene_step option.map_ident option.map_comp comp_def)

lemma item_sections:
  "build_item_sections en vis lck ord w =
     \<lparr>ir_visible = (if vis then ir_visible (build_item_sections en True False False w) else None),
      ir_locked = (if lck then ir_locked (build_item_sections en False True False w) else None),
      ir_order = (if ord then ir_order (build_item_sections en False False True w) else None)\<rparr>"
  by (simp add: build_item_sections_def Let_def schema_scenes)

lemma build_section_found:
  "build_section en segment w = None \<longleftrightarrow>
     segment \<notin> set schema_segments \<and> segment \<noteq> [] \<and> segment \<noteq> ''/hotkey/''"
  by (simp add: build_section_def find_output_leaf schema_segments_def segment_names
      build_item_sections_def schema_scenes Let_def)

lemma descend_None [simp]: "descend da None ss = None"
  by (cases ss) simp_all

lemma walk_tree_unknown:
  assumes "path_segment seg" "seg \<notin> set schema_segments"
  shows "osc_query_schema_lookup en (''/'' @ seg @ ''/'' @ rest) w = []"
proof -
  have s: "seg \<noteq> []" "CHR ''/'' \<notin> set seg" using assms(1) by (simp_all add: path_segment_def)
  then have "seg \<noteq> ''/hotkey/''" by auto
  then have "build_section en seg w = None" using assms(2) s(1) by (simp add: build_section_found)
  then show ?thesis by (simp add: osc_query_schema_lookup_def walk_tree_def split_path_segment(1) [OF s])
qed

subsection \<open>One document\<close>

text \<open>What the documentation of settings objects promises of nested objects.\<close>

definition object_laws :: "'d data_api \<Rightarrow> bool" where
  "object_laws da \<longleftrightarrow>
     (\<forall>k. dt_obj da (dt_new da) k = None) \<and>
     (\<forall>d k c k'. dt_obj da (dt_set_obj da d k c) k' = (if k = k' then c else dt_obj da d k')) \<and>
     (\<forall>d k v k'. k \<noteq> k' \<longrightarrow> dt_obj da (dt_set_int da d k v) k' = dt_obj da d k') \<and>
     (\<forall>d k v k'. k \<noteq> k' \<longrightarrow> dt_obj da (dt_set_float da d k v) k' = dt_obj da d k') \<and>
     (\<forall>d k v k'. k \<noteq> k' \<longrightarrow> dt_obj da (dt_set_string da d k v) k' = dt_obj da d k') \<and>
     (\<forall>d k v k'. k \<noteq> k' \<longrightarrow> dt_obj da (dt_set_array da d k v) k' = dt_obj da d k')"

lemma object_lawsD:
  assumes "object_laws da"
  shows "dt_obj da (dt_new da) k = None"
    "dt_obj da (dt_set_obj da d k c) k' = (if k = k' then c else dt_obj da d k')"
    "k \<noteq> k' \<Longrightarrow> dt_obj da (dt_set_int da d k i) k' = dt_obj da d k'"
    "k \<noteq> k' \<Longrightarrow> dt_obj da (dt_set_float da d k x) k' = dt_obj da d k'"
    "k \<noteq> k' \<Longrightarrow> dt_obj da (dt_set_string da d k s) k' = dt_obj da d k'"
    "k \<noteq> k' \<Longrightarrow> dt_obj da (dt_set_array da d k ds) k' = dt_obj da d k'"
  using assms unfolding object_laws_def by simp_all

lemma map_set_entries:
  assumes "object_laws da"
  shows "dt_obj da (foldl (\<lambda>c (key, node). map_set da c key node) d es) k =
    (case map_of (rev es) k of Some c \<Rightarrow> c | None \<Rightarrow> dt_obj da d k)"
proof (induction es arbitrary: d)
  case (Cons e es)
  have map_set_obj: "dt_obj da (map_set da d k c) k' = (if k = k' then c else dt_obj da d k')" for d k c k'
    by (simp add: map_set_def object_lawsD(2) [OF assms])
  obtain key node where "e = (key, node)" by fastforce
  then show ?case
    by (simp add: Cons.IH map_set_obj map_add_def split: option.splits)
qed simp

text \<open>
  The scene-item trio and the sections whose route constant ends in a slash all sit under the
  empty key, where the last one written stays: what the segment \<open>[]\<close> selects.
\<close>

lemma output_leaves:
  "leaf (out_base (outputs ! 0)) = ''stream''" "leaf (out_base (outputs ! 1)) = ''record''"
  "leaf (out_base (outputs ! 2)) = ''replay''" "leaf (out_base (outputs ! 3)) = ''virtualcam''"
  by (simp_all add: outputs_def)

lemma outputs_all: "outputs = [outputs ! 0, outputs ! 1, outputs ! 2, outputs ! 3]"
  by (simp add: outputs_def)

lemma output_sections:
  "build_section en ''stream'' w = Some (build_output_section en (outputs ! 0) w)"
  "build_section en ''record'' w = Some (build_output_section en (outputs ! 1) w)"
  "build_section en ''replay'' w = Some (build_output_section en (outputs ! 2) w)"
  "build_section en ''virtualcam'' w = Some (build_output_section en (outputs ! 3) w)"
  by (simp_all add: build_section_def find_output_leaf)

lemma output_entries:
  "map (\<lambda>out. (leaf (out_base out), Some (build_output_section en out w))) outputs =
     map (\<lambda>key. (key, build_section en key w)) [''stream'', ''record'', ''replay'', ''virtualcam'']"
  by (subst outputs_all) (simp only: list.map output_leaves output_sections)

definition first_keys :: "string list" where
  "first_keys =
     [''program'', ''preview'', ''transition'', ''stream'', ''record'', ''replay'', ''virtualcam'',
      ''studio'', ''screenshot'', ''mute'', ''volume'', ''media'']"

definition last_keys :: "string list" where
  "last_keys = [[], [], [], ''/hotkey/'', ''profile'', ''collection'', ''subscribe'', ''unsubscribe'']"

lemma root_keys: "set first_keys \<union> set last_keys = insert [] (insert ''/hotkey/'' (set schema_segments))"
  by code_simp

lemma root_entries_eq:
  "root_entries en w =
     (let section = (\<lambda>key. (key, build_section en key w)); items = build_item_sections en True True True w
      in map section first_keys @
         [([], ir_visible items), ([], ir_locked items), ([], ir_order items)] @ map section last_keys)"
  by (simp only: root_entries_def output_entries Let_def first_keys_def last_keys_def)
    (simp add: segment_names)

lemma map_of_sections: "map_of (map (\<lambda>key. (key, f key)) ks) k = (if k \<in> set ks then Some (f k) else None)"
  by (induction ks) auto

lemma lookup_sections:
  assumes "fst ` set xs \<subseteq> set bs"
  shows "map_of (rev (map (\<lambda>key. (key, f key)) as @ xs @ map (\<lambda>key. (key, f key)) bs)) k =
    (if k \<in> set as \<union> set bs then Some (f k) else None)"
proof (cases "k \<in> set bs")
  case False
  then have "map_of (rev xs) k = None" using assms by (auto simp: map_of_eq_None_iff)
  with False show ?thesis by (simp add: rev_map map_of_sections map_add_def)
qed (simp add: rev_map map_of_sections map_add_def)

lemma root_entries_map:
  "map_of (rev (root_entries en w)) k =
     (if build_section en k w = None then None else Some (build_section en k w))"
proof -
  have "k \<in> set first_keys \<union> set last_keys \<longleftrightarrow> build_section en k w \<noteq> None"
    by (auto simp: root_keys build_section_found)
  moreover have "map_of (rev (root_entries en w)) k =
      (if k \<in> set first_keys \<union> set last_keys then Some (build_section en k w) else None)"
    unfolding root_entries_eq Let_def by (rule lookup_sections) (simp add: last_keys_def)
  ultimately show ?thesis by simp
qed

lemma descend_root:
  assumes "object_laws (en_data en)" "NUL \<notin> set s"
  shows "descend (en_data en) (Some (build_root en w)) (s # ss) = descend (en_data en) (build_section en s w) ss"
  using assms(2) by (simp add: c_string_def build_root_def Let_def object_lawsD [OF assms(1)] map_set_entries [OF assms(1)]
      root_entries_map)

lemma set_split_path: "s \<in> set (split_path p) \<Longrightarrow> set s \<subseteq> set p"
proof (induction p rule: split_path.induct)
  case (1 path)
  have t: "set (takeWhile (\<lambda>c. c \<noteq> CHR ''/'') path) \<subseteq> set path" by (auto dest: set_takeWhileD)
  show ?case
  proof (cases "dropWhile (\<lambda>c. c \<noteq> CHR ''/'') path")
    case Nil
    with "1.prems" t show ?thesis
      by (simp add: split_path.simps [of path] Let_def del: dropWhile_eq_Nil_conv split: if_splits)
  next
    case (Cons c rest)
    then have "set rest \<subseteq> set path" by (metis list.set_intros(2) set_dropWhileD subsetI)
    with "1.prems" t "1.IH" [OF refl refl Cons] Cons show ?thesis
      by (auto simp: split_path.simps [of path] Let_def split: if_splits)
  qed
qed

lemma walk_tree_document:
  assumes "object_laws (en_data en)" "NUL \<notin> set path"
  shows "osc_query_schema_lookup en path w =
    (case descend (en_data en) (Some (build_root en w)) (split_path path) of
       None \<Rightarrow> [] | Some node \<Rightarrow> or_empty (dt_json (en_data en) node))"
proof (cases "split_path path")
  case Nil
  then show ?thesis by (simp add: osc_query_schema_lookup_def walk_tree_def)
next
  case (Cons s ss)
  then have "NUL \<notin> set s" using set_split_path [of s path] assms(2) by auto
  with Cons descend_root [OF assms(1) this] show ?thesis
    by (simp add: osc_query_schema_lookup_def walk_tree_def del: descend.simps)
qed

subsection \<open>Children of a section\<close>

definition child_of :: "'d data_api \<Rightarrow> 'd \<Rightarrow> string \<Rightarrow> 'd option" where
  "child_of da node k =
     (case dt_obj da node contents_key of None \<Rightarrow> None | Some contents \<Rightarrow> dt_obj da contents k)"

definition container :: "'d data_api \<Rightarrow> 'd \<Rightarrow> bool" where
  "container da node \<longleftrightarrow> dt_obj da node contents_key \<noteq> None"

lemma child_container:
  assumes "object_laws da"
  shows "container da (make_container da t)" "child_of da (make_container da t) k = None"
  by (auto simp: container_def child_of_def make_container_def Let_def set_description_def contents_key_def
      object_lawsD [OF assms] split: option.splits)

lemma child_add:
  assumes "object_laws da" "container da p"
  shows "container da (add_child da p n c)"
    "child_of da (add_child da p n c) k = (if n = k then Some c else child_of da p k)"
  using assms(2) by (auto simp: container_def child_of_def add_child_def map_set_def
      object_lawsD [OF assms(1)] split: option.splits)

lemma child_description:
  assumes "object_laws da"
  shows "child_of da (set_description da n t) k = child_of da n k"
  by (simp add: child_of_def set_description_def contents_key_def object_lawsD [OF assms])

lemma child_fold:
  assumes "object_laws da" "container da p"
  shows "container da (foldl (\<lambda>n x. if P x then add_child da n (name x) (f x) else n) p xs) \<and>
    child_of da (foldl (\<lambda>n x. if P x then add_child da n (name x) (f x) else n) p xs) k =
      (case find (\<lambda>x. P x \<and> name x = k) (rev xs) of Some x \<Rightarrow> Some (f x) | None \<Rightarrow> child_of da p k)"
  using assms(2)
proof (induction xs arbitrary: p)
  case (Cons x xs)
  have fa: "find Q (ys @ [x]) = (case find Q ys of Some y \<Rightarrow> Some y | None \<Rightarrow> if Q x then Some x else None)"
    for Q ys by (induction ys) auto
  show ?case
    using Cons.IH [of p] Cons.IH [of "add_child da p (name x) (f x)"] Cons.prems child_add [OF assms(1) Cons.prems]
    by (auto simp: fa split: option.splits)
qed simp

text \<open>
  The glob \<open>*\<close> of the walks accepts a name unless it starts with a star and goes on.
\<close>

lemma glob_rest: "glob_loop [] s (Some ([], s))"
  by (induction s) (simp_all add: glob_loop_Nil glob_loop_fail)

lemma glob_any: "osc_glob_match ''*'' n \<longleftrightarrow> (n = [] \<or> hd n \<noteq> CHR ''*'' \<or> n = ''*'')"
proof (cases n)
  case (Cons c s)
  show ?thesis
  proof (cases "c = CHR ''*''")
    case True
    then have "osc_glob_match ''*'' n = glob_loop [] s None"
      by (simp add: Cons osc_glob_match_def glob_loop_literal)
    also have "\<dots> \<longleftrightarrow> s = []" by (cases s) (simp_all add: glob_loop_Nil glob_loop_fail)
    finally show ?thesis by (simp add: Cons True)
  next
    case False
    then show ?thesis by (simp add: Cons osc_glob_match_def glob_loop_star glob_rest)
  qed
qed (simp add: osc_glob_match_def glob_loop_Nil)

lemma mute_children:
  assumes "object_laws (en_data en)"
  shows "child_of (en_data en) (the (build_section en ''mute'' w)) n =
    map_option (\<lambda>x. make_rw_int (en_data en) (bool_long (ob_muted (en_obs en) x w)) 0 1 None)
      (find (\<lambda>x. (osc_is_input (en_obs en) x w \<and> osc_glob_match ''*'' (ob_name (en_obs en) x w)) \<and>
              ob_name (en_obs en) x w = n)
         (rev (ob_sources (en_obs en) w)))"
proof -
  let ?f = "\<lambda>x. make_rw_int (en_data en) (bool_long (ob_muted (en_obs en) x w)) 0 1 None"
  let ?P = "\<lambda>x. osc_is_input (en_obs en) x w \<and> osc_glob_match ''*'' (ob_name (en_obs en) x w)"
  have e: "enum_until (\<lambda>source s. if type_ok (en_obs en) KindInput source (snd s) \<and>
             osc_glob_match ''*'' (ob_name (en_obs en) source (snd s))
           then source_enum_visit en source s else (True, s)) xs
       (\<lparr>sc_mute = Some c, sc_volume = None, sc_media = None\<rparr>, w) =
     (\<lparr>sc_mute = Some (foldl (\<lambda>n x. if ?P x then add_child (en_data en) n (ob_name (en_obs en) x w) (?f x) else n) c xs),
        sc_volume = None, sc_media = None\<rparr>, w)" for xs c
    by (induction xs arbitrary: c) (simp_all add: type_ok_def source_enum_visit_def Let_def)
  have "the (build_section en ''mute'' w) = set_description (en_data en)
      (foldl (\<lambda>n x. if ?P x then add_child (en_data en) n (ob_name (en_obs en) x w) (?f x) else n)
        (make_container (en_data en) None) (ob_sources (en_obs en) w)) ''Mute inputs (* and ? globs work over OSC)''"
    by (simp add: build_section_def find_output_leaf segment_names build_source_section_def Let_def
        osc_visit_sources_def osc_has_wildcard_def e)
  then show ?thesis
    using child_fold [OF assms child_container(1) [OF assms], of ?P "\<lambda>x. ob_name (en_obs en) x w" ?f None
        "ob_sources (en_obs en) w" n]
    by (simp add: child_description [OF assms] child_container [OF assms] split: option.splits)
qed

lemma mute_section_children:
  assumes "object_laws (en_data en)"
  shows "child_of (en_data en) (the (build_section en ''mute'' w)) n =
    (if n = [] \<or> hd n \<noteq> CHR ''*'' \<or> n = ''*''
     then map_option (\<lambda>x. make_rw_int (en_data en) (bool_long (ob_muted (en_obs en) x w)) 0 1 None)
            (find (\<lambda>x. osc_is_input (en_obs en) x w \<and> ob_name (en_obs en) x w = n)
               (rev (ob_sources (en_obs en) w)))
     else None)"
proof -
  have "(\<lambda>x. (osc_is_input (en_obs en) x w \<and> osc_glob_match ''*'' (ob_name (en_obs en) x w)) \<and>
        ob_name (en_obs en) x w = n) =
      (\<lambda>x. (n = [] \<or> hd n \<noteq> CHR ''*'' \<or> n = ''*'') \<and> osc_is_input (en_obs en) x w \<and> ob_name (en_obs en) x w = n)"
    by (rule ext) (auto simp: glob_any)
  moreover have "find (\<lambda>x. False) xs = None" for xs :: "nat list" by (induction xs) simp_all
  ultimately show ?thesis
    unfolding mute_children [OF assms] by (cases "n = [] \<or> hd n \<noteq> CHR ''*'' \<or> n = ''*''") simp_all
qed

end
