(* ===== verification/OscPlugin.thy ===== *)
theory OscPlugin
  imports OscReplies OscSchema
begin

text \<open>
  The module itself (\<^verbatim>\<open>plugin.cpp\<close>, \<^verbatim>\<open>osc-plugin.h\<close>, \<^verbatim>\<open>osc-ui-task.cpp\<close>): loading and saving the configuration, applying new settings with
  rollback, load and unload, and the way of a datagram from the network thread to the
  dispatcher.  The globals \<^verbatim>\<open>g_config\<close> and \<^verbatim>\<open>g_server\<close> are fields of \<open>plugin\<close>.  The files and
  the menu belong to libobs: they are the fields of \<open>module_api\<close>.
\<close>

subsection \<open>Configuration file\<close>

record ('w, 'd) module_api =
  md_config_path :: "string \<Rightarrow> 'w \<Rightarrow> string option"
  md_mkdirs :: "string \<Rightarrow> 'w \<Rightarrow> 'w"
  md_load_json :: "string \<Rightarrow> string \<Rightarrow> 'w \<Rightarrow> 'd option"
  md_save_json :: "'d \<Rightarrow> string \<Rightarrow> string \<Rightarrow> string \<Rightarrow> 'w \<Rightarrow> 'w"
  md_add_menu_item :: "string \<Rightarrow> 'w \<Rightarrow> 'w"
  md_get_string :: "string \<Rightarrow> 'w \<Rightarrow> string option"

definition config_file :: string where "config_file = ''plugin-config.json''"

text \<open>\<^verbatim>\<open>(int)\<close> of a \<^verbatim>\<open>long long\<close>.\<close>

definition to_int :: "int \<Rightarrow> int" where
  "to_int v = sint (word_of_int v :: 32 word)"

definition read_config :: "'d data_api \<Rightarrow> 'd \<Rightarrow> osc_config" where
  "read_config da data =
     \<lparr>cf_port = to_int (dt_int da data ''port''),
      cf_feedback_enabled = dt_bool da data ''feedback_enabled'',
      cf_feedback_host = dt_string da data ''feedback_host'',
      cf_feedback_port = to_int (dt_int da data ''feedback_port''),
      cf_query_enabled = dt_bool da data ''query_enabled'',
      cf_query_port = to_int (dt_int da data ''query_port'')\<rparr>"

definition clamp_config :: "osc_config \<Rightarrow> osc_config" where
  "clamp_config c =
     (let c = (if cf_port c \<le> 0 \<or> cf_port c > 65535 then c\<lparr>cf_port := 9000\<rparr> else c);
          c = (if cf_feedback_port c < 0 \<or> cf_feedback_port c > 65535 then c\<lparr>cf_feedback_port := 0\<rparr> else c)
      in if cf_query_port c < 0 \<or> cf_query_port c > 65535 then c\<lparr>cf_query_port := 0\<rparr> else c)"

definition load_config :: "('w, 'd) env \<Rightarrow> ('w, 'd) module_api \<Rightarrow> 'w plugin \<Rightarrow> 'w plugin" where
  "load_config en md p =
     (case md_config_path md config_file (world p) of
        None \<Rightarrow> p
      | Some path \<Rightarrow>
          let c = (case md_load_json md path ''bak'' (world p) of
                     None \<Rightarrow> pl_config p
                   | Some data \<Rightarrow> read_config (en_data en) data)
          in p\<lparr>pl_config := clamp_config c\<rparr>)"

definition is_separator :: "char \<Rightarrow> bool" where
  "is_separator c \<longleftrightarrow> c = CHR ''/'' \<or> of_char c = (92 :: nat)"

definition parent_directory :: "string \<Rightarrow> string option" where
  "parent_directory path =
     (case dropWhile (\<lambda>c. \<not> is_separator c) (rev path) of [] \<Rightarrow> None | _ # r \<Rightarrow> Some (rev r))"

definition write_config :: "'d data_api \<Rightarrow> osc_config \<Rightarrow> 'd" where
  "write_config da c =
     dt_set_int da
       (dt_set_bool da
         (dt_set_int da
           (dt_set_string da
             (dt_set_bool da
               (dt_set_int da (dt_new da) ''port'' (cf_port c))
               ''feedback_enabled'' (cf_feedback_enabled c))
             ''feedback_host'' (c_str (cf_feedback_host c)))
           ''feedback_port'' (cf_feedback_port c))
         ''query_enabled'' (cf_query_enabled c))
       ''query_port'' (cf_query_port c)"

definition osc_save_config :: "('w, 'd) env \<Rightarrow> ('w, 'd) module_api \<Rightarrow> 'w plugin \<Rightarrow> 'w plugin" where
  "osc_save_config en md p =
     (case md_config_path md config_file (world p) of
        None \<Rightarrow> p
      | Some path \<Rightarrow>
          let p1 = (case parent_directory path of
                      None \<Rightarrow> p | Some directory \<Rightarrow> on_world (md_mkdirs md (c_str directory)) p)
          in on_world (md_save_json md (write_config (en_data en) (pl_config p1)) path ''tmp'' ''bak'') p1)"

subsection \<open>Applying settings\<close>

definition server_op :: "(server \<Rightarrow> 'w \<Rightarrow> 'r \<times> server \<times> 'w) \<Rightarrow> 'w plugin \<Rightarrow> 'r \<times> 'w plugin" where
  "server_op f p =
     (case f (pl_server p) (world p) of (r, sv, w) \<Rightarrow> (r, (set_world w p)\<lparr>pl_server := sv\<rparr>))"

definition start_listener :: "('w, 'd) env \<Rightarrow> int \<Rightarrow> 'w plugin \<Rightarrow> bool \<times> 'w plugin" where
  "start_listener en port = server_op (server_start (en_os en) port)"

definition stop_listener :: "('w, 'd) env \<Rightarrow> 'w plugin \<Rightarrow> 'w plugin" where
  "stop_listener en p = snd (server_op (\<lambda>s w. ((), server_stop (en_os en) s w)) p)"

definition restart_query :: "('w, 'd) env \<Rightarrow> 'w plugin \<Rightarrow> bool \<times> 'w plugin" where
  "restart_query en p =
     (case osc_query_restart (en_os en) (pl_config p) (pl_query p) (pl_ws p) of
        (ok, q, s) \<Rightarrow> (ok, p\<lparr>pl_query := q, pl_ws := s\<rparr>))"

definition stop_query :: "('w, 'd) env \<Rightarrow> 'w plugin \<Rightarrow> 'w plugin" where
  "stop_query en p =
     (case osc_query_stop (en_os en) (pl_query p) (pl_ws p) of
        (q, s) \<Rightarrow> p\<lparr>pl_query := q, pl_ws := s\<rparr>)"

definition apply_feedback_target :: "('w, 'd) env \<Rightarrow> 'w plugin \<Rightarrow> 'w plugin" where
  "apply_feedback_target en p =
     p\<lparr>pl_server := set_feedback_target (en_os en) (cf_feedback_host (pl_config p))
         (cf_feedback_port (pl_config p)) (world p) (pl_server p)\<rparr>"

definition osc_apply_port :: "('w, 'd) env \<Rightarrow> int \<Rightarrow> 'w plugin \<Rightarrow> bool \<times> 'w plugin" where
  "osc_apply_port en port p =
     (let previous = cf_port (pl_config p)
      in if port = previous then (True, p)
         else case start_listener en port (stop_listener en p) of (ok, p1) \<Rightarrow>
           if ok then
             let p2 = p1\<lparr>pl_config := (pl_config p1)\<lparr>cf_port := port\<rparr>\<rparr>
             in (True,
                 if cf_query_enabled (pl_config p2) \<and> cf_query_port (pl_config p2) = 0
                 then snd (restart_query en p2) else p2)
           else (False, snd (start_listener en previous p1)))"

datatype osc_apply_result = ApplyOk | UdpPortFailed | QueryPortFailed

definition set_query :: "int \<Rightarrow> bool \<Rightarrow> 'w plugin \<Rightarrow> 'w plugin" where
  "set_query port enabled p =
     p\<lparr>pl_config := (pl_config p)\<lparr>cf_query_enabled := enabled, cf_query_port := port\<rparr>\<rparr>"

definition finish_settings ::
  "('w, 'd) env \<Rightarrow> ('w, 'd) module_api \<Rightarrow> osc_config \<Rightarrow> 'w plugin \<Rightarrow> osc_apply_result \<times> 'w plugin" where
  "finish_settings en md next p =
     (let p1 = p\<lparr>pl_config := (pl_config p)
                  \<lparr>cf_feedback_enabled := cf_feedback_enabled next,
                   cf_feedback_host := cf_feedback_host next,
                   cf_feedback_port := cf_feedback_port next\<rparr>\<rparr>
      in (ApplyOk, osc_save_config en md (apply_feedback_target en p1)))"

definition osc_apply_settings ::
  "('w, 'd) env \<Rightarrow> ('w, 'd) module_api \<Rightarrow> osc_config \<Rightarrow> 'w plugin \<Rightarrow> osc_apply_result \<times> 'w plugin" where
  "osc_apply_settings en md next p =
     (case (if cf_port next \<noteq> cf_port (pl_config p) then osc_apply_port en (cf_port next) p else (True, p))
      of (ok, p1) \<Rightarrow>
        if \<not> ok then (UdpPortFailed, p1)
        else if cf_query_port next \<noteq> cf_query_port (pl_config p1) \<or>
                cf_query_enabled next \<noteq> cf_query_enabled (pl_config p1) then
          (let old_query_port = cf_query_port (pl_config p1);
               old_query_enabled = cf_query_enabled (pl_config p1)
           in case restart_query en (set_query (cf_query_port next) (cf_query_enabled next) p1) of (ok, p2) \<Rightarrow>
             if \<not> ok then
               (QueryPortFailed, snd (restart_query en (set_query old_query_port old_query_enabled p2)))
             else finish_settings en md next p2)
        else finish_settings en md next p1)"

subsection \<open>Load and unload\<close>

definition new_plugin :: "'w ws_state \<Rightarrow> 'w plugin" where
  "new_plugin s =
     \<lparr>pl_config = default_config, pl_server = new_server, pl_ws = s, pl_query = new_query,
      pl_last_sent = [], pl_filter_hooks = []\<rparr>"

definition obs_module_load :: "('w, 'd) env \<Rightarrow> ('w, 'd) module_api \<Rightarrow> 'w plugin \<Rightarrow> bool \<times> 'w plugin" where
  "obs_module_load en md p =
     (let p1 = osc_feedback_init en (load_config en md p);
          p2 = snd (start_listener en (cf_port (pl_config p1)) p1);
          p3 = apply_feedback_target en p2;
          menu_name = (case md_get_string md ''Settings'' (world p3) of None \<Rightarrow> ''OSC Settings...'' | Some t \<Rightarrow> t);
          p4 = on_world (md_add_menu_item md menu_name) p3
      in (True, snd (restart_query en p4)))"

definition obs_module_unload :: "('w, 'd) env \<Rightarrow> ('w, 'd) module_api \<Rightarrow> 'w plugin \<Rightarrow> 'w plugin" where
  "obs_module_unload en md p =
     osc_save_config en md (osc_feedback_shutdown en (stop_listener en (stop_query en p)))"

subsection \<open>From the network thread to the dispatcher\<close>

text \<open>The tasks queued for the UI thread, run in order: the messages of a datagram and its sender.\<close>

type_synonym ui_task = "osc_message list \<times> osc_endpoint"

definition osc_ui_post :: "ui_task \<Rightarrow> ui_task list \<Rightarrow> ui_task list" where
  "osc_ui_post task tasks = tasks @ [task]"

text \<open>\<open>None\<close>: the parser reads outside the datagram (which it never does).\<close>

definition handle_datagram :: "bytes \<Rightarrow> osc_endpoint \<Rightarrow> ui_task list \<Rightarrow> ui_task list option" where
  "handle_datagram data sender tasks =
     (case osc_parse_packet data [] of
        None \<Rightarrow> None
      | Some (ok, msgs) \<Rightarrow> Some (if \<not> ok then tasks else osc_ui_post (msgs, sender) tasks))"

definition run_ui_task :: "('w, 'd) env \<Rightarrow> ui_task \<Rightarrow> 'w plugin \<Rightarrow> 'w plugin" where
  "run_ui_task en task p = foldl (\<lambda>p msg. osc_dispatch_command en msg (snd task) p) p (fst task)"

text \<open>
  A function handed over with \<open>wait\<close> runs on the UI thread behind the tasks queued before it; the
  HTTP thread builds the document this way, so it sees what those tasks did.
\<close>

definition osc_ui_run ::
  "('w, 'd) env \<Rightarrow> ('w plugin \<Rightarrow> 'r) \<Rightarrow> 'w plugin \<times> ui_task list \<Rightarrow> 'r \<times> 'w plugin \<times> ui_task list" where
  "osc_ui_run en fn y =
     (let p = foldl (\<lambda>p task. run_ui_task en task p) (fst y) (snd y) in (fn p, p, []))"

definition schema_lookup_waiting ::
  "('w, 'd) env \<Rightarrow> string \<Rightarrow> 'w plugin \<times> ui_task list \<Rightarrow> string \<times> 'w plugin \<times> ui_task list" where
  "schema_lookup_waiting en path y = osc_ui_run en (\<lambda>p. osc_query_schema_lookup en path (world p)) y"

definition query_request :: "('w, 'd) env \<Rightarrow> string \<Rightarrow> 'w plugin \<Rightarrow> string" where
  "query_request en path p =
     handle_request (pl_query p) (osc_query_schema_lookup en) path (world p)"


subsection \<open>Configuration\<close>

definition ports_ok :: "osc_config \<Rightarrow> bool" where
  "ports_ok c \<longleftrightarrow> 0 < cf_port c \<and> cf_port c \<le> 65535 \<and> 0 \<le> cf_feedback_port c \<and> cf_feedback_port c \<le> 65535
     \<and> 0 \<le> cf_query_port c \<and> cf_query_port c \<le> 65535"

lemma clamp_config_ok: "ports_ok (clamp_config c)"
  by (simp add: ports_ok_def clamp_config_def Let_def)

lemma clamp_config_id: "ports_ok c \<Longrightarrow> clamp_config c = c"
  by (simp add: ports_ok_def clamp_config_def Let_def)

lemma ports_ok_default [simp]: "ports_ok default_config"
  by (simp add: ports_ok_def default_config_def)

lemma load_config_ports: "ports_ok (pl_config p) \<Longrightarrow> ports_ok (pl_config (load_config en md p))"
  by (auto simp: load_config_def Let_def clamp_config_ok split: option.splits)

lemma to_int_small: "- (2 ^ 31) \<le> v \<Longrightarrow> v < 2 ^ 31 \<Longrightarrow> to_int v = v"
  unfolding to_int_def by (rule sint_small)

text \<open>What the documentation of settings objects promises of scalars.\<close>

definition scalar_laws :: "'d data_api \<Rightarrow> bool" where
  "scalar_laws da \<longleftrightarrow>
     (\<forall>d k v. dt_int da (dt_set_int da d k v) k = v) \<and>
     (\<forall>d k v. dt_bool da (dt_set_bool da d k v) k = v) \<and>
     (\<forall>d k v. dt_string da (dt_set_string da d k v) k = v) \<and>
     (\<forall>d k k' v. k \<noteq> k' \<longrightarrow> dt_int da (dt_set_int da d k v) k' = dt_int da d k') \<and>
     (\<forall>d k k' v. k \<noteq> k' \<longrightarrow> dt_int da (dt_set_bool da d k v) k' = dt_int da d k') \<and>
     (\<forall>d k k' v. k \<noteq> k' \<longrightarrow> dt_int da (dt_set_string da d k v) k' = dt_int da d k') \<and>
     (\<forall>d k k' v. k \<noteq> k' \<longrightarrow> dt_bool da (dt_set_int da d k v) k' = dt_bool da d k') \<and>
     (\<forall>d k k' v. k \<noteq> k' \<longrightarrow> dt_bool da (dt_set_bool da d k v) k' = dt_bool da d k') \<and>
     (\<forall>d k k' v. k \<noteq> k' \<longrightarrow> dt_bool da (dt_set_string da d k v) k' = dt_bool da d k') \<and>
     (\<forall>d k k' v. k \<noteq> k' \<longrightarrow> dt_string da (dt_set_int da d k v) k' = dt_string da d k') \<and>
     (\<forall>d k k' v. k \<noteq> k' \<longrightarrow> dt_string da (dt_set_bool da d k v) k' = dt_string da d k') \<and>
     (\<forall>d k k' v. k \<noteq> k' \<longrightarrow> dt_string da (dt_set_string da d k v) k' = dt_string da d k')"

lemma scalar_lawsD:
  assumes "scalar_laws da"
  shows "dt_int da (dt_set_int da d k i) k' = (if k = k' then i else dt_int da d k')"
    "dt_int da (dt_set_bool da d k b) k' = (if k = k' then dt_int da (dt_set_bool da d k b) k else dt_int da d k')"
    "dt_int da (dt_set_string da d k s) k' = (if k = k' then dt_int da (dt_set_string da d k s) k else dt_int da d k')"
    "dt_bool da (dt_set_bool da d k b) k' = (if k = k' then b else dt_bool da d k')"
    "dt_bool da (dt_set_int da d k i) k' = (if k = k' then dt_bool da (dt_set_int da d k i) k else dt_bool da d k')"
    "dt_bool da (dt_set_string da d k s) k' = (if k = k' then dt_bool da (dt_set_string da d k s) k else dt_bool da d k')"
    "dt_string da (dt_set_string da d k s) k' = (if k = k' then s else dt_string da d k')"
    "dt_string da (dt_set_int da d k i) k' = (if k = k' then dt_string da (dt_set_int da d k i) k else dt_string da d k')"
    "dt_string da (dt_set_bool da d k b) k' = (if k = k' then dt_string da (dt_set_bool da d k b) k else dt_string da d k')"
  using assms unfolding scalar_laws_def by simp_all

lemma read_write_config:
  assumes "scalar_laws da" "ports_ok c" "c_string (cf_feedback_host c)"
  shows "read_config da (write_config da c) = c"
proof -
  have keys: "dt_int da (write_config da c) ''port'' = cf_port c"
    "dt_int da (write_config da c) ''feedback_port'' = cf_feedback_port c"
    "dt_int da (write_config da c) ''query_port'' = cf_query_port c"
    "dt_bool da (write_config da c) ''feedback_enabled'' = cf_feedback_enabled c"
    "dt_bool da (write_config da c) ''query_enabled'' = cf_query_enabled c"
    "dt_string da (write_config da c) ''feedback_host'' = cf_feedback_host c"
    using assms(3) by (simp_all add: write_config_def scalar_lawsD [OF assms(1)])
  then show ?thesis using assms(2) by (simp add: read_config_def to_int_small ports_ok_def)
qed

text \<open>What libobs promises of a saved file, and that the path of the file is fixed.\<close>

definition file_laws :: "('w, 'd) module_api \<Rightarrow> string \<Rightarrow> bool" where
  "file_laws md path \<longleftrightarrow>
     (\<forall>w. md_config_path md config_file w = Some path) \<and>
     (\<forall>d w. md_load_json md path ''bak'' (md_save_json md d path ''tmp'' ''bak'' w) = Some d)"

lemma save_then_load:
  assumes "scalar_laws (en_data en)" "file_laws md path"
    and "ports_ok (pl_config p)" "c_string (cf_feedback_host (pl_config p))"
  shows "pl_config (load_config en md (set_world (world (osc_save_config en md p)) q)) = pl_config p"
proof -
  have path: "md_config_path md config_file w = Some path" for w
    using assms(2) unfolding file_laws_def by blast
  have load: "md_load_json md path ''bak'' (md_save_json md d path ''tmp'' ''bak'' w) = Some d" for d w
    using assms(2) unfolding file_laws_def by blast
  have "world (osc_save_config en md p) = md_save_json md (write_config (en_data en) (pl_config p)) path ''tmp'' ''bak''
      (world (case parent_directory path of None \<Rightarrow> p | Some d \<Rightarrow> on_world (md_mkdirs md (c_str d)) p))"
    by (simp add: osc_save_config_def path Let_def split: option.splits)
  then show ?thesis
    by (simp add: load_config_def path load Let_def read_write_config [OF assms(1,3,4)] clamp_config_id [OF assms(3)])
qed

subsection \<open>Settings are applied or rolled back\<close>

lemma config_kept [simp]:
  "pl_config (snd (start_listener en port p)) = pl_config p" "pl_config (stop_listener en p) = pl_config p"
  "pl_config (snd (restart_query en p)) = pl_config p" "pl_config (stop_query en p) = pl_config p"
  "pl_config (apply_feedback_target en p) = pl_config p" "pl_config (osc_save_config en md p) = pl_config p"
  by (simp_all add: start_listener_def stop_listener_def server_op_def restart_query_def stop_query_def
      apply_feedback_target_def osc_save_config_def Let_def split: prod.splits option.splits)

lemma query_kept [simp]:
  "pl_query (snd (start_listener en port p)) = pl_query p" "pl_query (stop_listener en p) = pl_query p"
  "pl_query (apply_feedback_target en p) = pl_query p" "pl_query (osc_save_config en md p) = pl_query p"
  "pl_query (set_query port enabled p) = pl_query p"
  by (simp_all add: start_listener_def stop_listener_def server_op_def set_query_def
      apply_feedback_target_def osc_save_config_def Let_def split: prod.splits option.splits)

lemma apply_port_config:
  "osc_apply_port en port p = (ok, p') \<Longrightarrow>
   pl_config p' = (if ok then (pl_config p)\<lparr>cf_port := port\<rparr> else pl_config p)"
  by (cases "start_listener en port (stop_listener en p)")
    (use config_kept(1) [of en port "stop_listener en p"] in
      \<open>auto simp: osc_apply_port_def Let_def split: if_splits\<close>)

lemma finish_settings_config:
  "finish_settings en md next p = (r, p') \<Longrightarrow> r = ApplyOk \<and> pl_config p' = (pl_config p)
     \<lparr>cf_feedback_enabled := cf_feedback_enabled next, cf_feedback_host := cf_feedback_host next,
      cf_feedback_port := cf_feedback_port next\<rparr>"
  by (auto simp: finish_settings_def Let_def)

lemma apply_settings_config:
  assumes "osc_apply_settings en md next p = (r, p')"
  shows "pl_config p' = (case r of
     ApplyOk \<Rightarrow> next | UdpPortFailed \<Rightarrow> pl_config p
   | QueryPortFailed \<Rightarrow> (pl_config p)\<lparr>cf_port := cf_port next\<rparr>)"
proof -
  obtain ok p1 where p1: "(if cf_port next \<noteq> cf_port (pl_config p) then osc_apply_port en (cf_port next) p
      else (True, p)) = (ok, p1)" by fastforce
  then have c1: "pl_config p1 = (if ok then (pl_config p)\<lparr>cf_port := cf_port next\<rparr> else pl_config p)"
    by (auto simp: apply_port_config split: if_splits)
  obtain ok2 p2 where p2: "restart_query en (set_query (cf_query_port next) (cf_query_enabled next) p1) = (ok2, p2)"
    by fastforce
  then have c2: "pl_config p2 =
      (pl_config p1)\<lparr>cf_query_enabled := cf_query_enabled next, cf_query_port := cf_query_port next\<rparr>"
    using config_kept(3) [of en "set_query (cf_query_port next) (cf_query_enabled next) p1"]
    by (simp add: set_query_def)
  show ?thesis
  proof (cases ok)
    case False
    with assms p1 c1 show ?thesis by (auto simp: osc_apply_settings_def)
  next
    case True
    with p1 have a: "osc_apply_settings en md next p =
      (if cf_query_port next \<noteq> cf_query_port (pl_config p1) \<or> cf_query_enabled next \<noteq> cf_query_enabled (pl_config p1)
       then (if \<not> ok2 then (QueryPortFailed,
               snd (restart_query en (set_query (cf_query_port (pl_config p1)) (cf_query_enabled (pl_config p1)) p2)))
             else finish_settings en md next p2)
       else finish_settings en md next p1)"
      by (simp add: osc_apply_settings_def Let_def p2)
    show ?thesis
      using assms a c1 c2 True
      by (auto simp: set_query_def split: if_splits dest!: finish_settings_config)
  qed
qed

subsection \<open>What HOST_INFO reports\<close>

text \<open>
  HOST_INFO tells a client where to send OSC.  With the derived HTTP port the service restarts
  along with the listener; with an explicit HTTP port it goes on reporting the old port.
\<close>

lemma query_after_port_change:
  assumes "osc_apply_settings en md next p = (ApplyOk, p')"
    and "cf_query_port next = cf_query_port (pl_config p)" "cf_query_enabled next = cf_query_enabled (pl_config p)"
    and "cf_query_port next \<noteq> 0"
  shows "pl_query p' = pl_query p"
proof -
  obtain ok p1 where p1: "(if cf_port next \<noteq> cf_port (pl_config p) then osc_apply_port en (cf_port next) p
      else (True, p)) = (ok, p1)" by fastforce
  have c1: "pl_config p1 = (if ok then (pl_config p)\<lparr>cf_port := cf_port next\<rparr> else pl_config p)"
    using p1 by (auto simp: apply_port_config split: if_splits)
  have q1: "pl_query p1 = pl_query p"
    using p1 assms(2,4) query_kept(1) [of en "cf_port next" "stop_listener en p"]
      config_kept(1) [of en "cf_port next" "stop_listener en p"]
      query_kept(1) [of en "cf_port (pl_config p)" "snd (start_listener en (cf_port next) (stop_listener en p))"]
    by (cases "start_listener en (cf_port next) (stop_listener en p)")
      (auto simp: osc_apply_port_def Let_def split: if_splits)
  from assms p1 have "ok" by (auto simp: osc_apply_settings_def split: if_splits)
  then have "finish_settings en md next p1 = (ApplyOk, p')"
    using assms p1 c1 by (simp add: osc_apply_settings_def split: if_splits)
  with q1 show ?thesis by (auto simp: finish_settings_def Let_def)
qed

lemma stale_host_info:
  assumes "osc_apply_settings en md next p = (ApplyOk, p')"
    and "cf_query_port next = cf_query_port (pl_config p)" "cf_query_enabled next = cf_query_enabled (pl_config p)"
    and "cf_query_port next \<noteq> 0"
  shows "query_request en ''/HOST_INFO'' p' = query_request en ''/HOST_INFO'' p" "cf_port (pl_config p') = cf_port next"
  using query_after_port_change [OF assms] apply_settings_config [OF assms(1)]
  by (simp_all add: query_request_def handle_request_def)

lemma restart_query_port:
  assumes "query_inv (pl_query p)" "restart_query en p = (True, p')" "cf_query_enabled (pl_config p)"
  shows "query_request en ''/HOST_INFO'' p' =
    ''{\"NAME\":\"OBS Studio\",\"PORT\":'' @ std_to_string (cf_port (pl_config p)) @
    '',\"EXTENSIONS\":[\"SERVER\",\"LISTEN\"]}''"
proof -
  obtain ok q s where r: "osc_query_restart (en_os en) (pl_config p) (pl_query p) (pl_ws p) = (ok, q, s)"
    using prod_cases3 by blast
  from query_restart(3) [OF assms(1) r assms(3)] r assms(2) show ?thesis
    by (auto simp: restart_query_def query_request_def handle_request_def host_info_json_def)
qed

subsection \<open>Datagrams\<close>

lemma handle_datagram_total: "handle_datagram data sender tasks \<noteq> None"
  using osc_parse_packet_total(1) [of data "[]"] by (auto simp: handle_datagram_def)

lemma handle_datagram_batch:
  assumes "ms \<noteq> []" "\<forall>m \<in> set ms. wire_element m" "length (batch_datagram (map enc_message ms)) < 2 ^ 64"
  shows "handle_datagram (batch_datagram (map enc_message ms)) sender tasks = Some (tasks @ [(ms, sender)])"
  by (simp add: handle_datagram_def batch_datagram_parses [OF assms] osc_ui_post_def)

lemma handle_datagram_tasks:
  assumes "handle_datagram data sender tasks = Some tasks'"
  shows "tasks' = tasks \<or> (\<exists>ms. tasks' = tasks @ [(ms, sender)] \<and> (\<forall>m \<in> set ms. parsed_message m))"
proof -
  obtain ok msgs where r: "osc_parse_packet data [] = Some (ok, msgs)"
    using assms by (auto simp: handle_datagram_def split: option.splits)
  from osc_parse_packet_parsed(1) [OF r] assms r show ?thesis
    by (auto simp: handle_datagram_def osc_ui_post_def split: if_splits)
qed

subsection \<open>Unload\<close>

lemma server_kept [simp]:
  "pl_server (stop_query en p) = pl_server p" "pl_server (osc_save_config en md p) = pl_server p"
  "pl_server (snd (restart_query en p)) = pl_server p"
  by (simp_all add: stop_query_def restart_query_def osc_save_config_def Let_def split: prod.splits option.splits)

end
