(* ===== verification/OscSettings.thy ===== *)
theory OscSettings
  imports OscPlugin
begin

text \<open>
  The settings dialog (\<^verbatim>\<open>osc-settings.h\<close>, \<^verbatim>\<open>osc-settings.cpp\<close>) and its entry in the tools menu
  (\<^verbatim>\<open>plugin.cpp\<close>): the widgets with their ranges, texts and values, the layout, the OK handler
  with its warnings, and the modal loop over what the user does.  Qt is the record \<open>qt_api\<close>: a
  text taken through \<^verbatim>\<open>QString\<close> and back, \<^verbatim>\<open>QString::arg\<close> and \<^verbatim>\<open>QString::number\<close>.
\<close>

subsection \<open>Widgets\<close>

record qt_api =
  qt_text :: "string \<Rightarrow> string"
  qt_arg :: "string \<Rightarrow> string list \<Rightarrow> string"
  qt_number :: "int \<Rightarrow> string"

datatype widget = PortBox | FeedbackCheck | HostEdit | FeedbackPortBox | QueryCheck | QueryPortBox

record dialog =
  dg_port :: int
  dg_feedback_enabled :: bool
  dg_feedback_host :: string
  dg_feedback_port :: int
  dg_query_enabled :: bool
  dg_query_port :: int

text \<open>The texts: title, labels of the two check boxes, the hint of the line edit, the special values of
  the two port boxes, and the rows of the form.\<close>

record dialog_texts =
  tx_title :: string
  tx_feedback :: string
  tx_host_hint :: string
  tx_feedback_port_auto :: string
  tx_query :: string
  tx_query_port_auto :: string
  tx_form :: "(string \<times> widget) list"

definition loc :: "('w, 'd) module_api \<Rightarrow> qt_api \<Rightarrow> string \<Rightarrow> 'w \<Rightarrow> string" where
  "loc md qt lookup w = qt_text qt (case md_get_string md lookup w of None \<Rightarrow> lookup | Some text \<Rightarrow> text)"

text \<open>A spin box keeps its value within its range.\<close>

definition spin_value :: "int \<Rightarrow> int \<Rightarrow> int \<Rightarrow> int" where
  "spin_value lo hi v = max lo (min hi v)"

definition open_dialog :: "qt_api \<Rightarrow> osc_config \<Rightarrow> dialog" where
  "open_dialog qt c =
     \<lparr>dg_port = spin_value 1 65535 (cf_port c), dg_feedback_enabled = cf_feedback_enabled c,
      dg_feedback_host = qt_text qt (cf_feedback_host c),
      dg_feedback_port = spin_value 0 65535 (cf_feedback_port c),
      dg_query_enabled = cf_query_enabled c, dg_query_port = spin_value 0 65535 (cf_query_port c)\<rparr>"

definition dialog_layout :: "('w, 'd) module_api \<Rightarrow> qt_api \<Rightarrow> 'w \<Rightarrow> dialog_texts" where
  "dialog_layout md qt w =
     \<lparr>tx_title = loc md qt ''DialogTitle'' w, tx_feedback = loc md qt ''Feedback'' w,
      tx_host_hint = loc md qt ''FeedbackHostHint'' w,
      tx_feedback_port_auto = loc md qt ''FeedbackPortAuto'' w, tx_query = loc md qt ''Query'' w,
      tx_query_port_auto = loc md qt ''QueryPortAuto'' w,
      tx_form =
        [(loc md qt ''Port'' w, PortBox), ([], FeedbackCheck), (loc md qt ''FeedbackHost'' w, HostEdit),
         (loc md qt ''FeedbackPort'' w, FeedbackPortBox), ([], QueryCheck),
         (loc md qt ''QueryPort'' w, QueryPortBox)]\<rparr>"

subsection \<open>The OK handler\<close>

definition dialog_config :: "dialog \<Rightarrow> osc_config" where
  "dialog_config d =
     \<lparr>cf_port = dg_port d, cf_feedback_enabled = dg_feedback_enabled d,
      cf_feedback_host = dg_feedback_host d, cf_feedback_port = dg_feedback_port d,
      cf_query_enabled = dg_query_enabled d, cf_query_port = dg_query_port d\<rparr>"

text \<open>The dialog closes, or a message box shows a title and a text and the dialog stays.\<close>

datatype dialog_outcome = DialogAccepted | WarningBox string string

definition dialog_accept ::
  "('w, 'd) env \<Rightarrow> ('w, 'd) module_api \<Rightarrow> qt_api \<Rightarrow> dialog \<Rightarrow> 'w plugin \<Rightarrow> dialog_outcome \<times> 'w plugin" where
  "dialog_accept en md qt d p =
     (let next = dialog_config d
      in case osc_apply_settings en md next p of (r, p1) \<Rightarrow>
        (case r of
           ApplyOk \<Rightarrow> DialogAccepted
         | UdpPortFailed \<Rightarrow>
             WarningBox (loc md qt ''DialogTitle'' (world p1))
               (qt_arg qt (loc md qt ''BindError'' (world p1))
                 [qt_number qt (cf_port next), qt_number qt (cf_port (pl_config p1))])
         | QueryPortFailed \<Rightarrow>
             WarningBox (loc md qt ''DialogTitle'' (world p1))
               (qt_arg qt (loc md qt ''QueryBindError'' (world p1)) [qt_number qt (cf_query_port next)]),
         p1))"

subsection \<open>The modal loop\<close>

datatype user_action =
  EnterPort int | CheckFeedback bool | EnterHost string | EnterFeedbackPort int |
  CheckQuery bool | EnterQueryPort int | PressOk | PressCancel

fun dialog_edit :: "user_action \<Rightarrow> dialog \<Rightarrow> dialog" where
  "dialog_edit (EnterPort v) d = d\<lparr>dg_port := spin_value 1 65535 v\<rparr>"
| "dialog_edit (CheckFeedback b) d = d\<lparr>dg_feedback_enabled := b\<rparr>"
| "dialog_edit (EnterHost h) d = d\<lparr>dg_feedback_host := h\<rparr>"
| "dialog_edit (EnterFeedbackPort v) d = d\<lparr>dg_feedback_port := spin_value 0 65535 v\<rparr>"
| "dialog_edit (CheckQuery b) d = d\<lparr>dg_query_enabled := b\<rparr>"
| "dialog_edit (EnterQueryPort v) d = d\<lparr>dg_query_port := spin_value 0 65535 v\<rparr>"
| "dialog_edit _ d = d"

text \<open>
  \<^verbatim>\<open>dialog.exec()\<close> over a list of actions: whether it was accepted (\<open>None\<close>: it is still open), its
  last values, the warnings shown, and the plugin.
\<close>

fun dialog_exec ::
  "('w, 'd) env \<Rightarrow> ('w, 'd) module_api \<Rightarrow> qt_api \<Rightarrow> user_action list \<Rightarrow> dialog \<Rightarrow> 'w plugin \<Rightarrow>
   bool option \<times> dialog \<times> (string \<times> string) list \<times> 'w plugin" where
  "dialog_exec en md qt [] d p = (None, d, [], p)"
| "dialog_exec en md qt (a # as) d p =
     (case a of
        PressCancel \<Rightarrow> (Some False, d, [], p)
      | PressOk \<Rightarrow>
          (case dialog_accept en md qt d p of
             (DialogAccepted, p1) \<Rightarrow> (Some True, d, [], p1)
           | (WarningBox title text, p1) \<Rightarrow>
               (case dialog_exec en md qt as d p1 of (r, d', boxes, p2) \<Rightarrow> (r, d', (title, text) # boxes, p2)))
      | _ \<Rightarrow> dialog_exec en md qt as (dialog_edit a d) p)"

definition osc_show_settings_dialog ::
  "('w, 'd) env \<Rightarrow> ('w, 'd) module_api \<Rightarrow> qt_api \<Rightarrow> user_action list \<Rightarrow> 'w plugin \<Rightarrow>
   bool option \<times> dialog \<times> (string \<times> string) list \<times> 'w plugin" where
  "osc_show_settings_dialog en md qt actions p = dialog_exec en md qt actions (open_dialog qt (pl_config p)) p"

definition settings_menu_cb ::
  "('w, 'd) env \<Rightarrow> ('w, 'd) module_api \<Rightarrow> qt_api \<Rightarrow> user_action list \<Rightarrow> 'w plugin \<Rightarrow> 'w plugin" where
  "settings_menu_cb en md qt actions p = snd (snd (snd (osc_show_settings_dialog en md qt actions p)))"

subsection \<open>Values stay in range\<close>

definition dialog_in_range :: "dialog \<Rightarrow> bool" where
  "dialog_in_range d \<longleftrightarrow> ports_ok (dialog_config d)"

lemma open_dialog_in_range: "dialog_in_range (open_dialog qt c)"
  by (simp add: dialog_in_range_def ports_ok_def dialog_config_def open_dialog_def spin_value_def)

lemma dialog_edit_in_range: "dialog_in_range d \<Longrightarrow> dialog_in_range (dialog_edit a d)"
  by (cases a) (simp_all add: dialog_in_range_def ports_ok_def dialog_config_def spin_value_def)

text \<open>Opening the dialog and confirming it unchanged restarts nothing.\<close>

lemma open_dialog_accept:
  assumes "ports_ok (pl_config p)" "qt_text qt (cf_feedback_host (pl_config p)) = cf_feedback_host (pl_config p)"
  shows "dialog_accept en md qt (open_dialog qt (pl_config p)) p =
    (DialogAccepted, osc_save_config en md (apply_feedback_target en p))"
proof -
  have n: "dialog_config (open_dialog qt (pl_config p)) = pl_config p"
    using assms by (simp add: ports_ok_def spin_value_def dialog_config_def open_dialog_def)
  have f: "finish_settings en md (pl_config p) p = (ApplyOk, osc_save_config en md (apply_feedback_target en p))"
    by (simp add: finish_settings_def Let_def)
  show ?thesis
    by (simp add: dialog_accept_def n osc_apply_settings_def f)
qed

subsection \<open>What a dialog leaves behind\<close>

lemma dialog_accept_apply: "snd (dialog_accept en md qt d p) = snd (osc_apply_settings en md (dialog_config d) p)"
  by (simp add: dialog_accept_def Let_def split: prod.splits)

lemma dialog_accept_config:
  assumes "dialog_in_range d" "ports_ok (pl_config p)" "dialog_accept en md qt d p = (r, p')"
  shows "ports_ok (pl_config p') \<and> (r = DialogAccepted \<longrightarrow> pl_config p' = dialog_config d)"
proof -
  obtain res p1 where a: "osc_apply_settings en md (dialog_config d) p = (res, p1)" by fastforce
  with apply_settings_config [OF a] assms show ?thesis
    by (cases res) (auto simp: dialog_accept_def dialog_in_range_def ports_ok_def)
qed

lemma dialog_exec_config:
  "dialog_in_range d \<Longrightarrow> ports_ok (pl_config p) \<Longrightarrow> dialog_exec en md qt acts d p = (r, d', boxes, p') \<Longrightarrow>
   ports_ok (pl_config p') \<and> dialog_in_range d' \<and> (r = Some True \<longrightarrow> pl_config p' = dialog_config d') \<and>
   (r \<noteq> Some True \<and> boxes = [] \<longrightarrow> p' = p)"
proof (induction acts arbitrary: d p r d' boxes p')
  case (Cons a acts)
  show ?case
  proof (cases "a = PressOk")
    case True
    obtain o' p1 where acc: "dialog_accept en md qt d p = (o', p1)" by fastforce
    note c = dialog_accept_config [OF Cons.prems(1,2) acc]
    show ?thesis
    proof (cases o')
      case DialogAccepted
      with True acc c Cons.prems show ?thesis by auto
    next
      case (WarningBox ti tx)
      obtain r2 d2 b2 p2 where e: "dialog_exec en md qt acts d p1 = (r2, d2, b2, p2)" by (metis prod_cases4)
      from Cons.IH [OF Cons.prems(1) _ e] c have
        "ports_ok (pl_config p2) \<and> dialog_in_range d2 \<and> (r2 = Some True \<longrightarrow> pl_config p2 = dialog_config d2)" by blast
      with True acc WarningBox e Cons.prems(3) show ?thesis by auto
    qed
  next
    case False
    show ?thesis
    proof (cases "a = PressCancel")
      case True
      with Cons.prems show ?thesis by auto
    next
      case c: False
      have "dialog_exec en md qt (a # acts) d p = dialog_exec en md qt acts (dialog_edit a d) p"
        using False c by (cases a) simp_all
      then show ?thesis
        using Cons.IH [OF dialog_edit_in_range [OF Cons.prems(1), of a] Cons.prems(2)] Cons.prems(3) by simp
    qed
  qed
qed auto

end
