(* ===== verification/OscSystem.thy ===== *)
theory OscSystem
  imports OscSettings
begin

text \<open>
  The whole plugin as a state machine on the UI thread: load and unload, the settings dialog,
  datagrams from the network thread, queued tasks, signals and frontend events, with the world
  moving in between.  The invariant collects those of the transport, the registry, the OSCQuery
  service and the configuration; every event preserves it.
\<close>

subsection \<open>Events\<close>

datatype plugin_event =
  EvLoad | EvUnload | EvSettings dialog |
  EvReceive "(bytes \<times> sockaddr \<times> nat) option" | EvSend | EvTask |
  EvMute nat "bool option" | EvVolume int nat "f32 option" | EvMedia nat |
  EvActivate nat | EvDeactivate nat | EvShow nat | EvHide nat |
  EvItemVisible nat "nat option option" "bool option" | EvItemLocked nat "nat option option" "bool option" |
  EvReorder int nat | EvTransform int nat "nat option option" |
  EvFilterEnable nat "nat option" "bool option" | EvFilterAdd nat "nat option option" |
  EvFilterRemove nat "nat option" | EvCreate "nat option" | EvDestroy "nat option" |
  EvFrontend frontend_event

text \<open>
  The events that only run a callback of the plugin.  \<open>EvSettings\<close> is the OK button of the dialog,
  which other events may precede while it is open (\<open>dialog_accept_apply\<close>); its values are in the
  ranges of the spin boxes, whatever the user entered (\<open>dialog_edit_in_range\<close>).
\<close>

fun run_callback :: "('w, 'd) env \<Rightarrow> plugin_event \<Rightarrow> 'w plugin \<Rightarrow> 'w plugin" where
  "run_callback en (EvMute x m) p = mute_signal_cb en x m p"
| "run_callback en (EvVolume now x v) p = volume_signal_cb en now x v p"
| "run_callback en (EvMedia x) p = media_signal_cb en x p"
| "run_callback en (EvActivate x) p = activate_signal_cb en x p"
| "run_callback en (EvDeactivate x) p = deactivate_signal_cb en x p"
| "run_callback en (EvShow x) p = show_signal_cb en x p"
| "run_callback en (EvHide x) p = hide_signal_cb en x p"
| "run_callback en (EvItemVisible x i b) p = item_visible_signal_cb en x i b p"
| "run_callback en (EvItemLocked x i b) p = item_locked_signal_cb en x i b p"
| "run_callback en (EvReorder now x) p = scene_reorder_signal_cb en now x p"
| "run_callback en (EvTransform now x i) p = item_transform_signal_cb en now x i p"
| "run_callback en (EvFilterEnable x f b) p = filter_enable_signal_cb en x f b p"
| "run_callback en (EvFilterAdd x f) p = filter_add_signal_cb en x f p"
| "run_callback en (EvFilterRemove x f) p = filter_remove_signal_cb en x f p"
| "run_callback en (EvCreate x) p = source_create_cb en x p"
| "run_callback en (EvDestroy x) p = source_destroy_cb en x p"
| "run_callback en (EvFrontend e) p = frontend_event_cb en e p"
| "run_callback en _ p = p"

type_synonym 'w plugin_sys = "'w plugin \<times> ui_task list"

definition receive_event ::
  "(bytes \<times> sockaddr \<times> nat) option \<Rightarrow> 'w plugin_sys \<Rightarrow> 'w plugin_sys" where
  "receive_event dgram y =
     (case recv_pass dgram (pl_server (fst y)) of (_, call, sv) \<Rightarrow>
        ((fst y)\<lparr>pl_server := sv\<rparr>,
         case call of
           None \<Rightarrow> snd y
         | Some (data, sender) \<Rightarrow> the (handle_datagram data sender (snd y))))"

definition send_event :: "('w, 'd) env \<Rightarrow> 'w plugin \<Rightarrow> 'w plugin" where
  "send_event en p =
     (case send_pass (en_os en) (pl_server p) (world p) of
        Some (SendOne sv w) \<Rightarrow> (set_world w p)\<lparr>pl_server := sv\<rparr>
      | _ \<Rightarrow> p)"

fun run_event ::
  "('w, 'd) env \<Rightarrow> ('w, 'd) module_api \<Rightarrow> plugin_event \<Rightarrow> 'w plugin_sys \<Rightarrow> 'w plugin_sys" where
  "run_event en md EvLoad (p, ts) = (snd (obs_module_load en md p), ts)"
| "run_event en md EvUnload (p, ts) = (obs_module_unload en md p, ts)"
| "run_event en md (EvSettings d) (p, ts) = (snd (osc_apply_settings en md (dialog_config d) p), ts)"
| "run_event en md (EvReceive dgram) (p, ts) = receive_event dgram (p, ts)"
| "run_event en md EvSend (p, ts) = (send_event en p, ts)"
| "run_event en md EvTask (p, ts) =
     (case ts of [] \<Rightarrow> (p, []) | t # rest \<Rightarrow> (run_ui_task en t p, rest))"
| "run_event en md e (p, ts) = (run_callback en e p, ts)"

inductive plugin_step ::
  "('w, 'd) env \<Rightarrow> ('w, 'd) module_api \<Rightarrow> 'w plugin_sys \<Rightarrow> 'w plugin_sys \<Rightarrow> bool"
  for en :: "('w, 'd) env" and md :: "('w, 'd) module_api" where
  step_event: "(\<forall>d. e = EvSettings d \<longrightarrow> dialog_in_range d) \<Longrightarrow> plugin_step en md y (run_event en md e y)"
| step_world: "plugin_step en md (p, ts) (set_world w p, ts)"

inductive plugin_reachable ::
  "('w, 'd) env \<Rightarrow> ('w, 'd) module_api \<Rightarrow> 'w plugin_sys \<Rightarrow> bool"
  for en :: "('w, 'd) env" and md :: "('w, 'd) module_api" where
  sys_init: "ws_reg s = new_registry \<Longrightarrow> plugin_reachable en md (new_plugin s, [])"
| sys_step: "plugin_reachable en md y \<Longrightarrow> plugin_step en md y y' \<Longrightarrow> plugin_reachable en md y'"

subsection \<open>The invariant\<close>

definition plugin_inv :: "'w plugin \<Rightarrow> bool" where
  "plugin_inv p \<longleftrightarrow> server_inv (pl_server p) \<and> registry_inv (registry_of p) \<and> query_inv (pl_query p) \<and>
     ports_ok (pl_config p)"

definition tasks_inv :: "ui_task list \<Rightarrow> bool" where
  "tasks_inv ts \<longleftrightarrow> (\<forall>t \<in> set ts. \<forall>m \<in> set (fst t). parsed_message m)"

lemma plugin_inv_new: "ws_reg s = new_registry \<Longrightarrow> plugin_inv (new_plugin s)"
  by (simp add: plugin_inv_def new_plugin_def)

lemma plugin_inv_frame [simp]:
  "plugin_inv (set_world w p) = plugin_inv p" "plugin_inv (on_world f p) = plugin_inv p"
  "plugin_inv (p\<lparr>pl_last_sent := m\<rparr>) = plugin_inv p" "plugin_inv (p\<lparr>pl_filter_hooks := h\<rparr>) = plugin_inv p"
  by (simp_all add: plugin_inv_def)

lemma registry_shutdown:
  "registry_inv (ws_reg s) \<Longrightarrow> registry_inv (ws_reg (shutdown_all os s))"
proof -
  assume r: "registry_inv (ws_reg s)"
  have c: "registry_inv (ws_reg (shutdown_conn os c s))" if "registry_inv (ws_reg s)" for c s
    using that by (simp add: shutdown_conn_def close_conn_simps registry_inv_listen_remove_peer)
  have "registry_inv (ws_reg (foldl (\<lambda>s c. shutdown_conn os c s) s cs))" if "registry_inv (ws_reg s)" for cs s
    using that by (induction cs arbitrary: s) (simp_all add: c)
  then show ?thesis using r by (simp add: shutdown_all_def)
qed

lemma registry_send_binary [simp]: "ws_reg (send_binary os c d s) = ws_reg s"
  by (cases "send_frame os c op_binary d s") (auto simp: send_binary_def dest: send_frame_reg)

lemma server_inv_sends:
  "server_inv s \<Longrightarrow> server_inv (send_to d ep s)" "server_inv s \<Longrightarrow> server_inv (send_fixed d s)"
  "server_inv s \<Longrightarrow> server_inv (send_last d s)"
  by (simp_all add: send_to_def send_fixed_def send_last_def server_inv_enqueue)

lemma plugin_inv_feedback: "plugin_inv p \<Longrightarrow> plugin_inv (osc_feedback_send en addr as p)"
proof -
  assume i: "plugin_inv p"
  have t: "server_inv (foldl (\<lambda>s ep. send_to d ep s) s eps)" if "server_inv s" for d s eps
    using that by (induction eps arbitrary: s) (simp_all add: server_inv_sends)
  have b: "ws_reg (foldl (\<lambda>s c. send_binary os c d s) s cs) = ws_reg s" for os d s cs
    by (induction cs arbitrary: s) simp_all
  have "plugin_inv (snd (osc_publish en addr d p))" for d
    using i by (simp add: osc_publish_def Let_def plugin_inv_def t b)
  then show ?thesis
    using i by (auto simp: osc_feedback_send_def Let_def plugin_inv_def server_inv_sends)
qed

subsection \<open>Callbacks\<close>

lemma throttle_frame: "throttle now key ms p = (t, p1) \<Longrightarrow> plugin_inv p \<Longrightarrow> plugin_inv p1"
  by (auto simp: throttle_def split: prod.splits)

lemma plugin_inv_drop: "plugin_inv p \<Longrightarrow> plugin_inv (drop_hook_at en i p)"
  by (simp add: drop_hook_at_def Let_def)

lemma plugin_inv_hook: "plugin_inv p \<Longrightarrow> plugin_inv (hook_filter en parent f p)"
  by (simp add: hook_filter_def split: option.splits prod.splits)

lemma plugin_inv_unhook_from: "plugin_inv p \<Longrightarrow> plugin_inv (unhook_filter_from en parent f i p)"
proof (induction en parent f i p rule: unhook_filter_from.induct)
  case (1 en parent f i p)
  then show ?case by (simp add: unhook_filter_from.simps [of en parent f i p] plugin_inv_drop)
qed

lemma plugin_inv_unhook_parent: "plugin_inv p \<Longrightarrow> plugin_inv (unhook_parent_from en parent i p)"
  by (induction i arbitrary: p) (simp_all add: plugin_inv_drop)

lemma plugin_inv_change_hooks: "plugin_inv p \<Longrightarrow> plugin_inv (change_hook_connections en x connect p)"
proof -
  assume i: "plugin_inv p"
  have h: "plugin_inv (hook_existing_filters en x q)" if "plugin_inv q" for q
  proof -
    have "plugin_inv (foldl (\<lambda>p f. hook_filter en x (Some f) p) q fs)" for fs
      using that by (induction fs arbitrary: q) (simp_all add: plugin_inv_hook)
    then show ?thesis by (simp add: hook_existing_filters_def)
  qed
  show ?thesis
    using i by (simp add: change_hook_connections_def Let_def h unhook_filters_of_parent_def plugin_inv_unhook_parent)
qed

lemma plugin_inv_enum:
  "(\<And>x p. plugin_inv p \<Longrightarrow> plugin_inv (snd (f x p))) \<Longrightarrow> plugin_inv p \<Longrightarrow> plugin_inv (enum_until f xs p)"
  by (rule enum_until_inv [where P = plugin_inv])

lemma plugin_inv_hooks:
  assumes "plugin_inv p"
  shows "plugin_inv (osc_feedback_init en p)" "plugin_inv (osc_feedback_shutdown en p)"
proof -
  have "plugin_inv (enum_until (enum_connect_cb en) xs q)" "plugin_inv (enum_until (enum_disconnect_cb en) xs q)"
    if "plugin_inv q" for xs q
    using that by (rule plugin_inv_enum [rotated],
        simp add: enum_connect_cb_def enum_disconnect_cb_def plugin_inv_change_hooks)+
  with assms show "plugin_inv (osc_feedback_init en p)" "plugin_inv (osc_feedback_shutdown en p)"
    by (simp_all add: osc_feedback_init_def osc_feedback_shutdown_def Let_def)
qed

lemma plugin_inv_frontend:
  assumes "plugin_inv p"
  shows "plugin_inv (frontend_event_cb en e p)"
proof -
  have "plugin_inv (send_source_name en a x q)" if "plugin_inv q" for a x q
    using that by (simp add: send_source_name_def plugin_inv_feedback split: option.splits)
  then have "plugin_inv (send_current en a f p)" for a f
    using assms by (simp add: send_current_def split: prod.splits)
  then show ?thesis using assms by (cases e) (simp_all add: plugin_inv_feedback)
qed

lemma plugin_inv_callback: "plugin_inv p \<Longrightarrow> plugin_inv (run_callback en e p)"
proof -
  assume i: "plugin_inv p"
  have tr: "plugin_inv (send_item_transform_feedback en a b x q)" if "plugin_inv q" for a b x q
  proof -
    have "plugin_inv (foldl (\<lambda>p f. osc_feedback_send en (transform_for a b (tf_name f))
        [osc_flt (tf_get f x (world p))] p) q fs)" for fs
      using that by (induction fs arbitrary: q) (simp_all add: plugin_inv_feedback)
    then show ?thesis by (simp add: send_item_transform_feedback_def)
  qed
  have ro: "plugin_inv (enum_until (reorder_report_cb en n) xs q)" if "plugin_inv q" for n xs q
    using that by (rule plugin_inv_enum [rotated])
      (simp add: reorder_report_cb_def send_bool_feedback_def plugin_inv_feedback split: option.splits)
  show ?thesis
    using i by (cases e)
      (auto simp: mute_signal_cb_def volume_signal_cb_def media_signal_cb_def send_bool_feedback_def
        activate_signal_cb_def deactivate_signal_cb_def show_signal_cb_def hide_signal_cb_def Let_def
        item_visible_signal_cb_def item_locked_signal_cb_def item_flag_cb_def scene_reorder_signal_cb_def
        item_transform_signal_cb_def filter_enable_signal_cb_def filter_add_signal_cb_def
        filter_remove_signal_cb_def unhook_filter_def source_create_cb_def source_destroy_cb_def
        plugin_inv_feedback plugin_inv_hook plugin_inv_unhook_from plugin_inv_change_hooks
        plugin_inv_frontend tr ro throttle_frame split: option.splits prod.splits)
qed

subsection \<open>Lifecycle and settings\<close>

lemma plugin_inv_listener:
  assumes "plugin_inv p"
  shows "plugin_inv (snd (start_listener en port p))" "plugin_inv (stop_listener en p)"
  using assms by (auto simp: start_listener_def stop_listener_def server_op_def plugin_inv_def
      split: prod.splits intro: server_inv_start server_inv_stop)

lemma osc_query_stop_registry:
  "registry_inv (ws_reg s) \<Longrightarrow> osc_query_stop os q s = (q', s') \<Longrightarrow> registry_inv (ws_reg s')"
  by (auto simp: osc_query_stop_def osc_http_stop_def Let_def registry_shutdown split: if_splits prod.splits)

lemma plugin_inv_query:
  assumes "plugin_inv p"
  shows "plugin_inv (snd (restart_query en p))" "plugin_inv (stop_query en p)"
proof -
  have r: "registry_inv (ws_reg (pl_ws p))" and q: "query_inv (pl_query p)" using assms by (simp_all add: plugin_inv_def)
  obtain q1 s1 where st: "osc_query_stop (en_os en) (pl_query p) (pl_ws p) = (q1, s1)" by fastforce
  with assms query_inv_stop [OF q st] osc_query_stop_registry [OF r st]
  show "plugin_inv (stop_query en p)" by (simp add: stop_query_def plugin_inv_def)
  obtain ok q2 s2 where rs: "osc_query_restart (en_os en) (pl_config p) (pl_query p) (pl_ws p) = (ok, q2, s2)"
    using prod_cases3 by blast
  then have "ws_reg s2 = ws_reg s1"
    by (auto simp: osc_query_restart_def st Let_def split: if_splits prod.splits)
  with assms query_restart(1) [OF q rs] osc_query_stop_registry [OF r st] rs
  show "plugin_inv (snd (restart_query en p))" by (simp add: restart_query_def plugin_inv_def)
qed

lemma plugin_inv_target: "plugin_inv p \<Longrightarrow> plugin_inv (apply_feedback_target en p)"
  by (simp add: apply_feedback_target_def plugin_inv_def server_inv_target)

lemma plugin_inv_config: "plugin_inv p \<Longrightarrow> ports_ok c \<Longrightarrow> plugin_inv (p\<lparr>pl_config := c\<rparr>)"
  by (simp add: plugin_inv_def)

lemma plugin_inv_save [simp]: "plugin_inv (osc_save_config en md p) = plugin_inv p"
  by (simp add: osc_save_config_def Let_def split: option.splits)

lemma plugin_inv_apply_port:
  assumes "plugin_inv p" "1 \<le> port" "port \<le> 65535"
  shows "plugin_inv (snd (osc_apply_port en port p))"
proof -
  obtain ok p1 where s: "start_listener en port (stop_listener en p) = (ok, p1)" by fastforce
  have i: "plugin_inv p1"
    using plugin_inv_listener(1) [OF plugin_inv_listener(2) [OF assms(1)], of en port en] s by simp
  then have "ports_ok (pl_config p1)" by (simp add: plugin_inv_def)
  then have "plugin_inv (p1\<lparr>pl_config := (pl_config p1)\<lparr>cf_port := port\<rparr>\<rparr>)"
    using i assms(2,3) by (intro plugin_inv_config) (simp_all add: ports_ok_def)
  with i assms(1) s show ?thesis
    by (simp add: osc_apply_port_def Let_def plugin_inv_query plugin_inv_listener)
qed

lemma plugin_inv_settings:
  assumes "plugin_inv p" "ports_ok next"
  shows "plugin_inv (snd (osc_apply_settings en md next p))"
proof -
  have range: "1 \<le> cf_port next" "cf_port next \<le> 65535" using assms(2) by (simp_all add: ports_ok_def)
  obtain ok p1 where p1: "(if cf_port next \<noteq> cf_port (pl_config p) then osc_apply_port en (cf_port next) p
      else (True, p)) = (ok, p1)" by fastforce
  have i1: "plugin_inv p1"
    using p1 assms(1) plugin_inv_apply_port [OF assms(1) range, of en] by (auto split: if_splits)
  have fin: "plugin_inv (snd (finish_settings en md next q))" if "plugin_inv q" for q
  proof -
    have "ports_ok (pl_config q)" using that by (simp add: plugin_inv_def)
    then have "plugin_inv (q\<lparr>pl_config := (pl_config q)
        \<lparr>cf_feedback_enabled := cf_feedback_enabled next, cf_feedback_host := cf_feedback_host next,
         cf_feedback_port := cf_feedback_port next\<rparr>\<rparr>)"
      using that assms(2) by (intro plugin_inv_config) (simp_all add: ports_ok_def)
    then show ?thesis by (simp add: finish_settings_def Let_def plugin_inv_target)
  qed
  have sq: "plugin_inv (set_query port en' q)" if "plugin_inv q" "0 \<le> port" "port \<le> 65535" for port en' q
  proof -
    have "ports_ok (pl_config q)" using that by (simp add: plugin_inv_def)
    then show ?thesis using that by (auto simp: set_query_def ports_ok_def intro!: plugin_inv_config)
  qed
  obtain ok2 p2 where p2: "restart_query en (set_query (cf_query_port next) (cf_query_enabled next) p1) = (ok2, p2)"
    by fastforce
  have i2: "plugin_inv p2"
    using plugin_inv_query(1) [OF sq [OF i1, of "cf_query_port next" "cf_query_enabled next"], of en] p2 assms(2)
    by (simp add: ports_ok_def)
  have "ports_ok (pl_config p1)" using i1 by (simp add: plugin_inv_def)
  then have "plugin_inv (snd (restart_query en (set_query (cf_query_port (pl_config p1)) b p2)))" for b
    by (intro plugin_inv_query sq i2) (simp_all add: ports_ok_def)
  then show ?thesis
    using i1 fin [OF i1] fin [OF i2] by (simp add: osc_apply_settings_def p1 p2 Let_def)
qed

lemma plugin_inv_dispatch: "plugin_inv p \<Longrightarrow> plugin_inv (osc_dispatch_command en msg to p)"
proof -
  assume i: "plugin_inv p"
  obtain sv w where d: "dispatch_ctl en msg to (pl_server p, world p) = (sv, w)" by fastforce
  have "server_inv sv" using server_inv_dispatch [of "(pl_server p, world p)" en msg to] i d by (simp add: plugin_inv_def)
  with i d show ?thesis
    by (simp add: osc_dispatch_command_def Let_def on_ctl_def plugin_inv_def registry_inv_handle_subscription)
qed

lemma plugin_inv_task: "plugin_inv p \<Longrightarrow> plugin_inv (run_ui_task en t p)"
proof -
  have "plugin_inv (foldl (\<lambda>p msg. osc_dispatch_command en msg to p) p ms)" if "plugin_inv p" for to ms
    using that by (induction ms arbitrary: p) (simp_all add: plugin_inv_dispatch)
  then show "plugin_inv p \<Longrightarrow> plugin_inv (run_ui_task en t p)" by (simp add: run_ui_task_def)
qed

lemma plugin_inv_load: "plugin_inv p \<Longrightarrow> plugin_inv (load_config en md p)"
proof -
  assume i: "plugin_inv p"
  then have "ports_ok (pl_config (load_config en md p))" by (simp add: plugin_inv_def load_config_ports)
  with i show ?thesis by (auto simp: load_config_def Let_def plugin_inv_def split: option.splits)
qed

subsection \<open>Every event\<close>

lemma run_event_inv:
  assumes "plugin_inv p" "tasks_inv ts" "\<forall>d. e = EvSettings d \<longrightarrow> dialog_in_range d"
  shows "plugin_inv (fst (run_event en md e (p, ts))) \<and> tasks_inv (snd (run_event en md e (p, ts)))"
proof (cases e)
  case EvLoad
  with assms show ?thesis
    by (simp add: obs_module_load_def Let_def plugin_inv_query plugin_inv_target plugin_inv_listener
        plugin_inv_hooks plugin_inv_load)
next
  case EvUnload
  with assms show ?thesis
    by (simp add: obs_module_unload_def plugin_inv_hooks plugin_inv_listener plugin_inv_query)
next
  case (EvSettings d)
  with assms show ?thesis by (simp add: plugin_inv_settings dialog_in_range_def)
next
  case (EvReceive dgram)
  obtain go call sv where r: "recv_pass dgram (pl_server p) = (go, call, sv)" using prod_cases3 by blast
  have "server_inv sv" using server_inv_recv [OF _ r] assms(1) by (simp add: plugin_inv_def)
  then have i: "plugin_inv (p\<lparr>pl_server := sv\<rparr>)" using assms(1) by (simp add: plugin_inv_def)
  have t: "tasks_inv (the (handle_datagram data to ts))" for data to
  proof -
    obtain ts' where "handle_datagram data to ts = Some ts'" using handle_datagram_total by blast
    with handle_datagram_tasks [OF this] assms(2) show ?thesis by (auto simp: tasks_inv_def)
  qed
  from i t assms(2) EvReceive r show ?thesis
    by (auto simp: receive_event_def split: option.splits)
next
  case EvSend
  have "plugin_inv (send_event en p)"
    using assms(1) by (auto simp: send_event_def plugin_inv_def split: option.splits send_result.splits
        intro: server_inv_send)
  with EvSend assms(2) show ?thesis by simp
next
  case EvTask
  with assms show ?thesis by (auto simp: plugin_inv_task tasks_inv_def split: list.splits)
qed (use assms(1,2) plugin_inv_callback [of p en e] in simp_all)

lemma plugin_step_inv:
  assumes "plugin_step en md y y'" "plugin_inv (fst y) \<and> tasks_inv (snd y)"
  shows "plugin_inv (fst y') \<and> tasks_inv (snd y')"
  using assms(1)
proof (cases rule: plugin_step.cases)
  case (step_event e)
  with run_event_inv [of "fst y" "snd y" e en md] assms(2) show ?thesis by simp
next
  case (step_world p ts w)
  with assms(2) show ?thesis by simp
qed

lemma plugin_reachable_inv: "plugin_reachable en md y \<Longrightarrow> plugin_inv (fst y) \<and> tasks_inv (snd y)"
proof (induction rule: plugin_reachable.induct)
  case (sys_init s)
  then show ?case by (simp add: plugin_inv_new tasks_inv_def)
next
  case (sys_step y y')
  from sys_step.hyps(2) sys_step.IH show ?case by (rule plugin_step_inv)
qed

end
