(* ===== verification/OscEffects.thy ===== *)
theory OscEffects
  imports OscReplies
begin

text \<open>
  What the commands do to OBS, under the laws its setters document: which scene an index
  selects, which inputs a mute pattern reaches, and that the state an output reports is
  accepted back without effect.
\<close>

subsection \<open>Scenes by index\<close>

lemma scene_index_walk:
  "enum_until (scene_index_enum ob want w) xs (current, found) =
     (if current < want \<and> want \<le> current + int (length xs)
      then (want, ob_name ob (xs ! nat (want - current - 1)) w)
      else (current + int (length xs), found))"
proof (induction xs arbitrary: current)
  case (Cons x xs)
  show ?case
  proof (cases "current + 1 = want")
    case True
    then show ?thesis by (simp add: scene_index_enum_def)
  next
    case False
    have "nat (want - current - 1) = Suc (nat (want - (current + 1) - 1))" if "current + 1 < want"
      using that by linarith
    with False Cons.IH [of "current + 1"] show ?thesis by (auto simp: scene_index_enum_def)
  qed
qed auto

lemma switch_scene_index:
  "switch_program_scene_index en i w =
     (if 1 \<le> i \<and> i \<le> int (length (ob_scenes (en_obs en) w)) \<and>
         ob_name (en_obs en) (ob_scenes (en_obs en) w ! nat (i - 1)) w \<noteq> []
      then switch_program_scene en (c_str (ob_name (en_obs en) (ob_scenes (en_obs en) w ! nat (i - 1)) w)) w
      else w)"
  by (simp add: switch_program_scene_index_def scene_index_walk Let_def)

subsection \<open>Muting\<close>

text \<open>The mute flag is what was last set, and setting it changes nothing else of the sources.\<close>

definition mute_laws :: "('w, 'd) obs_api \<Rightarrow> bool" where
  "mute_laws ob \<longleftrightarrow>
     (\<forall>x b y w. ob_muted ob y (ob_set_muted ob x b w) = (if x = y then b else ob_muted ob y w)) \<and>
     (\<forall>x b y w. ob_type ob y (ob_set_muted ob x b w) = ob_type ob y w) \<and>
     (\<forall>x b y w. ob_name ob y (ob_set_muted ob x b w) = ob_name ob y w)"

lemma mute_lawsD:
  assumes "mute_laws ob"
  shows "ob_muted ob y (ob_set_muted ob x b w) = (if x = y then b else ob_muted ob y w)"
    "ob_type ob y (ob_set_muted ob x b w) = ob_type ob y w"
    "ob_name ob y (ob_set_muted ob x b w) = ob_name ob y w"
  using assms by (simp_all add: mute_laws_def)

definition mute_target :: "('w, 'd) obs_api \<Rightarrow> string \<Rightarrow> nat \<Rightarrow> 'w \<Rightarrow> bool" where
  "mute_target ob pattern x w \<longleftrightarrow> ob_type ob x w = SourceInput \<and> osc_glob_match pattern (ob_name ob x w)"

lemma mute_inputs_wildcard:
  assumes "mute_laws ob" "osc_has_wildcard (Some pattern)" "distinct (ob_sources ob (snd s))"
  shows "ob_muted ob y (snd (mute_inputs ob pattern value s)) =
    (if y \<in> set (ob_sources ob (snd s)) \<and> mute_target ob pattern y (snd s)
     then (case value of Some b \<Rightarrow> b | None \<Rightarrow> \<not> ob_muted ob y (snd s)) else ob_muted ob y (snd s))"
proof -
  let ?visit = "\<lambda>source s. (True, with_world (ob_set_muted ob source
                   (case value of Some b \<Rightarrow> b | None \<Rightarrow> \<not> ob_muted ob source (snd s))) s)"
  let ?walk = "\<lambda>source s. if type_ok ob KindInput source (snd s) \<and>
      osc_glob_match pattern (ob_name ob source (snd s)) then ?visit source s else (True, s)"
  have "distinct xs \<Longrightarrow> ob_muted ob y (snd (enum_until ?walk xs s)) =
      (if y \<in> set xs \<and> mute_target ob pattern y (snd s)
       then (case value of Some b \<Rightarrow> b | None \<Rightarrow> \<not> ob_muted ob y (snd s)) else ob_muted ob y (snd s))" for xs s
  proof (induction xs arbitrary: s)
    case (Cons x xs)
    show ?case
    proof (cases "mute_target ob pattern x (snd s)")
      case False
      with Cons show ?thesis
        by (auto simp: mute_target_def type_ok_def osc_is_input_def)
    next
      case True
      have t: "mute_target ob pattern z (ob_set_muted ob x b w) = mute_target ob pattern z w" for z b w
        by (simp add: mute_target_def mute_lawsD [OF assms(1)])
      from True have "enum_until ?walk (x # xs) s = enum_until ?walk xs (snd (?visit x s))"
        by (simp add: mute_target_def type_ok_def osc_is_input_def)
      with Cons.IH [of "snd (?visit x s)"] Cons.prems True show ?thesis
        by (cases "value") (auto simp: t mute_lawsD [OF assms(1)])
    qed
  qed simp
  from this [OF assms(3), of s] assms(2) show ?thesis
    by (simp add: mute_inputs_def osc_visit_sources_def)
qed

text \<open>What a poll of the mute flags replies: one message for each input that matches, in the order of OBS.\<close>

definition mute_reply :: "('w, 'd) obs_api \<Rightarrow> 'w \<Rightarrow> nat \<Rightarrow> osc_message" where
  "mute_reply ob w x =
     \<lparr>address = c_str (mute_for (ob_name ob x w)), args = [osc_bool (ob_muted ob x w)]\<rparr>"

lemma reply_collects:
  "batching to sv \<Longrightarrow> reply to addr as (sv, w) = (collected [\<lparr>address = c_str addr, args = as\<rparr>] sv, w)"
  by (simp add: reply_def server_reply_def batching_def collected_def enc_message_def Let_def)

lemma poll_mute_wildcard:
  assumes "osc_has_wildcard (Some pattern)" "batching to sv"
  shows "poll_mute_inputs ob pattern to (sv, w) =
    (collected (map (mute_reply ob w) (filter (\<lambda>x. mute_target ob pattern x w) (ob_sources ob w))) sv, w)"
proof -
  let ?visit = "\<lambda>source s. if type_ok ob KindInput source (snd s) \<and>
      osc_glob_match pattern (ob_name ob source (snd s))
      then (True, reply to (mute_for (ob_name ob source (snd s))) [osc_bool (ob_muted ob source (snd s))] s)
      else (True, s)"
  have "batching to sv \<Longrightarrow> enum_until ?visit xs (sv, w) =
      (collected (map (mute_reply ob w) (filter (\<lambda>x. mute_target ob pattern x w) xs)) sv, w)" for xs sv
    by (induction xs arbitrary: sv)
      (auto simp: reply_collects mute_reply_def collected_collected mute_target_def type_ok_def osc_is_input_def)
  from this [OF assms(2)] assms(1) show ?thesis
    by (simp add: poll_mute_inputs_def osc_visit_sources_def)
qed

lemma poll_routes_mute:
  assumes "n \<noteq> []"
  shows "poll_routes en (mute_for n) to s = (True, poll_mute_inputs (en_obs en) n to s)"
  using assms
  by (simp add: poll_routes_def poll_frontend_def poll_sources_def Let_def mute_for_def outputs_def route_simps)

lemma dispatch_mute_poll:
  assumes "osc_has_wildcard (Some pattern)"
  shows "dispatch_ctl en \<lparr>address = mute_for pattern, args = []\<rparr> to s =
    (end_batch (collected (map (mute_reply (en_obs en) (snd s))
        (filter (\<lambda>x. mute_target (en_obs en) pattern x (snd s)) (ob_sources (en_obs en) (snd s))))
       (begin_batch to (fst s))), snd s)"
proof -
  have "pattern \<noteq> []" using assms by (auto simp: osc_has_wildcard_def)
  moreover have "batching to (begin_batch to (fst s))" by (simp add: batching_def begin_batch_def)
  ultimately show ?thesis
    using assms by (simp add: dispatch_ctl_def poll_dispatch_def reply_batch_scope_def poll_routes_mute poll_mute_wildcard)
qed

subsection \<open>Outputs\<close>

text \<open>
  The feedback of an output carries its state; sent back as a command it is already satisfied,
  so a controller that echoes what it receives starts and stops nothing.
\<close>

lemma output_active_ops: "output_active fe out w = op_active (output_ops_of fe out) w"
  by (cases out) (simp_all add: output_active_def)

lemma echo_arg_bool: "arg_bool \<lparr>address = a, args = [osc_bool b]\<rparr> 0 d = b"
  by (simp add: arg_bool_def osc_bool_def osc_int_def)

lemma output_echo:
  "run_output_command fe out \<lparr>address = a, args = [osc_bool (output_active fe out w)]\<rparr> [] w = w"
proof -
  have s: "sub_save \<noteq> []" "sub_pause \<noteq> []" "sub_start \<noteq> []" "sub_stop \<noteq> []" "sub_toggle \<noteq> []"
    by (simp_all add: addr_defs)
  show ?thesis
    using s by (simp add: run_output_command_def Let_def echo_arg_bool output_active_ops)
qed

lemma find_output_base:
  "find (\<lambda>o1. sub_action (out_base (outputs ! i)) (out_base o1) \<noteq> None) outputs = Some (outputs ! i)"
  if "i = 0 \<or> i = 1 \<or> i = 2 \<or> i = 3"
  using that by (elim disjE; simp add: outputs_def sub_action_def compare_prefix_def addr_defs)

lemma dispatch_output:
  assumes "i = 0 \<or> i = 1 \<or> i = 2 \<or> i = 3"
  shows "dispatch_ctl en \<lparr>address = out_base (outputs ! i), args = [a]\<rparr> to s =
    (fst s, run_output_command (en_fe en) (out_id (outputs ! i))
       \<lparr>address = out_base (outputs ! i), args = [a]\<rparr> [] (snd s))"
proof -
  let ?a = "out_base (outputs ! i)"
  have "?a \<noteq> addr_studio \<and> ?a \<noteq> addr_transition \<and> tail ?a transition_prefix = None \<and>
      tail ?a program_index_prefix = None \<and> tail ?a program_prefix = None \<and> tail ?a preview_prefix = None"
    using assms by (elim disjE; simp add: outputs_def tail_def compare_prefix_def addr_defs)
  then show ?thesis
    using find_output_base [OF assms]
    by (simp add: dispatch_ctl_def run_command_def scene_commands_def Let_def)
qed

lemma dispatch_output_echo:
  assumes "i = 0 \<or> i = 1 \<or> i = 2 \<or> i = 3"
  shows "dispatch_ctl en \<lparr>address = out_base (outputs ! i),
      args = [osc_bool (output_active (en_fe en) (out_id (outputs ! i)) (snd s))]\<rparr> to s = s"
  by (simp add: dispatch_output [OF assms] output_echo)

end
