(* ===== verification/OscRequests.thy ===== *)
theory OscRequests
  imports OscHttp
begin

text \<open>
  A whole HTTP exchange (\<^verbatim>\<open>handle_client\<close> of \<^verbatim>\<open>osc-query-http.cpp\<close>): the request is read up to its
  blank line however the stream cuts it up, the path of a GET is decoded, and the answer is
  written completely before the socket is closed.
\<close>

subsection \<open>Writing an answer\<close>

text \<open>
  What a connected socket documents, with \<open>sent\<close> the bytes the peer gets: \<^verbatim>\<open>send\<close> takes at least
  one byte, possibly not all, and the other calls send nothing.
\<close>

definition reply_socket :: "'w os_api \<Rightarrow> int \<Rightarrow> ('w \<Rightarrow> bytes) \<Rightarrow> bool" where
  "reply_socket os fd sent \<longleftrightarrow>
     (\<forall>d w n w'. d \<noteq> [] \<longrightarrow> os_send os fd d w = (n, w') \<longrightarrow>
        0 < n \<and> n \<le> int (length d) \<and> sent w' = sent w @ take (nat n) d) \<and>
     (\<forall>n w. sent (snd (os_recv os fd n w)) = sent w) \<and> (\<forall>w. sent (os_close os fd w) = sent w)"

lemma http_send_all_sent:
  "reply_socket os fd sent \<Longrightarrow> sent (http_send_all os fd data w) = sent w @ data"
proof (induction os fd data w rule: http_send_all.induct)
  case (1 os fd data w)
  show ?case
  proof (cases "data = []")
    case False
    obtain n w1 where s: "os_send os fd data w = (n, w1)" by fastforce
    with False "1.prems" have n: "0 < n" "sent w1 = sent w @ take (nat n) data"
      unfolding reply_socket_def by metis+
    have "http_send_all os fd data w = http_send_all os fd (drop (nat n) data) w1"
      using False s n(1) by (subst http_send_all.simps) simp
    with "1.IH" [OF False s [symmetric]] n "1.prems" show ?thesis by simp
  qed (simp add: http_send_all.simps)
qed

text \<open>The bytes of an answer to a request whose handler returned \<open>body\<close>.\<close>

definition http_answer :: "string \<Rightarrow> string" where
  "http_answer body =
     (if body = [] then response_header not_found_json False @ not_found_json
      else response_header body True @ body)"

lemma respond_sent:
  "reply_socket os fd sent \<Longrightarrow>
   sent (respond os fd body ok w) = sent w @ to_bytes (response_header body ok @ body)"
  by (simp add: respond_def http_send_all_sent)

subsection \<open>Reading a request\<close>

lemma contains_sub_iff: "contains_sub sub s \<longleftrightarrow> (\<exists>u v. s = u @ sub @ v)"
proof (induction s)
  case (Cons c s)
  have "take (length sub) (c # s) = sub \<longleftrightarrow> (\<exists>v. c # s = sub @ v)"
    by (metis append_eq_conv_conj append_take_drop_id)
  moreover have "(\<exists>u v. c # s = u @ sub @ v) \<longleftrightarrow> (\<exists>v. c # s = sub @ v) \<or> (\<exists>u v. s = u @ sub @ v)"
    by (metis Cons_eq_append_conv append_Cons append_Nil)
  ultimately show ?case using Cons.IH by simp
qed auto

lemma contains_sub_append: "contains_sub sub s \<Longrightarrow> contains_sub sub (s @ t)"
  unfolding contains_sub_iff by (metis append_assoc)

lemma contains_blank_line:
  "CHR 0x0A \<notin> set line \<Longrightarrow>
   contains_sub (crlf @ crlf) (line @ crlf @ t) \<longleftrightarrow> take 2 t = crlf \<or> contains_sub (crlf @ crlf) t"
proof (induction line)
  case Nil
  show ?case by (simp add: eval_nat_numeral)
next
  case (Cons c line)
  have "take (length (crlf @ crlf)) ((c # line) @ crlf @ t) \<noteq> crlf @ crlf"
    using Cons.prems by (cases line) (auto simp: eval_nat_numeral)
  with Cons show ?case by (simp del: take_Suc_Cons)
qed

text \<open>A request with well-formed lines has its only blank line at the end.\<close>

lemma blank_line_last:
  assumes "\<forall>(n, v) \<in> set hs. set (n @ v) \<inter> {CHR 0x0D, CHR 0x0A} = {}" "CHR 0x0A \<notin> set line"
  shows "\<not> contains_sub (crlf @ crlf) (butlast (line @ crlf @ render_headers hs))"
    and "contains_sub (crlf @ crlf) (line @ crlf @ render_headers hs)"
proof -
  have ne: "render_headers hs \<noteq> []" for hs by (cases hs) auto
  have one: "\<not> contains_sub (crlf @ crlf) (butlast (line @ crlf @ render_headers hs))"
    if "\<forall>(n, v) \<in> set hs. set (n @ v) \<inter> {CHR 0x0D, CHR 0x0A} = {}" "CHR 0x0A \<notin> set line" for line
    using that
  proof (induction hs arbitrary: line)
    case Nil
    then show ?case
      using contains_blank_line [of line "[CHR 0x0D]"] by (simp add: butlast_append)
  next
    case (Cons h hs)
    obtain n v where h: "h = (n, v)" by fastforce
    let ?l = "n @ '': '' @ v"
    have l: "CHR 0x0A \<notin> set ?l" "CHR 0x0D \<notin> set ?l" using Cons.prems(1) h by auto
    have b: "butlast (line @ crlf @ render_headers (h # hs)) = line @ crlf @ butlast (?l @ crlf @ render_headers hs)"
      using ne [of hs] by (simp add: h butlast_append)
    have "take 2 (butlast (?l @ crlf @ render_headers hs)) \<noteq> crlf"
      using l(2) ne [of hs] by (cases n) (auto simp: eval_nat_numeral butlast_append)
    moreover have "\<not> contains_sub (crlf @ crlf) (butlast (?l @ crlf @ render_headers hs))"
      using Cons.prems(1) by (intro Cons.IH l(1)) simp
    ultimately show ?case unfolding b contains_blank_line [OF Cons.prems(2)] by blast
  qed
  show "\<not> contains_sub (crlf @ crlf) (butlast (line @ crlf @ render_headers hs))" by (rule one [OF assms])
  show "contains_sub (crlf @ crlf) (line @ crlf @ render_headers hs)"
    unfolding contains_sub_iff
  proof (cases hs rule: rev_cases)
    case Nil
    then show "\<exists>u v. line @ crlf @ render_headers hs = u @ (crlf @ crlf) @ v"
      by (auto intro: exI [of _ line])
  next
    case (snoc hs' h)
    have "\<exists>u. render_headers (hs' @ [h]) = u @ crlf @ crlf"
    proof (induction hs')
      case Nil
      show ?case by (cases h) (auto intro: exI [of _ "fst h @ '': '' @ snd h"])
    next
      case (Cons g hs')
      then obtain u where "render_headers (hs' @ [h]) = u @ crlf @ crlf" by blast
      then have "render_headers ((g # hs') @ [h]) = (fst g @ '': '' @ snd g @ crlf @ u) @ crlf @ crlf"
        by (cases g) simp
      then show ?case by blast
    qed
    then obtain u where "render_headers (hs' @ [h]) = u @ crlf @ crlf" by blast
    then have "line @ crlf @ render_headers hs = (line @ crlf @ u) @ (crlf @ crlf) @ []"
      unfolding snoc by simp
    then show "\<exists>u v. line @ crlf @ render_headers hs = u @ (crlf @ crlf) @ v" by blast
  qed
qed

lemma read_request_complete:
  assumes "\<not> contains_sub (crlf @ crlf) (butlast req)" "contains_sub (crlf @ crlf) req" "length req \<le> 8192"
  shows "stream_socket os fd pending \<Longrightarrow> reply_socket os fd sent \<Longrightarrow> acc @ to_string (pending w) = req \<Longrightarrow>
    \<exists>w'. read_request os fd acc w = (req, w') \<and> pending w' = [] \<and> sent w' = sent w"
proof (induction os fd acc w rule: read_request.induct)
  case (1 os fd acc w)
  show ?case
  proof (cases "pending w = []")
    case True
    with "1.prems"(3) assms(2) have "read_request os fd acc w = (req, w)"
      by (subst read_request.simps) simp
    with True show ?thesis by blast
  next
    case False
    obtain x where x: "butlast req = acc @ x" and l: "length acc < length req"
      using False "1.prems"(3) by (metis append_self_conv append_butlast_last_id butlast_append length_append
          length_greater_0_conv less_add_same_cancel1 list.map_disc_iff)
    have c: "\<not> contains_sub (crlf @ crlf) acc \<and> length acc < 8192"
      using assms(1,3) l contains_sub_append [of "crlf @ crlf" acc x] unfolding x by linarith
    obtain bs w1 where r: "os_recv os fd 2048 w = (bs, w1)" by fastforce
    have p: "pending w = bs @ pending w1" "bs \<noteq> []"
      using stream_socketD [OF "1.prems"(1) r] False by auto
    have s: "sent w1 = sent w" using "1.prems"(2) r unfolding reply_socket_def by (metis snd_conv)
    have e: "read_request os fd acc w = read_request os fd (acc @ to_string bs) w1"
      unfolding read_request.simps [of os fd acc w] r prod.case using c p(2) by (simp only: if_True if_False simp_thms)
    have "(acc @ to_string bs) @ to_string (pending w1) = req" using "1.prems"(3) p(1) by simp
    from "1.IH" [OF c r [symmetric] p(2) "1.prems"(1,2) this] show ?thesis unfolding e s .
  qed
qed

subsection \<open>A GET from end to end\<close>

lemma set_url_encode: "set (url_encode keep s) \<subseteq> {c. keep c} \<union> {CHR ''%''} \<union> {c. isxdigit c}"
proof (induction s)
  case (Cons c s)
  have "isxdigit (hex_char (drop_bit 4 (byte_of c)))" "isxdigit (hex_char (byte_of c AND 0x0F))"
    using nibbles(1,2) hex_char_digit by simp_all
  with Cons.IH show ?case by auto
qed simp

lemma url_encode_without:
  "\<not> keep x \<Longrightarrow> x \<noteq> CHR ''%'' \<Longrightarrow> \<not> isxdigit x \<Longrightarrow> x \<notin> set (url_encode keep s)"
  using set_url_encode [of keep s] by blast

lemma not_xdigit [simp]:
  "\<not> isxdigit (CHR '' '')" "\<not> isxdigit (CHR ''?'')" "\<not> isxdigit (CHR 0x0A)"
  by (simp_all add: isxdigit_def is_digit_def)

lemma takeWhile_all: "x \<notin> set xs \<Longrightarrow> takeWhile (\<lambda>y. y \<noteq> x) xs = xs"
  by (induction xs) auto

lemma request_path_get:
  assumes "\<not> keep (CHR '' '')" "\<not> keep (CHR ''?'')" "CHR '' '' \<notin> set query" "query = [] \<or> hd query = CHR ''?''"
  shows "request_path (''GET '' @ url_encode keep path @ query @ '' '' @ rest) = Some path"
proof -
  let ?e = "url_encode keep path"
  have e: "CHR '' '' \<notin> set (?e @ query)" "CHR ''?'' \<notin> set ?e"
    using url_encode_without assms(1-3) by auto
  have "takeWhile (\<lambda>c. c \<noteq> CHR '' '') ((?e @ query) @ CHR '' '' # rest) = ?e @ query"
    by (rule takeWhile_neq_append [OF e(1)])
  moreover have "takeWhile (\<lambda>c. c \<noteq> CHR ''?'') (?e @ query) = ?e"
    using assms(4) takeWhile_all [OF e(2)] takeWhile_neq_append [OF e(2), of "tl query"] by (cases query) simp_all
  moreover have "(if ?e = ''/'' then ''/'' else url_decode ?e) = path"
  proof (cases "?e = ''/''")
    case True
    with url_decode_encode [of keep path] show ?thesis by simp
  qed (simp add: url_decode_encode)
  ultimately show ?thesis by (simp add: request_path_def)
qed

lemma get_answered:
  fixes s :: "'w ws_state"
  defines "req path query rest hs \<equiv> (''GET '' @ path @ query @ '' '' @ rest) @ crlf @ render_headers hs"
  assumes "stream_socket os fd pending" "reply_socket os fd sent"
    and "\<not> keep (CHR '' '')" "\<not> keep (CHR ''?'')" "\<not> keep (CHR 0x0A)"
    and "set query \<inter> {CHR '' '', CHR 0x0A} = {}" "query = [] \<or> hd query = CHR ''?''" "CHR 0x0A \<notin> set rest"
    and "\<forall>h \<in> set hs. header_ok ''sec-websocket-key'' h \<and> \<not> same_name (fst h) ''sec-websocket-key''"
    and "pending (ws_world s) = to_bytes (req (url_encode keep path) query rest hs)"
    and "length (req (url_encode keep path) query rest hs) \<le> 8192"
  shows "\<exists>w s'. pending w = [] \<and> handle_client os env handler c fd s = Some s' \<and> ws_reg s' = ws_reg s \<and>
    sent (ws_world s') = sent (ws_world s) @ to_bytes (http_answer (handler path w))"
proof -
  let ?line = "''GET '' @ url_encode keep path @ query @ '' '' @ rest"
  let ?req = "?line @ crlf @ render_headers hs"
  have lf: "CHR 0x0A \<notin> set ?line"
    using url_encode_without [of keep "CHR 0x0A"] assms(6,7,9) by auto
  have hs: "\<forall>(n, v) \<in> set hs. set (n @ v) \<inter> {CHR 0x0D, CHR 0x0A} = {}"
    using assms(10) by (auto simp: header_ok_def)
  obtain w where r: "read_request os fd [] (ws_world s) = (?req, w)" and w: "pending w = []" "sent w = sent (ws_world s)"
    using read_request_complete [OF blank_line_last [OF hs lf] _ assms(2,3), of "[]" "ws_world s"] assms(11,12)
    unfolding req_def by auto
  have "find (\<lambda>h. same_name (fst h) ''sec-websocket-key'') hs = None"
    using assms(10) by (auto simp: find_None_iff)
  then have k: "find_header_value ?req ''sec-websocket-key'' = None"
    using find_header_request [of "''sec-websocket-key''" hs ?line] assms(10) lf by simp
  have g: "request_path ?req = Some path"
    using request_path_get [OF assms(4,5) _ assms(8), of path "rest @ crlf @ render_headers hs"] assms(7) by simp
  have send: "sent (close_socket os fd v) = sent v" for v
    using assms(3) by (simp add: close_socket_def reply_socket_def)
  define body where "body = handler path w"
  have "handle_client os env handler c fd s = Some (s\<lparr>ws_world := close_socket os fd
      (if body = [] then respond os fd not_found_json False w else respond os fd body True w)\<rparr>)"
    unfolding handle_client_def r prod.case try_upgrade_def k option.case bool.case g Let_def body_def by simp
  moreover have "to_bytes (response_header not_found_json False @ not_found_json) = to_bytes (http_answer [])"
    by (simp only: http_answer_def refl if_True)
  ultimately show ?thesis
    using w by (cases "body = []") (auto simp: send respond_sent [OF assms(3)] body_def http_answer_def
        simp del: map_append)
qed

end
