(* ===== verification/OscEndToEnd.thy ===== *)
theory OscEndToEnd
  imports OscSystem OscEffects OscRequests
begin

text \<open>
  Compositions of the components, from the bytes that come in to the bytes that go out: a command
  sent over UDP and the document served over HTTP, a WebSocket upgrade, and an event delivered to
  a WebSocket client that listens to it.
\<close>

subsection \<open>A command and the document\<close>

definition sources_stable :: "('w, 'd) obs_api \<Rightarrow> bool" where
  "sources_stable ob \<longleftrightarrow> (\<forall>x b w. ob_sources ob (ob_set_muted ob x b w) = ob_sources ob w)"

lemma mute_wildcard_keeps:
  assumes "\<And>x b w. g (ob_set_muted ob x b w) = g w" "osc_has_wildcard (Some pattern)"
  shows "g (snd (mute_inputs ob pattern value s)) = g (snd s)"
  using assms unfolding mute_inputs_def osc_visit_sources_def
  by (auto intro!: enum_until_inv [where P = "\<lambda>s'. g (snd s') = g (snd s)"])

lemma receive_message:
  assumes "sv_running (pl_server p)" "sv_fd (pl_server p) \<noteq> invalid_socket" "sv_handler (pl_server p)"
    and "wire_element m"
  shows "\<exists>sv. receive_event (Some (enc_message m, ss, slen)) (p, ts) =
    (p\<lparr>pl_server := sv\<rparr>, ts @ [([m], \<lparr>ep_addr = ss, ep_len = slen\<rparr>)])"
proof -
  have "batch_datagram (map enc_message [m]) = enc_message m" by (simp add: batch_datagram_def)
  moreover have "length (enc_message m) < 2 ^ 64" using assms(4) by (simp add: wire_element_def)
  ultimately have "handle_datagram (enc_message m) to ts = Some (ts @ [([m], to)])" for to
    using handle_datagram_batch [of "[m]" to ts] assms(4) by simp
  then show ?thesis using assms(1-3) by (auto simp: receive_event_def recv_pass_def Let_def)
qed

lemma mute_task_world:
  assumes "pattern \<noteq> []"
  shows "world (run_ui_task en ([\<lparr>address = mute_for pattern, args = [osc_bool b]\<rparr>], to) p) =
    snd (mute_inputs (en_obs en) pattern (Some b) (pl_server p, world p))"
proof -
  have "has_prefix (mute_for pattern) addr_root" "mute_for pattern \<noteq> addr_subscribe"
    "mute_for pattern \<noteq> addr_unsubscribe"
    by (simp_all add: mute_for_def has_prefix_def route_simps)
  then show ?thesis
    by (simp add: run_ui_task_def osc_dispatch_command_def on_ctl_def dispatch_mute [OF assms] split: prod.splits)
qed

lemma mute_section_lookup:
  assumes "object_laws (en_data en)" "path_segment n" "c_string n" "hd n \<noteq> CHR ''*''"
    and "x \<in> set (ob_sources (en_obs en) w)" "osc_is_input (en_obs en) x w" "ob_name (en_obs en) x w = n"
    and "\<And>y. y \<in> set (ob_sources (en_obs en) w) \<Longrightarrow> osc_is_input (en_obs en) y w \<Longrightarrow>
      ob_name (en_obs en) y w = n \<Longrightarrow> ob_muted (en_obs en) y w = b"
  shows "osc_query_schema_lookup en (''/mute/'' @ n) w =
    or_empty (dt_json (en_data en) (make_rw_int (en_data en) (bool_long b) 0 1 None))"
proof -
  let ?P = "\<lambda>y. osc_is_input (en_obs en) y w \<and> ob_name (en_obs en) y w = n"
  from assms(5-7) have "find ?P (rev (ob_sources (en_obs en) w)) \<noteq> None" by (auto simp: find_None_iff)
  then obtain y where y: "find ?P (rev (ob_sources (en_obs en) w)) = Some y" by auto
  then have "y \<in> set (ob_sources (en_obs en) w) \<and> ?P y" by (auto simp: find_Some_iff rev_nth)
  with assms(8) have "ob_muted (en_obs en) y w = b" by blast
  then have c: "child_of (en_data en) (the (build_section en ''mute'' w)) n =
      Some (make_rw_int (en_data en) (bool_long b) 0 1 None)"
    using y assms(4) unfolding mute_section_children [OF assms(1)] by simp
  have "split_path (''/mute/'' @ n) = [''mute'', n]"
    using split_join_path [of "[''mute'', n]"] assms(2) by (simp add: join_path_def path_segment_def)
  moreover have "build_section en ''mute'' w \<noteq> None" by (simp add: build_section_found schema_segments_def)
  ultimately show ?thesis
    using c assms(3) by (auto simp: osc_query_schema_lookup_def walk_tree_def child_of_def c_string_def
        split: option.splits)
qed

lemma mute_then_lookup:
  assumes "mute_laws (en_obs en)" "sources_stable (en_obs en)" "object_laws (en_data en)"
    and "distinct (ob_sources (en_obs en) (world p))"
    and "sv_running (pl_server p)" "sv_fd (pl_server p) \<noteq> invalid_socket" "sv_handler (pl_server p)"
    and "osc_has_wildcard (Some pattern)" "wire_element \<lparr>address = mute_for pattern, args = [osc_bool b]\<rparr>"
    and "path_segment n" "c_string n" "hd n \<noteq> CHR ''*''" "osc_glob_match pattern n"
    and "x \<in> set (ob_sources (en_obs en) (world p))" "osc_is_input (en_obs en) x (world p)"
      "ob_name (en_obs en) x (world p) = n"
  shows "fst (schema_lookup_waiting en (''/mute/'' @ n)
      (receive_event (Some (enc_message \<lparr>address = mute_for pattern, args = [osc_bool b]\<rparr>, ss, slen)) (p, []))) =
    or_empty (dt_json (en_data en) (make_rw_int (en_data en) (bool_long b) 0 1 None))"
proof -
  let ?ob = "en_obs en" and ?m = "\<lparr>address = mute_for pattern, args = [osc_bool b]\<rparr>"
  obtain sv where r: "receive_event (Some (enc_message ?m, ss, slen)) (p, []) =
      (p\<lparr>pl_server := sv\<rparr>, [([?m], \<lparr>ep_addr = ss, ep_len = slen\<rparr>)])"
    using receive_message [OF assms(5-7,9), of ss slen "[]"] by auto
  let ?s = "(sv, world p)"
  let ?w = "snd (mute_inputs ?ob pattern (Some b) ?s)"
  have "pattern \<noteq> []" using assms(8) by (auto simp: osc_has_wildcard_def)
  then have w: "fst (schema_lookup_waiting en path (receive_event (Some (enc_message ?m, ss, slen)) (p, []))) =
      osc_query_schema_lookup en path ?w" for path
    using mute_task_world [of pattern en b _ "p\<lparr>pl_server := sv\<rparr>"]
    by (simp add: r schema_lookup_waiting_def osc_ui_run_def Let_def)
  have keep: "ob_sources ?ob ?w = ob_sources ?ob (world p)" "ob_name ?ob y ?w = ob_name ?ob y (world p)"
    "ob_type ?ob y ?w = ob_type ?ob y (world p)" for y
    using mute_wildcard_keeps [of "ob_sources ?ob" ?ob pattern "Some b" ?s]
      mute_wildcard_keeps [of "ob_name ?ob y" ?ob pattern "Some b" ?s]
      mute_wildcard_keeps [of "ob_type ?ob y" ?ob pattern "Some b" ?s]
      assms(2,8) mute_lawsD [OF assms(1)] by (simp_all add: sources_stable_def)
  have "ob_muted ?ob y ?w = b"
    if "y \<in> set (ob_sources ?ob (world p))" "osc_is_input ?ob y (world p)" "ob_name ?ob y (world p) = n" for y
    using mute_inputs_wildcard [OF assms(1,8), of ?s y "Some b"] assms(4,13) that
    by (simp add: mute_target_def osc_is_input_def)
  then show ?thesis
    unfolding w using assms(14-16)
    by (intro mute_section_lookup [OF assms(3,10-12), of x]) (simp_all add: keep osc_is_input_def)
qed

subsection \<open>The WebSocket upgrade\<close>

lemma ws_send_all_sent:
  "duplex_socket os fd pending \<Longrightarrow> reply_socket os fd sent \<Longrightarrow>
   \<exists>w'. send_all os fd data w = (True, w') \<and> sent w' = sent w @ data \<and> pending w' = pending w"
proof (induction os fd data w rule: send_all.induct)
  case (1 os fd data w)
  show ?case
  proof (cases "data = []")
    case False
    obtain n w1 where s: "os_send os fd data w = (n, w1)" by fastforce
    with False "1.prems"(2) have n: "0 < n" "sent w1 = sent w @ take (nat n) data"
      unfolding reply_socket_def by metis+
    have "send_all os fd data w = send_all os fd (drop (nat n) data) w1"
      using False s n(1) by (subst send_all.simps) simp
    with "1.IH" [OF False s [symmetric] _ "1.prems"] n duplex_send [OF "1.prems"(1) s] show ?thesis by auto
  qed (simp add: send_all.simps)
qed

text \<open>
  A request with the two headers, in any order and spelling, gets the 101 with the accept key and
  its connection enters the session.
\<close>

lemma upgrade_answered:
  assumes "duplex_socket os fd pending" "reply_socket os fd sent"
    and "CHR 0x0A \<notin> set line" "\<forall>h \<in> set hs. header_ok ''sec-websocket-key'' h \<and> header_ok ''upgrade'' h"
    and "find (\<lambda>h. same_name (fst h) ''sec-websocket-key'') hs = Some (name, key)"
    and "\<exists>h \<in> set hs. same_name (fst h) ''upgrade''"
    and "pending (ws_world s) = to_bytes (line @ crlf @ render_headers hs)"
    and "length (line @ crlf @ render_headers hs) \<le> 8192"
  shows "\<exists>w. pending w = [] \<and> sent w = sent (ws_world s) @ to_bytes (handshake_response env key) \<and>
    handle_client os env handler c fd s =
      map_option (serve_done os c)
        (serve_loop os env c fd \<lparr>wl_assembled = [], wl_assembling = 0\<rparr> (serve_open os c fd (s\<lparr>ws_world := w\<rparr>)))"
proof -
  let ?req = "line @ crlf @ render_headers hs"
  have hs: "\<forall>(n, v) \<in> set hs. set (n @ v) \<inter> {CHR 0x0D, CHR 0x0A} = {}"
    using assms(4) by (auto simp: header_ok_def)
  obtain w0 where r: "read_request os fd [] (ws_world s) = (?req, w0)" and w0: "pending w0 = []" "sent w0 = sent (ws_world s)"
    using read_request_complete [OF blank_line_last [OF hs assms(3)] assms(8) duplex_stream [OF assms(1)] assms(2),
        of "[]" "ws_world s"] assms(7) by auto
  have k: "find_header_value ?req ''sec-websocket-key'' = Some key"
    using find_header_request [of "''sec-websocket-key''" hs line] assms(3-5) by simp
  have "find (\<lambda>h. same_name (fst h) ''upgrade'') hs \<noteq> None" using assms(6) by (auto simp: find_None_iff)
  then have u: "find_header_value ?req ''upgrade'' \<noteq> None"
    using find_header_request [of "''upgrade''" hs line] assms(3,4) by auto
  obtain w where w: "send_all os fd (to_bytes (handshake_response env key)) w0 = (True, w)"
    "sent w = sent w0 @ to_bytes (handshake_response env key)" "pending w = pending w0"
    using ws_send_all_sent [OF assms(1,2)] by metis
  have "serve os env c fd key (s\<lparr>ws_world := w0\<rparr>) = map_option (serve_done os c)
      (serve_loop os env c fd \<lparr>wl_assembled = [], wl_assembling = 0\<rparr> (serve_open os c fd (s\<lparr>ws_world := w\<rparr>)))"
    by (simp add: serve_def w(1))
  then have "handle_client os env handler c fd s = map_option (serve_done os c)
      (serve_loop os env c fd \<lparr>wl_assembled = [], wl_assembling = 0\<rparr> (serve_open os c fd (s\<lparr>ws_world := w\<rparr>)))"
    unfolding handle_client_def r prod.case try_upgrade_def k option.case
    using u by (cases "serve_loop os env c fd \<lparr>wl_assembled = [], wl_assembling = 0\<rparr> (serve_open os c fd (s\<lparr>ws_world := w\<rparr>))")
      (simp_all only: if_False option.map option.case prod.case bool.case)
  with w w0 show ?thesis by auto
qed

subsection \<open>An event and a listening client\<close>

text \<open>What the sockets of all peers document: \<open>sent fd\<close> is what the peer behind \<open>fd\<close> gets.\<close>

definition wire_log :: "'w os_api \<Rightarrow> (int \<Rightarrow> 'w \<Rightarrow> bytes) \<Rightarrow> bool" where
  "wire_log os sent \<longleftrightarrow>
     (\<forall>fd d w n w'. d \<noteq> [] \<longrightarrow> os_send os fd d w = (n, w') \<longrightarrow>
        0 < n \<and> n \<le> int (length d) \<and> sent fd w' = sent fd w @ take (nat n) d \<and>
        (\<forall>fd'. fd' \<noteq> fd \<longrightarrow> sent fd' w' = sent fd' w))"

lemma wire_send_all:
  "wire_log os sent \<Longrightarrow>
   \<exists>w'. send_all os fd data w = (True, w') \<and>
     (\<forall>fd'. sent fd' w' = sent fd' w @ (if fd' = fd then data else []))"
proof (induction os fd data w rule: send_all.induct)
  case (1 os fd data w)
  show ?case
  proof (cases "data = []")
    case False
    obtain n w1 where s: "os_send os fd data w = (n, w1)" by fastforce
    with False "1.prems" have n: "0 < n" "sent fd w1 = sent fd w @ take (nat n) data"
      "\<forall>fd'. fd' \<noteq> fd \<longrightarrow> sent fd' w1 = sent fd' w"
      unfolding wire_log_def by metis+
    have "send_all os fd data w = send_all os fd (drop (nat n) data) w1"
      using False s n(1) by (subst send_all.simps) simp
    with "1.IH" [OF False s [symmetric] _ "1.prems"] n show ?thesis by auto
  qed (simp add: send_all.simps)
qed

lemma wire_send_binary:
  assumes "wire_log os sent" "c \<in> set (ws_conns s)" "cn_open (ws_heap s c)"
  shows "\<exists>w. send_binary os c data s = s\<lparr>ws_world := w\<rparr> \<and>
    (\<forall>fd. sent fd w = sent fd (ws_world s) @ (if fd = cn_fd (ws_heap s c) then build_frame op_binary data else []))"
  using wire_send_all [OF assms(1), of "cn_fd (ws_heap s c)" "build_frame op_binary data" "ws_world s"] assms(2,3)
  by (auto simp: send_binary_def send_frame_def)

lemma wire_publish:
  assumes "wire_log os sent" "inj_on (\<lambda>q. cn_fd (ws_heap s q)) (set (ws_conns s))"
    and "\<forall>q \<in> set (ws_conns s). cn_open (ws_heap s q)"
  shows "distinct peers \<Longrightarrow> set peers \<subseteq> set (ws_conns s) \<Longrightarrow>
    \<exists>w. foldl (\<lambda>s q. send_binary os q data s) s peers = s\<lparr>ws_world := w\<rparr> \<and>
      (\<forall>q \<in> set (ws_conns s). sent (cn_fd (ws_heap s q)) w =
         sent (cn_fd (ws_heap s q)) (ws_world s) @ (if q \<in> set peers then build_frame op_binary data else []))"
  using assms(2,3)
proof (induction peers arbitrary: s)
  case (Cons c peers)
  obtain w where w: "send_binary os c data s = s\<lparr>ws_world := w\<rparr>"
    "\<forall>fd. sent fd w = sent fd (ws_world s) @ (if fd = cn_fd (ws_heap s c) then build_frame op_binary data else [])"
    using wire_send_binary [OF assms(1), of c s data] Cons.prems by auto
  obtain w2 where w2: "foldl (\<lambda>s q. send_binary os q data s) (s\<lparr>ws_world := w\<rparr>) peers = s\<lparr>ws_world := w2\<rparr>"
    "\<forall>q \<in> set (ws_conns s). sent (cn_fd (ws_heap s q)) w2 =
       sent (cn_fd (ws_heap s q)) w @ (if q \<in> set peers then build_frame op_binary data else [])"
    using Cons.IH [of "s\<lparr>ws_world := w\<rparr>"] Cons.prems by auto
  have "cn_fd (ws_heap s q) = cn_fd (ws_heap s c) \<longleftrightarrow> q = c" if "q \<in> set (ws_conns s)" for q
    using Cons.prems(2,3) that by (auto dest: inj_onD)
  with w w2 Cons.prems(1) show ?case by auto
next
  case (Nil s)
  show ?case by (rule exI [of _ "ws_world s"]) simp
qed

lemma publish_peers_distinct: "distinct ls \<Longrightarrow> distinct (publish_peers addr ls)"
  by (auto simp: publish_peers_eq distinct_map inj_on_def)

lemma publish_to_listeners:
  assumes "wire_log (en_os en) sent" "registry_inv (registry_of p)"
    and "\<forall>q x. listens_to (registry_of p) q x \<longrightarrow> q \<in> set (ws_conns (pl_ws p))"
    and "inj_on (\<lambda>q. cn_fd (ws_heap (pl_ws p) q)) (set (ws_conns (pl_ws p)))"
    and "\<forall>q \<in> set (ws_conns (pl_ws p)). cn_open (ws_heap (pl_ws p) q)" "q \<in> set (ws_conns (pl_ws p))"
  shows "sent (cn_fd (ws_heap (pl_ws p) q)) (world (snd (osc_publish en addr data p))) =
    sent (cn_fd (ws_heap (pl_ws p) q)) (world p) @
      (if listens_to (registry_of p) q addr then build_frame op_binary data else [])"
proof -
  let ?peers = "publish_peers addr (listeners (registry_of p))"
  have "distinct ?peers" using assms(2) by (simp add: registry_inv_def publish_peers_distinct)
  moreover have "set ?peers \<subseteq> set (ws_conns (pl_ws p))" using assms(3) publish_peers_listens by blast
  ultimately obtain w where w: "foldl (\<lambda>s q. send_binary (en_os en) q data s) (pl_ws p) ?peers = (pl_ws p)\<lparr>ws_world := w\<rparr>"
    "\<forall>q \<in> set (ws_conns (pl_ws p)). sent (cn_fd (ws_heap (pl_ws p) q)) w =
       sent (cn_fd (ws_heap (pl_ws p) q)) (ws_world (pl_ws p)) @ (if q \<in> set ?peers then build_frame op_binary data else [])"
    using wire_publish [OF assms(1,4,5)] by meson
  then show ?thesis
    using assms(6) by (simp add: osc_publish_def Let_def world_def publish_peers_listens)
qed

text \<open>A LISTEN adds the client to those that get the events of the address, once.\<close>

lemma handle_listen:
  assumes "js_parse env (c_str (to_string message)) = Some d"
    and "js_string env d ''COMMAND'' = ''LISTEN''" "js_string env d ''DATA'' = addr"
    and "pattern_ok addr" "hd addr = CHR ''/''" "length (listeners reg) < max_listeners"
  shows "listens_to (handle_text env c message reg) q x \<longleftrightarrow> q = c \<and> x = addr \<or> listens_to reg q x"
proof -
  have "(\<exists>l \<in> set (listeners reg). lis_peer l = c \<and> lis_path l = addr) \<longleftrightarrow> listens_to reg c addr"
    by (auto simp: listens_to_def listener_eq)
  moreover have "handle_text env c message reg = osc_listen_add c addr reg"
    using assms(1-5) by (simp add: handle_text_def pattern_ok_def)
  ultimately show ?thesis
    using assms(4,6) by (auto simp: osc_listen_add_def pattern_ok_def listens_to_def)
qed

lemma client_reads_event:
  assumes "stream_socket os fd pending" "wire_element m" "length (enc_message m) \<le> max_message"
    and "pending v = build_frame op_binary (enc_message m) @ rest"
  shows "\<exists>hdr v1 v2. read_header os fd v = (Some hdr, v1) \<and> fh_opcode hdr = op_binary \<and> fh_fin hdr \<and>
    read_masked_payload os fd hdr v1 = (Some (enc_message m), v2) \<and> pending v2 = rest \<and>
    osc_parse_packet (enc_message m) [] = Some (True, [m])"
proof -
  have "osc_parse_packet (enc_message m) [] = Some (True, [m])"
    using osc_parse_packet_build [of m "[]"] assms(2) by (simp add: wire_element_def enc_message_def)
  with read_server_frame [OF assms(1) _ assms(3,4)] show ?thesis by (auto simp: op_binary_def)
qed

end
