(* ===== verification/OscTopics.thy ===== *)
theory OscTopics
  imports OscSubscribe
begin

text \<open>
  The abstract specification of the subscriber registry (\<^verbatim>\<open>osc-subscribe.cpp\<close>): a table that gives
  every client its topics, with a bound on the clients and on the topics of each.  The registry
  refines it, command by command: what the list of subscribers with its search loops computes is
  what the table says, the events it publishes are those whose address a topic matches, and the
  lock-free counter tells whether anybody is in it.
\<close>

subsection \<open>The table\<close>

record topic_table =
  tb_topics :: "osc_endpoint \<Rightarrow> string list"
  tb_clients :: nat

definition empty_table :: topic_table where
  "empty_table = \<lparr>tb_topics = (\<lambda>_. []), tb_clients = 0\<rparr>"

definition set_topics :: "osc_endpoint \<Rightarrow> string list \<Rightarrow> topic_table \<Rightarrow> topic_table" where
  "set_topics who ts T = T\<lparr>tb_topics := (\<lambda>k. if endpoint_equal who k then ts else tb_topics T k)\<rparr>"

definition table_subscribe :: "osc_endpoint \<Rightarrow> string \<Rightarrow> topic_table \<Rightarrow> topic_table" where
  "table_subscribe who p T =
     (let ts = tb_topics T who
      in if \<not> pattern_ok p then T
         else if ts = [] then
           (if tb_clients T < max_subscribers then (set_topics who [p] T)\<lparr>tb_clients := tb_clients T + 1\<rparr> else T)
         else if p \<in> set ts \<or> max_patterns \<le> length ts then T
         else set_topics who (ts @ [p]) T)"

definition table_unsubscribe :: "osc_endpoint \<Rightarrow> string option \<Rightarrow> topic_table \<Rightarrow> topic_table" where
  "table_unsubscribe who pattern T =
     (let ts = tb_topics T who;
          left = (case pattern of None \<Rightarrow> [] | Some p \<Rightarrow> remove1 p ts)
      in if ts = [] then T
         else if left = [] then (set_topics who [] T)\<lparr>tb_clients := tb_clients T - 1\<rparr>
         else set_topics who left T)"

definition table_command :: "osc_message \<Rightarrow> osc_endpoint \<Rightarrow> bool \<Rightarrow> topic_table \<Rightarrow> topic_table" where
  "table_command msg who unsubscribe T =
     (let topic = (if args msg \<noteq> [] \<and> arg_type (args msg ! 0) = CHR ''s'' then Some (arg_s (args msg ! 0)) else None)
      in if unsubscribe then table_unsubscribe who (map_option c_str topic) T
         else (case topic of None \<Rightarrow> T | Some p \<Rightarrow> table_subscribe who p T))"

subsection \<open>The registry implements it\<close>

definition table_of :: "registry \<Rightarrow> topic_table" where
  "table_of reg = \<lparr>tb_topics = (\<lambda>k. topics k (subscribers reg)), tb_clients = length (subscribers reg)\<rparr>"

definition registry_ok :: "registry \<Rightarrow> bool" where
  "registry_ok reg \<longleftrightarrow> registry_inv reg \<and> unique_endpoints (subscribers reg)"

lemma registry_ok_new: "registry_ok new_registry \<and> table_of new_registry = empty_table"
  by (simp add: registry_ok_def) (simp add: new_registry_def table_of_def empty_table_def)

lemma topics_none_iff:
  assumes "\<forall>sub \<in> set subs. subscriber_ok sub"
  shows "topics who subs = [] \<longleftrightarrow> (\<forall>s \<in> set subs. \<not> endpoint_equal (sub_endpoint s) who)"
  using assms by (induction subs) (auto simp: subscriber_ok_def)

lemma length_subscribe_existing:
  "subscribe_existing who p port subs = Some subs' \<Longrightarrow> length subs' = length subs"
  by (induction subs arbitrary: subs') (auto simp: Let_def split: if_splits)

lemma length_unsubscribe_first:
  "unsubscribe_first who pattern subs = (subs', gone) \<Longrightarrow>
   length subs' = length subs - (if gone then 1 else 0) \<and>
   (gone \<longleftrightarrow> (\<exists>s \<in> set subs. endpoint_equal (sub_endpoint s) who) \<and>
     (case pattern of None \<Rightarrow> [] | Some p \<Rightarrow> remove1 p (topics who subs)) = [])"
proof (induction subs arbitrary: subs' gone)
  case (Cons sub subs)
  show ?case
  proof (cases "endpoint_equal (sub_endpoint sub) who")
    case True
    with Cons.prems show ?thesis by (cases pattern) (auto simp: Let_def split: if_splits)
  next
    case False
    obtain rest g where r: "unsubscribe_first who pattern subs = (rest, g)" by fastforce
    have "length subs \<noteq> 0" if g using Cons.IH [OF r] that by auto
    with Cons.IH [OF r] Cons.prems False r show ?thesis by (auto split: option.splits)
  qed
qed auto

lemma subscribe_refines:
  assumes "registry_ok reg" "inet_endpoint who"
  shows "table_of (osc_subscribe_add who p 0 reg) = table_subscribe who p (table_of reg)"
proof (cases "subscribe_existing who p 0 (subscribers reg)")
  case None
  then have n: "\<forall>s \<in> set (subscribers reg). \<not> endpoint_equal (sub_endpoint s) who"
    by (simp add: subscribe_existing_None)
  then have t: "topics k (subscribers reg) = []" if "endpoint_equal who k" for k
    using that endpoint_equal_class endpoint_equal_sym by (intro topics_none) blast
  have a: "topics k (subscribers reg @ [\<lparr>sub_endpoint = who, sub_patterns = [p]\<rparr>]) =
      (if endpoint_equal who k then [p] else topics k (subscribers reg))" for k
    using t [of k] topics_none [of "subscribers reg" k] n endpoint_equal_class [of who k]
    by (auto simp: topics_append) (metis endpoint_equal_sym endpoint_equal_trans)+
  from topics_none [OF n] None show ?thesis
    by (auto simp: table_of_def table_subscribe_def osc_subscribe_add_def pattern_ok_def set_topics_def a)
next
  case (Some subs)
  then have "\<exists>s \<in> set (subscribers reg). endpoint_equal (sub_endpoint s) who"
    by (metis option.distinct(1) subscribe_existing_None)
  then have t: "topics who (subscribers reg) \<noteq> []"
    using assms(1) topics_none_iff by (simp add: registry_ok_def registry_inv_def)
  have same: "topics k (subscribers reg) = topics who (subscribers reg)" if "endpoint_equal who k" for k
    using that unfolding topics_def by (metis (no_types, lifting) endpoint_equal_class endpoint_equal_sym)
  from Some topics_subscribe_existing [OF Some] length_subscribe_existing [OF Some] t same show ?thesis
    by (auto simp: table_of_def table_subscribe_def osc_subscribe_add_def pattern_ok_def set_topics_def Let_def not_less
        intro!: ext)
qed

lemma unsubscribe_refines:
  assumes "registry_ok reg"
  shows "table_of (osc_subscribe_remove who pattern reg) = table_unsubscribe who pattern (table_of reg)"
proof -
  let ?subs = "subscribers reg"
  obtain subs gone where u: "unsubscribe_first who pattern ?subs = (subs, gone)" by fastforce
  have ok: "\<forall>sub \<in> set ?subs. subscriber_ok sub" "unique_endpoints ?subs"
    using assms by (simp_all add: registry_ok_def registry_inv_def)
  note l = length_unsubscribe_first [OF u] and t = topics_unsubscribe [OF u ok(2)]
  have same: "topics k ?subs = topics who ?subs" if "endpoint_equal who k" for k
    using that unfolding topics_def by (metis (no_types, lifting) endpoint_equal_class endpoint_equal_sym)
  have "table_of (osc_subscribe_remove who pattern reg) =
      \<lparr>tb_topics = (\<lambda>k. topics k subs), tb_clients = length subs\<rparr>"
    by (simp add: table_of_def osc_subscribe_remove_def u)
  then show ?thesis
    using l t same topics_none_iff [OF ok(1), of who]
    by (auto simp: table_of_def table_unsubscribe_def set_topics_def Let_def split: option.splits intro!: ext)
qed

lemma command_refines:
  assumes "registry_ok reg" "inet_endpoint who" "unsubscribe \<or> subscription_port oor msg = 0"
  shows "registry_ok (osc_handle_subscription oor msg who unsubscribe reg) \<and>
    table_of (osc_handle_subscription oor msg who unsubscribe reg) = table_command msg who unsubscribe (table_of reg)"
proof -
  have inv: "registry_inv (osc_handle_subscription oor msg who unsubscribe reg)"
    using assms(1) by (simp add: registry_ok_def registry_inv_handle_subscription)
  have u: "unique_endpoints (subscribers (osc_subscribe_remove who q reg))" for q
    using assms(1) unsubscribe_first_keep
    by (fastforce simp: registry_ok_def osc_subscribe_remove_def split: prod.splits)
  have s: "unique_endpoints (subscribers (osc_subscribe_add who q 0 reg))" for q
    using assms(1) by (simp add: registry_ok_def unique_subscribe_add)
  have "table_subscribe who [] T = T" for T
    by (simp add: table_subscribe_def pattern_ok_def)
  with assms inv u s subscribe_refines [OF assms(1,2)] unsubscribe_refines [OF assms(1)] show ?thesis
    by (auto simp: registry_ok_def osc_handle_subscription_def table_command_def)
qed

text \<open>A history of subscription commands: the message, its sender and whether it unsubscribes.\<close>

type_synonym subscription_history = "(osc_message \<times> osc_endpoint \<times> bool) list"

definition plain_history :: "(f32 \<Rightarrow> int32) \<Rightarrow> subscription_history \<Rightarrow> bool" where
  "plain_history oor cmds \<longleftrightarrow>
     (\<forall>(msg, who, unsubscribe) \<in> set cmds. inet_endpoint who \<and> (unsubscribe \<or> subscription_port oor msg = 0))"

definition registry_after :: "(f32 \<Rightarrow> int32) \<Rightarrow> subscription_history \<Rightarrow> registry \<Rightarrow> registry" where
  "registry_after oor cmds reg =
     foldl (\<lambda>reg (msg, who, unsubscribe). osc_handle_subscription oor msg who unsubscribe reg) reg cmds"

definition table_after :: "subscription_history \<Rightarrow> topic_table \<Rightarrow> topic_table" where
  "table_after cmds T = foldl (\<lambda>T (msg, who, unsubscribe). table_command msg who unsubscribe T) T cmds"

lemma history_refines:
  "registry_ok reg \<Longrightarrow> plain_history oor cmds \<Longrightarrow>
   registry_ok (registry_after oor cmds reg) \<and> table_of (registry_after oor cmds reg) = table_after cmds (table_of reg)"
proof (induction cmds arbitrary: reg)
  case (Cons cmd cmds)
  obtain msg who unsubscribe where c: "cmd = (msg, who, unsubscribe)" using prod_cases3 by blast
  with Cons.prems have "inet_endpoint who" "unsubscribe \<or> subscription_port oor msg = 0" "plain_history oor cmds"
    by (auto simp: plain_history_def)
  with command_refines [OF Cons.prems(1)] Cons.IH c show ?case
    by (simp add: registry_after_def table_after_def)
qed (simp add: registry_after_def table_after_def)

lemma published_topics:
  assumes "registry_ok reg"
  shows "(\<exists>e \<in> set (publish_targets addr (subscribers reg)). endpoint_equal e whom) \<longleftrightarrow>
      (\<exists>p \<in> set (tb_topics (table_of reg) whom). osc_glob_match (c_str p) addr)"
    and "osc_has_subscribers reg \<longleftrightarrow> tb_clients (table_of reg) \<noteq> 0"
  using assms publish_targets_topics
  by (simp_all add: registry_ok_def registry_inv_def table_of_def osc_has_subscribers_def)

end
