(* ===== verification/OscSubscriber.thy ===== *)
theory OscSubscriber
  imports OscEndToEnd OscTopics
begin

text \<open>
  A subscription from end to end: the datagram with the subscription comes in (\<^verbatim>\<open>osc-server.cpp\<close>),
  waits as a task for the UI thread (\<^verbatim>\<open>plugin.cpp\<close>), enters the registry (\<^verbatim>\<open>osc-subscribe.cpp\<close>); a
  signal of OBS publishes an event (\<^verbatim>\<open>osc-feedback.cpp\<close>), which is queued for the client and handed
  to \<^verbatim>\<open>sendto\<close>, also when the server is stopped right behind it.
\<close>

subsection \<open>The subscription arrives\<close>

definition subscribe_message :: "string \<Rightarrow> osc_message" where
  "subscribe_message topic = \<lparr>address = addr_subscribe, args = [osc_str topic]\<rparr>"

lemma receive_keeps:
  assumes "server_inv (pl_server p)" "sv_running (pl_server p)" "wire_element m"
  shows "\<exists>sv. receive_event (Some (enc_message m, ss, slen)) (p, ts) =
    (p\<lparr>pl_server := sv\<rparr>, ts @ [([m], \<lparr>ep_addr = ss, ep_len = slen\<rparr>)]) \<and>
    server_inv sv \<and> sv_running sv \<and> sv_send_queue sv = sv_send_queue (pl_server p) \<and> sv_fd sv = sv_fd (pl_server p)"
proof -
  have s: "sv_fd (pl_server p) \<noteq> invalid_socket" "sv_handler (pl_server p)"
    using assms(1,2) by (simp_all add: server_inv_def)
  then obtain sv where sv: "receive_event (Some (enc_message m, ss, slen)) (p, ts) =
      (p\<lparr>pl_server := sv\<rparr>, ts @ [([m], \<lparr>ep_addr = ss, ep_len = slen\<rparr>)])"
    using receive_message [OF assms(2) s(1,2) assms(3)] by blast
  then have "pl_server (fst (receive_event (Some (enc_message m, ss, slen)) (p, ts))) = sv" by simp
  then have "sv = (pl_server p)\<lparr>sv_last_sender := ss, sv_last_sender_len := slen, sv_have_sender := True\<rparr>"
    using assms(2) s by (simp add: receive_event_def recv_pass_def Let_def)
  with sv assms(1,2) show ?thesis by (auto simp: server_inv_def)
qed

lemma subscribe_task:
  "run_ui_task en ([subscribe_message topic], who) p =
     p\<lparr>pl_ws := (pl_ws p)\<lparr>ws_reg :=
       osc_handle_subscription (lm_oor (en_lm en)) (subscribe_message topic) who False (registry_of p)\<rparr>\<rparr>"
  by (simp add: run_ui_task_def osc_dispatch_command_def subscribe_message_def Let_def has_prefix_def
      compare_prefix_def addr_defs)

text \<open>There is room for the topic: for a new client, or in the list of a known one.\<close>

definition room_for :: "osc_endpoint \<Rightarrow> topic_table \<Rightarrow> bool" where
  "room_for who T \<longleftrightarrow>
     (if tb_topics T who = [] then tb_clients T < max_subscribers else length (tb_topics T who) < max_patterns)"

lemma subscribed_topic:
  assumes "registry_ok reg" "inet_endpoint who" "pattern_ok topic" "room_for who (table_of reg)"
  shows "registry_ok (osc_handle_subscription oor (subscribe_message topic) who False reg) \<and>
    topic \<in> set (tb_topics (table_of (osc_handle_subscription oor (subscribe_message topic) who False reg)) who)"
proof -
  have "subscription_port oor (subscribe_message topic) = 0"
    by (simp add: subscription_port_def subscribe_message_def)
  with command_refines [OF assms(1,2), of False oor "subscribe_message topic"] assms(2-4) show ?thesis
    by (auto simp: table_command_def subscribe_message_def osc_str_def table_subscribe_def set_topics_def room_for_def
        endpoint_equal_refl Let_def)
qed

subsection \<open>The event leaves\<close>

lemma length_publish_targets: "length (publish_targets addr subs) \<le> length subs"
  by (induction subs) auto

lemma last_n_all: "length ys \<le> n \<Longrightarrow> set ys \<subseteq> set (last_n n (xs @ ys))"
  by (auto simp: last_n_def)

text \<open>All datagrams of one event fit into the queue.\<close>

lemma event_queued:
  assumes "registry_inv (registry_of p)" "cf_feedback_enabled (pl_config p)" "can_queue (pl_server p)"
    and "k \<in> set (event_packets addr (osc_build_message [] addr as) p)" "sendable k"
  shows "k \<in> set (sv_send_queue (pl_server (osc_feedback_send en addr as p)))"
proof -
  let ?ps = "event_packets addr (osc_build_message [] addr as) p"
  have "length (filter sendable ?ps) \<le> length ?ps" by (rule length_filter_le)
  also have "\<dots> \<le> length (subscribers (registry_of p)) + 2"
    using length_publish_targets [of addr "subscribers (registry_of p)"] by (simp add: event_packets_def)
  also have "\<dots> \<le> max_send_queue" using assms(1) by (simp add: registry_inv_def registry_bounds max_send_queue_def)
  finally have "set (filter sendable ?ps) \<subseteq>
      set (last_n max_send_queue (sv_send_queue (pl_server p) @ filter sendable ?ps))" by (rule last_n_all)
  with assms(4,5) feedback_queue [OF assms(1-3), of en addr as] show ?thesis by auto
qed

text \<open>What \<^verbatim>\<open>sendto\<close> documents: \<open>wire\<close> is what has been handed to it; closing the socket sends nothing.\<close>

definition datagram_wire :: "'w os_api \<Rightarrow> ('w \<Rightarrow> (bytes \<times> sockaddr \<times> nat) list) \<Rightarrow> bool" where
  "datagram_wire os wire \<longleftrightarrow>
     (\<forall>fd d a l w. wire (os_sendto os fd d a l w) = wire w @ [(d, a, l)]) \<and>
     (\<forall>fd w. wire (close_wake os fd w) = wire w) \<and> (\<forall>w. wire (net_cleanup os w) = wire w)"

lemma deliver_wire:
  assumes "datagram_wire os wire"
  shows "wire (deliver os fd ps w) = wire w @ map (\<lambda>k. (pk_data k, pk_target k, pk_target_len k)) ps"
  using assms by (induction ps arbitrary: w) (simp_all add: deliver_def datagram_wire_def)

lemma stop_wire:
  assumes "datagram_wire os wire" "sv_running s" "sv_fd s \<noteq> invalid_socket"
  shows "wire (snd (server_stop os s w)) =
    wire w @ map (\<lambda>k. (pk_data k, pk_target k, pk_target_len k)) (sv_send_queue s)"
  using assms(1) deliver_wire [OF assms(1)] by (simp add: server_stop_running [OF assms(2,3)] datagram_wire_def)

subsection \<open>From the subscription to the event\<close>

text \<open>The plugin after a subscription datagram has come in and the UI thread has run the tasks.\<close>

definition after_subscription :: "('w, 'd) env \<Rightarrow> string \<Rightarrow> osc_endpoint \<Rightarrow> 'w plugin \<Rightarrow> 'w plugin" where
  "after_subscription en topic who p =
     (case receive_event (Some (enc_message (subscribe_message topic), ep_addr who, ep_len who)) (p, []) of
        (p1, tasks) \<Rightarrow> foldl (\<lambda>p task. run_ui_task en task p) p1 tasks)"

lemma after_subscription_state:
  assumes "server_inv (pl_server p)" "sv_running (pl_server p)" "wire_element (subscribe_message topic)"
  obtains sv where "after_subscription en topic who p =
      p\<lparr>pl_server := sv, pl_ws := (pl_ws p)\<lparr>ws_reg :=
        osc_handle_subscription (lm_oor (en_lm en)) (subscribe_message topic) who False (registry_of p)\<rparr>\<rparr>"
    "server_inv sv" "sv_running sv"
proof -
  obtain sv where "receive_event (Some (enc_message (subscribe_message topic), ep_addr who, ep_len who)) (p, []) =
      (p\<lparr>pl_server := sv\<rparr>, [([subscribe_message topic], who)])" "server_inv sv" "sv_running sv"
    using receive_keeps [OF assms, of "ep_addr who" "ep_len who" "[]"] by auto
  then show thesis using that [of sv] by (simp add: after_subscription_def subscribe_task)
qed

lemma feedback_running:
  assumes "registry_inv (registry_of p)" "cf_feedback_enabled (pl_config p)"
  shows "sv_running (pl_server (osc_feedback_send en addr as p)) = sv_running (pl_server p)"
    "sv_fd (pl_server (osc_feedback_send en addr as p)) = sv_fd (pl_server p)"
proof -
  have "sv_running (foldl (\<lambda>s p. push_packet p s) s ps) = sv_running s \<and> sv_fd (foldl (\<lambda>s p. push_packet p s) s ps) = sv_fd s"
    for s ps by (induction ps arbitrary: s) (simp_all add: push_packet_def enqueue_frame)
  then show "sv_running (pl_server (osc_feedback_send en addr as p)) = sv_running (pl_server p)"
    "sv_fd (pl_server (osc_feedback_send en addr as p)) = sv_fd (pl_server p)"
    by (simp_all add: feedback_server [OF assms])
qed

lemma subscriber_hears:
  assumes "server_inv (pl_server p)" "sv_running (pl_server p)" "registry_ok (registry_of p)"
    and "cf_feedback_enabled (pl_config p)" "datagram_wire (en_os en) wire"
    and "inet_endpoint who" "pattern_ok topic" "room_for who (table_of (registry_of p))"
    and "wire_element (subscribe_message topic)" "osc_glob_match (c_str topic) (mute_for n)"
    and "ob_name (en_obs en) x (world p) = n"
  shows "let p2 = mute_signal_cb en x (Some b) (after_subscription en topic who p)
    in \<exists>e. endpoint_equal e who \<and>
      (enc_message \<lparr>address = mute_for n, args = [osc_bool b]\<rparr>, ep_addr e, ep_len e) \<in>
        set (wire (snd (server_stop (en_os en) (pl_server p2) (world p2))))"
proof -
  let ?reg = "osc_handle_subscription (lm_oor (en_lm en)) (subscribe_message topic) who False (registry_of p)"
  let ?m = "\<lparr>address = mute_for n, args = [osc_bool b]\<rparr>"
  obtain sv where p1: "after_subscription en topic who p = p\<lparr>pl_server := sv, pl_ws := (pl_ws p)\<lparr>ws_reg := ?reg\<rparr>\<rparr>"
    and sv: "server_inv sv" "sv_running sv" by (rule after_subscription_state [OF assms(1,2,9)])
  define q where "q = after_subscription en topic who p"
  have reg: "registry_ok ?reg" "topic \<in> set (tb_topics (table_of ?reg) who)"
    using subscribed_topic [OF assms(3,6-8)] by simp_all
  then obtain e where e: "e \<in> set (publish_targets (mute_for n) (subscribers ?reg))" "endpoint_equal e who"
    using published_topics(1) [OF reg(1), of "mute_for n" who] assms(10) by blast
  let ?k = "packet_to (enc_message ?m) e"
  have qs: "registry_of q = ?reg" "pl_server q = sv" "pl_config q = pl_config p" "world q = world p"
    by (simp_all add: q_def p1 world_def)
  have q: "registry_inv (registry_of q)" "cf_feedback_enabled (pl_config q)" "can_queue (pl_server q)"
    using reg(1) assms(4) sv by (simp_all add: qs registry_ok_def can_queue_def server_inv_def)
  have "sendable ?k"
    using e(2) length_build_ge [of "mute_for n" "[osc_bool b]"]
    by (auto simp: sendable_def packet_to_def endpoint_equal_def enc_message_def split: if_splits)
  moreover have "?k \<in> set (event_packets (mute_for n) (osc_build_message [] (mute_for n) [osc_bool b]) q)"
    using e(1) by (simp add: event_packets_def qs enc_message_def)
  ultimately have k: "?k \<in> set (sv_send_queue (pl_server (mute_signal_cb en x (Some b) q)))"
    using event_queued [OF q] assms(11) by (simp add: mute_signal_cb_def qs)
  have "sv_running (pl_server (mute_signal_cb en x (Some b) q))" "sv_fd (pl_server (mute_signal_cb en x (Some b) q)) \<noteq> invalid_socket"
    using feedback_running [OF q(1,2), of en] sv by (simp_all add: mute_signal_cb_def qs server_inv_def)
  from stop_wire [OF assms(5) this] k e(2) show ?thesis
    unfolding q_def [symmetric] Let_def by (auto simp: packet_to_def intro!: exI [of _ e] rev_image_eqI)
qed

end
