(* ===== verification/OscLifecycle.thy ===== *)
theory OscLifecycle
  imports OscSettings
begin

text \<open>
  The contract \<^verbatim>\<open>osc-net.h\<close> states for the users of sockets: every start and stop pair calls
  \<^verbatim>\<open>init()\<close> and \<^verbatim>\<open>cleanup()\<close> symmetrically.  The locale \<open>socket_user\<close> states it of a service that is
  started and stopped; the UDP transport (\<^verbatim>\<open>osc-server.cpp\<close>) and the OSCQuery service
  (\<^verbatim>\<open>osc-query.cpp\<close>) are interpretations, and changing the settings (\<^verbatim>\<open>plugin.cpp\<close>), with its
  restarts and roll-backs, keeps the two in balance.
\<close>

subsection \<open>The interface\<close>

text \<open>\<open>uses\<close> counts the start-ups that have not been cleaned up; \<open>lawful\<close> is what the calls of the
  system document.\<close>

locale socket_user =
  fixes start :: "'a \<Rightarrow> 'c \<Rightarrow> bool \<times> 'c"
    and stop :: "'c \<Rightarrow> 'c"
    and running :: "'c \<Rightarrow> bool"
    and uses :: "'c \<Rightarrow> int"
    and lawful :: bool
  assumes start_uses: "lawful \<Longrightarrow> start a c = (ok, c') \<Longrightarrow>
      (ok \<longleftrightarrow> running c') \<and> uses c' = uses c + of_bool (running c') - of_bool (running c)"
    and stop_uses: "lawful \<Longrightarrow> \<not> running (stop c) \<and> uses (stop c) = uses c - of_bool (running c)"
begin

text \<open>A history of starts (with their arguments) and stops.\<close>

lemma history_uses:
  "lawful \<Longrightarrow>
   uses (foldl (\<lambda>c x. case x of None \<Rightarrow> stop c | Some a \<Rightarrow> snd (start a c)) c xs) -
     of_bool (running (foldl (\<lambda>c x. case x of None \<Rightarrow> stop c | Some a \<Rightarrow> snd (start a c)) c xs)) =
   uses c - of_bool (running c)"
proof (induction xs arbitrary: c)
  case (Cons x xs)
  have "uses (snd (start a c)) - of_bool (running (snd (start a c))) = uses c - of_bool (running c)" for a
    using start_uses [OF Cons.prems, of a c "fst (start a c)" "snd (start a c)"] by simp
  moreover have "uses (stop c) - of_bool (running (stop c)) = uses c - of_bool (running c)"
    using stop_uses [OF Cons.prems, of c] by simp
  ultimately have "uses (case x of None \<Rightarrow> stop c | Some a \<Rightarrow> snd (start a c)) -
      of_bool (running (case x of None \<Rightarrow> stop c | Some a \<Rightarrow> snd (start a c))) = uses c - of_bool (running c)"
    by (cases x) simp_all
  with Cons show ?case by simp
qed simp

lemma restart_uses:
  assumes "lawful" "start a (stop c) = (ok, c')"
  shows "uses c' - of_bool (running c') = uses c - of_bool (running c)" "ok \<longleftrightarrow> running c'"
  using start_uses [OF assms] stop_uses [OF assms(1), of c] by simp_all

end

subsection \<open>The calls of the system\<close>

text \<open>On Winsock \<open>u\<close> goes up with each start-up that succeeds and down with each clean-up; no other call
  changes it.\<close>

definition counted_sockets :: "'w os_api \<Rightarrow> ('w \<Rightarrow> int) \<Rightarrow> bool" where
  "counted_sockets os u \<longleftrightarrow>
     (\<exists>wsa. os_wsa os = Some wsa \<and> (\<forall>w. u (snd (wsa_startup wsa w)) = u w + of_bool (fst (wsa_startup wsa w) = 0)) \<and>
        (\<forall>w. u (wsa_cleanup wsa w) = u w - 1)) \<and>
     (\<forall>dns. os_dns os = Some dns \<longrightarrow>
        (\<forall>n t port w. u (snd (dns_register dns n t port w)) = u w) \<and> (\<forall>r w. u (dns_deallocate dns r w) = u w)) \<and>
     (\<forall>t w. u (snd (os_socket os t w)) = u w) \<and> (\<forall>fd w. u (os_reuseaddr os fd w) = u w) \<and>
     (\<forall>fd port w. u (snd (os_bind os fd port w)) = u w) \<and> (\<forall>fd n w. u (snd (os_listen os fd n w)) = u w) \<and>
     (\<forall>fd w. u (os_shutdown os fd w) = u w) \<and> (\<forall>fd w. u (os_close os fd w) = u w) \<and>
     (\<forall>fd d t l w. u (os_sendto os fd d t l w) = u w)"

lemma counted_socketsD:
  assumes "counted_sockets os u"
  shows "\<And>w ok w'. net_init os w = (ok, w') \<Longrightarrow> u w' = u w + of_bool ok" "\<And>w. u (net_cleanup os w) = u w - 1"
    "\<And>fd w. u (close_wake os fd w) = u w"
    "\<And>port type backlog w fd w'. bind_listen os port type backlog w = (fd, w') \<Longrightarrow> u w' = u w"
    "\<And>fd d t l w. u (os_sendto os fd d t l w) = u w"
    "\<And>port r w r' w'. osc_bonjour_register os port r w = (r', w') \<Longrightarrow> u w' = u w"
    "\<And>r w r' w'. osc_bonjour_unregister os r w = (r', w') \<Longrightarrow> u w' = u w"
proof -
  note f = assms [unfolded counted_sockets_def]
  obtain wsa where wsa: "os_wsa os = Some wsa"
    "\<And>w. u (snd (wsa_startup wsa w)) = u w + of_bool (fst (wsa_startup wsa w) = 0)" "\<And>w. u (wsa_cleanup wsa w) = u w - 1"
    using conjunct1 [OF f] by auto
  have dns: "u (snd (dns_register dns n t port w)) = u w" "u (dns_deallocate dns r w) = u w"
    if "os_dns os = Some dns" for dns n t port r w
    using f that by simp_all
  show "u w' = u w + of_bool ok" if "net_init os w = (ok, w')" for w ok w'
    using that wsa(2) [of w] by (auto simp: net_init_def wsa(1) split: prod.splits)
  show "u (net_cleanup os w) = u w - 1" for w by (simp add: net_cleanup_def wsa(1,3))
  show "u (os_sendto os fd d t l w) = u w" for fd d t l w using f by simp
  show "u w' = u w" if "osc_bonjour_register os port r w = (r', w')" for port r w r' w'
    using that dns(1) [of _ _ _ _ w]
    by (auto simp: osc_bonjour_register_def split: option.splits prod.splits sum.splits) (metis snd_conv)+
  show "u w' = u w" if "osc_bonjour_unregister os r w = (r', w')" for r w r' w'
    using that dns(2) by (auto simp: osc_bonjour_unregister_def split: option.splits)
  have c: "u (close_socket os fd w) = u w" for fd w using f by (simp add: close_socket_def)
  show "u (close_wake os fd w) = u w" for fd w using f by (simp add: close_wake_def c)
  have b: "u (snd (bind_listen os port type backlog w)) = u w" for port type backlog w
    using f by (simp add: bind_listen_def Let_def c case_prod_beta)
  show "u w' = u w" if "bind_listen os port type backlog w = (fd, w')" for port type backlog w fd w'
    using b [of port type backlog w] that by simp
qed

lemma send_loop_uses:
  "counted_sockets os u \<Longrightarrow> send_loop os s w = (s', w') \<Longrightarrow> u w' = u w \<and> sv_running s' = sv_running s"
proof (induction os s w rule: send_loop.induct)
  case (1 os s w)
  show ?case
  proof (cases "\<exists>s1 w1. send_pass os s w = Some (SendOne s1 w1)")
    case True
    then obtain s1 w1 where p: "send_pass os s w = Some (SendOne s1 w1)" by blast
    then have "u w1 = u w \<and> sv_running s1 = sv_running s"
      using counted_socketsD(5) [OF "1.prems"(1)] by (auto simp: send_pass_def Let_def split: if_splits list.splits)
    with "1.IH" [OF p refl "1.prems"(1)] "1.prems"(2) p show ?thesis
      by (simp add: send_loop.simps [of os s w])
  next
    case False
    then have "send_loop os s w = (s, w)"
      by (simp add: send_loop.simps [of os s w] split: option.splits send_result.splits)
    with "1.prems"(2) show ?thesis by simp
  qed
qed

lemma server_start_uses:
  assumes "counted_sockets os u" "server_start os port s w = (ok, s', w')"
  shows "(ok \<longleftrightarrow> sv_running s') \<and> u w' = u w + of_bool (sv_running s') - of_bool (sv_running s)"
proof -
  obtain i w1 where i: "net_init os w = (i, w1)" by fastforce
  obtain fd w2 where l: "listen_udp os port w1 = (fd, w2)" by fastforce
  have "u w2 = u w1" using l counted_socketsD(4) [OF assms(1)] unfolding listen_udp_def by blast
  with assms(2) i l counted_socketsD(1) [OF assms(1) i] show ?thesis
    by (auto simp: server_start_def counted_socketsD(2) [OF assms(1)] split: if_splits)
qed

lemma server_stop_uses:
  assumes "counted_sockets os u" "server_stop os s w = (s', w')"
  shows "\<not> sv_running s' \<and> u w' = u w - of_bool (sv_running s)"
proof (cases "sv_running s")
  case True
  obtain s2 w2 where l: "send_loop os (s\<lparr>sv_running := False, sv_send_running := False\<rparr>) w = (s2, w2)" by fastforce
  from send_loop_uses [OF assms(1) l] assms(2) True l show ?thesis
    by (auto simp: server_stop_def Let_def counted_socketsD(2,3) [OF assms(1)])
next
  case False
  with assms(2) show ?thesis by (simp add: server_stop_def)
qed

interpretation udp_user: socket_user "\<lambda>port (s, w). server_start os port s w" "\<lambda>(s, w). server_stop os s w"
    "\<lambda>(s, w). sv_running s" "\<lambda>(s, w). u w" "counted_sockets os u" for os u
proof (unfold_locales, goal_cases)
  case (1 port c ok c')
  then show ?case using server_start_uses [OF 1(1)] by (auto split: prod.splits)
next
  case (2 c)
  then show ?case using server_stop_uses [OF 2] by (auto split: prod.splits)
qed

lemma shutdown_all_uses:
  assumes "counted_sockets os u"
  shows "u (ws_world (shutdown_all os s)) = u (ws_world s)"
proof -
  have c: "u (ws_world (shutdown_conn os c s)) = u (ws_world s)" for c s
    by (simp add: shutdown_conn_def close_conn_def set_conn_def Let_def counted_socketsD(3) [OF assms])
  have "u (ws_world (foldl (\<lambda>s c. shutdown_conn os c s) s cs)) = u (ws_world s)" for cs s
    by (induction cs arbitrary: s) (simp_all add: c)
  then show ?thesis by (simp add: shutdown_all_def)
qed

lemma query_start_uses:
  assumes "counted_sockets os u" "osc_query_start os port udp q w = (ok, q', w')"
  shows "(ok \<longleftrightarrow> qy_running q') \<and> u w' = u w + of_bool (qy_running q') - of_bool (qy_running q)"
proof -
  obtain i w1 where i: "net_init os w = (i, w1)" by fastforce
  obtain b h w2 where h: "osc_http_start os port (qy_http q) w1 = (b, h, w2)" by (metis prod_cases3)
  have "u w2 = u w1"
    using h counted_socketsD(4) [OF assms(1)]
    by (auto simp: osc_http_start_def listen_tcp_def split: if_splits prod.splits)
  with assms(2) i h counted_socketsD(1) [OF assms(1) i] counted_socketsD(6) [OF assms(1)] show ?thesis
    by (auto simp: osc_query_start_def Let_def counted_socketsD(2) [OF assms(1)] split: if_splits prod.splits)
qed

lemma query_stop_uses:
  assumes "counted_sockets os u" "osc_query_stop os q s = (q', s')"
  shows "\<not> qy_running q' \<and> u (ws_world s') = u (ws_world s) - of_bool (qy_running q)"
proof (cases "qy_running q")
  case True
  obtain h s1 where h: "osc_http_stop os (qy_http q) s = (h, s1)" by fastforce
  then have "u (ws_world s1) = u (ws_world s)"
    by (auto simp: osc_http_stop_def Let_def shutdown_all_uses [OF assms(1)] counted_socketsD(3) [OF assms(1)]
        split: if_splits)
  with assms(2) True h counted_socketsD(7) [OF assms(1)] show ?thesis
    by (auto simp: osc_query_stop_def counted_socketsD(2) [OF assms(1)] split: prod.splits)
next
  case False
  with assms(2) show ?thesis by (simp add: osc_query_stop_def)
qed

definition query_start_on ::
  "'w os_api \<Rightarrow> int \<times> int \<Rightarrow> query \<times> 'w ws_state \<Rightarrow> bool \<times> query \<times> 'w ws_state" where
  "query_start_on os ports c =
     (case osc_query_start os (fst ports) (snd ports) (fst c) (ws_world (snd c)) of
        (ok, q, w) \<Rightarrow> (ok, q, (snd c)\<lparr>ws_world := w\<rparr>))"

interpretation query_user: socket_user "query_start_on os" "\<lambda>(q, s). osc_query_stop os q s"
    "\<lambda>(q, s). qy_running q" "\<lambda>(q, s). u (ws_world s)" "counted_sockets os u" for os u
proof (unfold_locales, goal_cases)
  case (1 ports c ok c')
  then show ?case using query_start_uses [OF 1(1)] by (auto simp: query_start_on_def split: prod.splits)
next
  case (2 c)
  then show ?case using query_stop_uses [OF 2] by (auto split: prod.splits)
qed

lemma query_restart_on:
  "osc_query_restart os cfg q s =
     (if cf_query_enabled cfg
      then query_start_on os (http_port_of cfg, cf_port cfg) (osc_query_stop os q s)
      else (True, osc_query_stop os q s))"
  by (simp add: osc_query_restart_def query_start_on_def http_port_of_def Let_def split: prod.splits)

subsection \<open>The two services under changes of the settings\<close>

text \<open>The start-ups no running service accounts for.\<close>

definition unpaired :: "('w \<Rightarrow> int) \<Rightarrow> 'w plugin \<Rightarrow> int" where
  "unpaired u p = u (world p) - of_bool (sv_running (pl_server p)) - of_bool (qy_running (pl_query p))"

definition counted_plugin :: "('w, 'd) env \<Rightarrow> ('w, 'd) module_api \<Rightarrow> ('w \<Rightarrow> int) \<Rightarrow> bool" where
  "counted_plugin en md u \<longleftrightarrow> counted_sockets (en_os en) u \<and>
     (\<forall>d w. u (md_mkdirs md d w) = u w) \<and> (\<forall>d f t b w. u (md_save_json md d f t b w) = u w)"

lemma unpaired_frame [simp]:
  "unpaired u (p\<lparr>pl_config := c\<rparr>) = unpaired u p" "unpaired u (set_query port b p) = unpaired u p"
  "unpaired u (apply_feedback_target en p) = unpaired u p"
  by (simp_all add: unpaired_def world_def set_query_def apply_feedback_target_def set_feedback_target_def Let_def
      split: option.splits)

lemma unpaired_save: "counted_plugin en md u \<Longrightarrow> unpaired u (osc_save_config en md p) = unpaired u p"
  by (simp add: unpaired_def counted_plugin_def osc_save_config_def Let_def split: option.splits)

lemma unpaired_listener:
  assumes "counted_sockets (en_os en) u"
  shows "unpaired u (snd (start_listener en port p)) = unpaired u p" "unpaired u (stop_listener en p) = unpaired u p"
proof -
  obtain ok s w where "server_start (en_os en) port (pl_server p) (world p) = (ok, s, w)" using prod_cases3 by blast
  with server_start_uses [OF assms this] show "unpaired u (snd (start_listener en port p)) = unpaired u p"
    by (simp add: unpaired_def start_listener_def server_op_def)
  obtain s w where "server_stop (en_os en) (pl_server p) (world p) = (s, w)" by fastforce
  with server_stop_uses [OF assms this] show "unpaired u (stop_listener en p) = unpaired u p"
    by (simp add: unpaired_def stop_listener_def server_op_def)
qed

lemma unpaired_query:
  assumes "counted_sockets (en_os en) u"
  shows "unpaired u (snd (restart_query en p)) = unpaired u p" "unpaired u (stop_query en p) = unpaired u p"
proof -
  obtain q s where st: "osc_query_stop (en_os en) (pl_query p) (pl_ws p) = (q, s)" by fastforce
  with query_stop_uses [OF assms st] show "unpaired u (stop_query en p) = unpaired u p"
    by (simp add: unpaired_def stop_query_def world_def)
  obtain ok q' s' where r: "osc_query_restart (en_os en) (pl_config p) (pl_query p) (pl_ws p) = (ok, q', s')"
    using prod_cases3 by blast
  have "u (ws_world s') - of_bool (qy_running q') = u (ws_world (pl_ws p)) - of_bool (qy_running (pl_query p))"
    using r query_stop_uses [OF assms st]
      query_user.restart_uses(1) [OF assms, of _ "(pl_query p, pl_ws p)" ok "(q', s')"]
    by (auto simp: query_restart_on st split: if_splits)
  with r show "unpaired u (snd (restart_query en p)) = unpaired u p"
    by (simp add: unpaired_def restart_query_def world_def)
qed

lemma unpaired_apply_port:
  assumes "counted_sockets (en_os en) u" "osc_apply_port en port p = (ok, p')"
  shows "unpaired u p' = unpaired u p"
proof -
  obtain b p1 where s: "start_listener en port (stop_listener en p) = (b, p1)" by fastforce
  have "unpaired u p1 = unpaired u p"
    using unpaired_listener [OF assms(1)] s by (metis snd_conv)
  with assms(2) s show ?thesis
    by (auto simp: osc_apply_port_def Let_def unpaired_listener [OF assms(1)] unpaired_query [OF assms(1)] split: if_splits)
qed

lemma unpaired_settings:
  assumes "counted_plugin en md u"
  shows "unpaired u (snd (osc_apply_settings en md next p)) = unpaired u p"
proof -
  have c: "counted_sockets (en_os en) u" using assms by (simp add: counted_plugin_def)
  obtain ok p1 where p1: "(if cf_port next \<noteq> cf_port (pl_config p) then osc_apply_port en (cf_port next) p
      else (True, p)) = (ok, p1)" by fastforce
  then have u1: "unpaired u p1 = unpaired u p"
    using unpaired_apply_port [OF c] by (auto split: if_splits)
  have fin: "unpaired u (snd (finish_settings en md next q)) = unpaired u q" for q
    by (simp add: finish_settings_def Let_def unpaired_save [OF assms])
  obtain b p2 where p2: "restart_query en (set_query (cf_query_port next) (cf_query_enabled next) p1) = (b, p2)"
    by fastforce
  then have "unpaired u p2 = unpaired u p1" using unpaired_query(1) [OF c] by (metis snd_conv unpaired_frame(2))
  with u1 show ?thesis
    by (simp add: osc_apply_settings_def p1 p2 Let_def fin unpaired_query(1) [OF c])
qed

text \<open>The settings a user confirms one after another, and the end of the session.\<close>

definition settings_session ::
  "('w, 'd) env \<Rightarrow> ('w, 'd) module_api \<Rightarrow> osc_config list \<Rightarrow> 'w plugin \<Rightarrow> 'w plugin" where
  "settings_session en md cfgs p = foldl (\<lambda>p cfg. snd (osc_apply_settings en md cfg p)) p cfgs"

lemma settings_session_unpaired:
  "counted_plugin en md u \<Longrightarrow> unpaired u (settings_session en md cfgs p) = unpaired u p"
  unfolding settings_session_def by (induction cfgs arbitrary: p) (simp_all add: unpaired_settings)

lemma stopped_services:
  assumes "counted_sockets (en_os en) u"
  shows "\<not> sv_running (pl_server (stop_listener en p)) \<and> \<not> qy_running (pl_query (stop_listener en (stop_query en p)))"
proof -
  obtain s w where "server_stop (en_os en) (pl_server p) (world p) = (s, w)" by fastforce
  with server_stop_uses [OF assms this] have a: "\<not> sv_running (pl_server (stop_listener en p))"
    by (simp add: stop_listener_def server_op_def)
  obtain q c where "osc_query_stop (en_os en) (pl_query p) (pl_ws p) = (q, c)" by fastforce
  with query_stop_uses [OF assms this] have "\<not> qy_running (pl_query (stop_query en p))"
    by (simp add: stop_query_def)
  with a show ?thesis by simp
qed

lemma session_closed_uses:
  assumes "counted_plugin en md u"
  shows "u (world (stop_listener en (stop_query en (settings_session en md cfgs p)))) =
    u (world p) - of_bool (sv_running (pl_server p)) - of_bool (qy_running (pl_query p))"
proof -
  have c: "counted_sockets (en_os en) u" using assms by (simp add: counted_plugin_def)
  let ?p = "stop_listener en (stop_query en (settings_session en md cfgs p))"
  have "unpaired u ?p = unpaired u p"
    by (simp add: unpaired_listener [OF c] unpaired_query [OF c] settings_session_unpaired [OF assms])
  with stopped_services [OF c, of "stop_query en (settings_session en md cfgs p)"]
    stopped_services [OF c, of "settings_session en md cfgs p"]
  show ?thesis by (simp add: unpaired_def)
qed

end
