(* ===== verification/OscDocument.thy ===== *)
theory OscDocument
  imports OscSchema OscControls
begin

text \<open>
  The OSCQuery document (\<^verbatim>\<open>osc-query-schema.cpp\<close>) against the dispatcher (\<^verbatim>\<open>osc-controls.cpp\<close>).
  \<open>document_leaf\<close> says which paths the document ought to list, straight from the names OBS
  enumerates; the lemmas show that the builders list exactly these, and that every one of them is
  an address the dispatcher has a route for.
\<close>

subsection \<open>The paths to list\<close>

definition scene_names :: "('w, 'd) env \<Rightarrow> 'w \<Rightarrow> string list" where
  "scene_names en w = map (\<lambda>x. ob_name (en_obs en) x w) (ob_scenes (en_obs en) w)"

definition transition_names :: "('w, 'd) env \<Rightarrow> 'w \<Rightarrow> string list" where
  "transition_names en w = map (\<lambda>x. ob_name (en_obs en) x w) (fe_transitions (en_fe en) w)"

text \<open>The inputs the walk with the pattern \<open>*\<close> visits.\<close>

definition walked_inputs :: "('w, 'd) env \<Rightarrow> 'w \<Rightarrow> nat list" where
  "walked_inputs en w =
     filter (\<lambda>x. osc_is_input (en_obs en) x w \<and> osc_glob_match ''*'' (ob_name (en_obs en) x w))
       (ob_sources (en_obs en) w)"

definition input_names :: "('w, 'd) env \<Rightarrow> 'w \<Rightarrow> string list" where
  "input_names en w = map (\<lambda>x. ob_name (en_obs en) x w) (walked_inputs en w)"

definition media_names :: "('w, 'd) env \<Rightarrow> 'w \<Rightarrow> string list" where
  "media_names en w =
     map (\<lambda>x. ob_name (en_obs en) x w)
       (filter (\<lambda>x. ob_controllable_media (en_obs en) x w) (walked_inputs en w))"

definition names_or_none :: "string list option \<Rightarrow> string list" where
  "names_or_none names = (case names of None \<Rightarrow> [] | Some ns \<Rightarrow> ns)"

definition section_leaves :: "('w, 'd) env \<Rightarrow> 'w \<Rightarrow> string \<Rightarrow> string list" where
  "section_leaves en w s =
     (if s = ''program'' \<or> s = ''preview'' then scene_names en w
      else if s = ''transition'' then transition_go # transition_names en w
      else if s = ''stream'' then [sub_start, sub_stop, sub_toggle]
      else if s = ''record'' then [sub_start, sub_stop, sub_toggle, sub_pause]
      else if s = ''replay'' then [sub_start, sub_stop, sub_save]
      else if s = ''virtualcam'' then [sub_start, sub_stop]
      else if s = ''mute'' \<or> s = ''volume'' then input_names en w
      else if s = ''profile'' then names_or_none (fe_profiles (en_fe en) w)
      else if s = ''collection'' then names_or_none (fe_collections (en_fe en) w)
      else [])"

definition single_leaves :: "string list" where
  "single_leaves = [''studio'', ''screenshot'', ''subscribe'', ''unsubscribe'']"

fun document_leaf :: "('w, 'd) env \<Rightarrow> 'w \<Rightarrow> string list \<Rightarrow> bool" where
  "document_leaf en w [s] \<longleftrightarrow> s \<in> set single_leaves"
| "document_leaf en w [s, n] \<longleftrightarrow> n \<in> set (section_leaves en w s)"
| "document_leaf en w [s, n, verb] \<longleftrightarrow>
     s = ''media'' \<and> n \<in> set (media_names en w) \<and> verb \<in> set (map fst media_verbs @ [media_state_node])"
| "document_leaf en w _ \<longleftrightarrow> False"

subsection \<open>Nodes with given children\<close>

text \<open>\<open>children_are da Q node names\<close>: a container with children of these names, all of them \<open>Q\<close>.\<close>

definition children_are :: "'d data_api \<Rightarrow> ('d \<Rightarrow> bool) \<Rightarrow> 'd \<Rightarrow> string set \<Rightarrow> bool" where
  "children_are da Q node names \<longleftrightarrow>
     container da node \<and> (\<forall>k. child_of da node k \<noteq> None \<longleftrightarrow> k \<in> names) \<and>
     (\<forall>k c. child_of da node k = Some c \<longrightarrow> Q c)"

lemma children_make:
  assumes "object_laws da"
  shows "children_are da Q (make_container da t) {}"
  by (simp add: children_are_def child_container [OF assms])

lemma children_add:
  assumes "object_laws da" "children_are da Q node names" "Q c"
  shows "children_are da Q (add_child da node n c) (insert n names)"
  using assms(2,3) child_add [OF assms(1), of node n c] by (auto simp: children_are_def)

lemma children_description:
  assumes "object_laws da"
  shows "children_are da Q (set_description da node t) names \<longleftrightarrow> children_are da Q node names"
proof -
  have "container da (set_description da node t) = container da node"
    by (simp add: container_def set_description_def contents_key_def object_lawsD [OF assms])
  then show ?thesis by (simp add: children_are_def child_description [OF assms])
qed

lemma children_fold:
  assumes "object_laws da" "\<And>x. Q (f x)" "children_are da Q node names"
  shows "children_are da Q (foldl (\<lambda>n x. if P x then add_child da n (name x) (f x) else n) node xs)
    (names \<union> name ` set (filter P xs))"
  using assms(3)
proof (induction xs arbitrary: node names)
  case (Cons x xs)
  show ?case
    using Cons.IH [OF Cons.prems] Cons.IH [OF children_add [OF assms(1) Cons.prems assms(2) [of x]], of "name x"]
    by simp
qed simp

text \<open>The same for a fold without a guard.\<close>

lemma children_fold_all:
  assumes "object_laws da" "\<And>x. Q (f x)" "children_are da Q node names"
  shows "children_are da Q (foldl (\<lambda>n x. add_child da n (name x) (f x)) node xs) (names \<union> name ` set xs)"
  using children_fold [OF assms, where P = "\<lambda>_. True"] by simp

subsection \<open>Leaves\<close>

definition leaf_at :: "'d data_api \<Rightarrow> 'd option \<Rightarrow> string list \<Rightarrow> bool" where
  "leaf_at da node ss \<longleftrightarrow> (case descend da node ss of None \<Rightarrow> False | Some n \<Rightarrow> \<not> container da n)"

lemma leaf_at_simps [simp]:
  "leaf_at da None ss \<longleftrightarrow> False"
  "leaf_at da (Some n) [] \<longleftrightarrow> \<not> container da n"
  "leaf_at da (Some n) (k # ks) \<longleftrightarrow> leaf_at da (child_of da n (c_str k)) ks"
  by (simp_all add: leaf_at_def child_of_def)

lemma make_leaf_no_container:
  assumes "object_laws da"
  shows "\<not> container da (make_leaf da access type value ranged description)"
  by (simp add: container_def make_leaf_def Let_def set_number_def set_description_def contents_key_def
      object_lawsD [OF assms] split: option.splits prod.splits)

lemma leaf_no_container:
  assumes "object_laws da"
  shows "\<not> container da (make_bang da t)" "\<not> container da (make_rw_int da i lo hi t)"
    "\<not> container da (make_rw_float da x t)" "\<not> container da (make_ro_int da i t)"
  by (simp_all add: make_bang_def make_rw_int_def make_rw_float_def make_ro_int_def make_leaf_no_container [OF assms])

abbreviation leafy :: "'d data_api \<Rightarrow> 'd \<Rightarrow> string set \<Rightarrow> bool" where
  "leafy da \<equiv> children_are da (\<lambda>c. \<not> container da c)"

lemma leafy_leaf_at:
  assumes "leafy da node names"
  shows "leaf_at da (Some node) ss \<longleftrightarrow> (\<exists>k. ss = [k] \<and> c_str k \<in> names)"
proof (cases ss)
  case (Cons k ks)
  show ?thesis
  proof (cases "child_of da node (c_str k)")
    case (Some c)
    then have "\<not> container da c" "c_str k \<in> names" using assms unfolding children_are_def by blast+
    moreover have "child_of da c k' = None" for k'
      using \<open>\<not> container da c\<close> by (simp add: child_of_def container_def)
    ultimately show ?thesis using Cons Some by (cases ks) auto
  next
    case None
    then have "c_str k \<notin> names" using assms unfolding children_are_def by metis
    with None Cons show ?thesis by auto
  qed
qed (use assms in \<open>simp add: children_are_def\<close>)

lemma leafy_children_leaf_at:
  assumes "children_are da (\<lambda>c. leafy da c inner) node names"
  shows "leaf_at da (Some node) ss \<longleftrightarrow> (\<exists>k v. ss = [k, v] \<and> c_str k \<in> names \<and> c_str v \<in> inner)"
proof (cases ss)
  case (Cons k ks)
  show ?thesis
  proof (cases "child_of da node (c_str k)")
    case (Some c)
    then have "leafy da c inner" "c_str k \<in> names" using assms unfolding children_are_def by blast+
    with Cons Some show ?thesis by (auto simp: leafy_leaf_at)
  next
    case None
    then have "c_str k \<notin> names" using assms unfolding children_are_def by metis
    with None Cons show ?thesis by auto
  qed
qed (use assms in \<open>simp add: children_are_def\<close>)

subsection \<open>Sections\<close>

lemma scenes_leafy:
  assumes "object_laws (en_data en)"
  shows "leafy (en_data en) (build_scenes_section en t w) (set (scene_names en w))"
proof -
  let ?add = "\<lambda>n x. add_child (en_data en) n (ob_name (en_obs en) x w) (make_bang (en_data en) None)"
  have "enum_until (scene_bang_cb en) xs (node, w) = (foldl ?add node xs, w)" for xs node
    by (induction xs arbitrary: node) (simp_all add: scene_bang_cb_def)
  then show ?thesis
    using children_fold_all [OF assms _ children_make [OF assms], where f = "\<lambda>_. make_bang (en_data en) None"
        and name = "\<lambda>x. ob_name (en_obs en) x w" and Q = "\<lambda>c. \<not> container (en_data en) c"]
    by (simp add: build_scenes_section_def scene_names_def leaf_no_container [OF assms])
qed

lemma transition_leafy:
  assumes "object_laws (en_data en)"
  shows "leafy (en_data en) (build_transition_section en w) (set (transition_go # transition_names en w))"
proof -
  let ?da = "en_data en"
  let ?add = "\<lambda>n x. add_child ?da n (ob_name (en_obs en) x w) (make_bang ?da None)"
  have f: "foldl (\<lambda>s t. (add_child ?da (fst s) (ob_name (en_obs en) t (snd s)) (make_bang ?da None), snd s)) (node, w) xs =
      (foldl ?add node xs, w)" for xs node
    by (induction xs arbitrary: node) simp_all
  have "leafy ?da (add_child ?da (make_container ?da t) transition_go (make_bang ?da t')) {transition_go}" for t t'
    by (rule children_add [OF assms children_make [OF assms]]) (rule leaf_no_container [OF assms])
  from children_fold_all [OF assms _ this, where f = "\<lambda>_. make_bang ?da None"
      and name = "\<lambda>x. ob_name (en_obs en) x w"]
  show ?thesis
    by (simp add: build_transition_section_def osc_enum_transitions_def f transition_names_def Let_def
        leaf_no_container [OF assms])
qed

lemma output_leafy:
  assumes "object_laws (en_data en)"
  shows "leafy (en_data en) (build_output_section en out w) (set (out_subs out))"
proof -
  let ?da = "en_data en"
  let ?f = "\<lambda>sub. if sub = sub_pause
      then make_rw_int ?da (bool_long (fe_recording_paused (en_fe en) w)) 0 1 (Some ''Pause state'')
      else make_bang ?da None"
  have "build_output_section en out w =
      foldl (\<lambda>n sub. add_child ?da n sub (?f sub)) (make_container ?da (Some (out_description out))) (out_subs out)"
    unfolding build_output_section_def Let_def by (rule foldl_cong) auto
  then show ?thesis
    using children_fold_all [OF assms _ children_make [OF assms], where f = ?f and name = "\<lambda>sub. sub"
        and Q = "\<lambda>c. \<not> container ?da c" and xs = "out_subs out"]
    by (simp add: leaf_no_container [OF assms])
qed

lemma names_leafy:
  assumes "object_laws da"
  shows "leafy da (add_name_children da (make_container da t) names) (set (names_or_none names))"
proof (cases names)
  case (Some ns)
  with children_fold_all [OF assms _ children_make [OF assms], where f = "\<lambda>_. make_bang da None"
      and name = "\<lambda>n. n" and Q = "\<lambda>c. \<not> container da c" and xs = ns]
  show ?thesis by (simp add: add_name_children_def names_or_none_def leaf_no_container [OF assms])
qed (simp add: add_name_children_def names_or_none_def children_make [OF assms])

text \<open>The walk over the inputs adds a child of its own kind under each root that is wanted.\<close>

lemma source_walk:
  "osc_visit_sources (en_obs en) ''*'' KindInput (source_enum_visit en) (ctx, w) =
    (let da = en_data en; ob = en_obs en;
         under = \<lambda>f xs. map_option (\<lambda>n. foldl (\<lambda>n x. add_child da n (ob_name ob x w) (f x)) n xs)
     in (\<lparr>sc_mute = under (\<lambda>x. make_rw_int da (bool_long (ob_muted ob x w)) 0 1 None) (walked_inputs en w) (sc_mute ctx),
          sc_volume = under (\<lambda>x. make_rw_float da (osc_volume_position (ob_volume ob x w)) None)
            (walked_inputs en w) (sc_volume ctx),
          sc_media = under (\<lambda>x. add_media_children da (make_container da (Some ''Media playback controls'')))
            (filter (\<lambda>x. ob_controllable_media ob x w) (walked_inputs en w)) (sc_media ctx)\<rparr>, w))"
proof -
  let ?da = "en_data en" and ?ob = "en_obs en"
  let ?P = "\<lambda>x. osc_is_input ?ob x w \<and> osc_glob_match ''*'' (ob_name ?ob x w)"
  let ?mu = "\<lambda>n x. add_child ?da n (ob_name ?ob x w) (make_rw_int ?da (bool_long (ob_muted ?ob x w)) 0 1 None)"
  let ?vo = "\<lambda>n x. add_child ?da n (ob_name ?ob x w) (make_rw_float ?da (osc_volume_position (ob_volume ?ob x w)) None)"
  let ?me = "\<lambda>n x. add_child ?da n (ob_name ?ob x w)
      (add_media_children ?da (make_container ?da (Some ''Media playback controls'')))"
  have "enum_until (\<lambda>source s. if type_ok ?ob KindInput source (snd s) \<and> osc_glob_match ''*'' (ob_name ?ob source (snd s))
          then source_enum_visit en source s else (True, s)) xs (ctx, w) =
      (\<lparr>sc_mute = map_option (\<lambda>n. foldl ?mu n (filter ?P xs)) (sc_mute ctx),
        sc_volume = map_option (\<lambda>n. foldl ?vo n (filter ?P xs)) (sc_volume ctx),
        sc_media = map_option (\<lambda>n. foldl ?me n (filter (\<lambda>x. ob_controllable_media ?ob x w) (filter ?P xs))) (sc_media ctx)\<rparr>, w)"
    for xs
  proof (induction xs arbitrary: ctx)
    case (Cons x xs)
    then show ?case
      by (cases "sc_mute ctx"; cases "sc_volume ctx"; cases "sc_media ctx")
        (simp_all add: type_ok_def source_enum_visit_def Let_def)
  qed (simp add: option.map_ident)
  then show ?thesis by (simp add: osc_visit_sources_def osc_has_wildcard_def walked_inputs_def Let_def)
qed

lemma source_leafy:
  assumes "object_laws (en_data en)"
  shows "leafy (en_data en) (build_source_section en ''mute'' w) (set (input_names en w))"
    "leafy (en_data en) (build_source_section en ''volume'' w) (set (input_names en w))"
proof -
  let ?da = "en_data en" and ?ob = "en_obs en"
  have fold: "leafy ?da (foldl (\<lambda>n x. add_child ?da n (ob_name ?ob x w) (f x)) (make_container ?da None) (walked_inputs en w))
      (set (input_names en w))" if "\<And>x. \<not> container ?da (f x)" for f
    using children_fold_all [OF assms _ children_make [OF assms], where Q = "\<lambda>c. \<not> container ?da c" and f = f
        and name = "\<lambda>x. ob_name ?ob x w" and xs = "walked_inputs en w"] that
    by (simp add: input_names_def)
  show "leafy ?da (build_source_section en ''mute'' w) (set (input_names en w))"
    using fold [of "\<lambda>x. make_rw_int ?da (bool_long (ob_muted ?ob x w)) 0 1 None"]
    by (simp add: build_source_section_def source_walk Let_def segment_names children_description [OF assms]
        leaf_no_container [OF assms])
  show "leafy ?da (build_source_section en ''volume'' w) (set (input_names en w))"
    using fold [of "\<lambda>x. make_rw_float ?da (osc_volume_position (ob_volume ?ob x w)) None"]
    by (simp add: build_source_section_def source_walk Let_def segment_names children_description [OF assms]
        leaf_no_container [OF assms])
qed

abbreviation media_nodes :: "string set" where
  "media_nodes \<equiv> set (map fst media_verbs @ [media_state_node])"

lemma media_leafy:
  assumes "object_laws da"
  shows "leafy da (add_media_children da (make_container da t)) media_nodes"
proof -
  let ?p = "foldl (\<lambda>n x. add_child da n (fst x) (make_bang da None)) (make_container da t) media_verbs"
  have "leafy da ?p (fst ` set media_verbs)"
    using children_fold_all [OF assms _ children_make [OF assms], where f = "\<lambda>_. make_bang da None"
        and name = fst and Q = "\<lambda>c. \<not> container da c" and xs = media_verbs]
    by (simp add: leaf_no_container [OF assms])
  from children_add [where Q = "\<lambda>c. \<not> container da c", OF assms this leaf_no_container(4) [OF assms],
      of media_state_node 0 "Some ''Media state (0 none, 1 playing, 4 paused, ...)''"]
  show ?thesis by (simp add: add_media_children_def case_prod_beta')
qed

lemma media_section:
  assumes "object_laws (en_data en)"
  shows "children_are (en_data en) (\<lambda>c. leafy (en_data en) c media_nodes)
    (build_source_section en ''media'' w) (set (media_names en w))"
proof -
  let ?da = "en_data en" and ?ob = "en_obs en"
  let ?c = "add_media_children ?da (make_container ?da (Some ''Media playback controls''))"
  from children_fold_all [OF assms _ children_make [OF assms], where Q = "\<lambda>c. leafy ?da c media_nodes" and f = "\<lambda>_. ?c"
      and name = "\<lambda>x. ob_name ?ob x w" and xs = "filter (\<lambda>x. ob_controllable_media ?ob x w) (walked_inputs en w)"]
    media_leafy [OF assms]
  show ?thesis
    by (simp add: build_source_section_def source_walk Let_def segment_names children_description [OF assms] media_names_def)
qed

subsection \<open>The document lists these paths\<close>

lemma section_values:
  "build_section en ''program'' w = Some (build_scenes_section en ''Switch program scene'' w)"
  "build_section en ''preview'' w = Some (build_scenes_section en ''Set preview scene'' w)"
  "build_section en ''transition'' w = Some (build_transition_section en w)"
  "build_section en ''studio'' w =
     Some (make_rw_int (en_data en) (bool_long (fe_studio_active (en_fe en) w)) 0 1 (Some ''Studio mode''))"
  "build_section en ''screenshot'' w = Some (make_bang (en_data en) (Some ''Take screenshot''))"
  "build_section en ''mute'' w = Some (build_source_section en ''mute'' w)"
  "build_section en ''volume'' w = Some (build_source_section en ''volume'' w)"
  "build_section en ''media'' w = Some (build_source_section en ''media'' w)"
  "build_section en ''profile'' w = Some (build_profile_section en w)"
  "build_section en ''collection'' w = Some (build_collection_section en w)"
  by (simp_all add: build_section_def find_output_leaf segment_names)

lemma bang_sections:
  assumes "s = ''subscribe'' \<or> s = ''unsubscribe''"
  obtains t where "build_section en s w = Some (make_bang (en_data en) t)"
  using assms by (auto simp: build_section_def find_output_leaf segment_names)

lemma output_subs:
  "out_subs (outputs ! 0) = [sub_start, sub_stop, sub_toggle]"
  "out_subs (outputs ! 1) = [sub_start, sub_stop, sub_toggle, sub_pause]"
  "out_subs (outputs ! 2) = [sub_start, sub_stop, sub_save]"
  "out_subs (outputs ! 3) = [sub_start, sub_stop]"
  by (simp_all add: outputs_def)

lemma leaf_alone: "\<not> container da n \<Longrightarrow> leaf_at da (Some n) ss \<longleftrightarrow> ss = []"
  by (cases ss) (simp_all add: child_of_def container_def)

lemma document_leaf_Cons:
  "document_leaf en w (s # ss) \<longleftrightarrow>
     ss = [] \<and> s \<in> set single_leaves \<or>
     (\<exists>n. ss = [n] \<and> n \<in> set (section_leaves en w s)) \<or>
     (\<exists>n v. ss = [n, v] \<and> s = ''media'' \<and> n \<in> set (media_names en w) \<and> v \<in> media_nodes)"
  by (cases "(en, w, s # ss)" rule: document_leaf.cases) auto

lemma single_leaf_at:
  assumes "object_laws (en_data en)" "s \<in> set single_leaves"
  shows "leaf_at (en_data en) (build_section en s w) ss \<longleftrightarrow> ss = []"
proof -
  note alone = leaf_alone [OF leaf_no_container(1) [OF assms(1)]] leaf_alone [OF leaf_no_container(2) [OF assms(1)]]
  from assms(2) consider "s = ''studio''" | "s = ''screenshot''" | "s = ''subscribe'' \<or> s = ''unsubscribe''"
    by (auto simp: single_leaves_def)
  then show ?thesis
  proof cases
    case 3
    then obtain t where "build_section en s w = Some (make_bang (en_data en) t)" by (rule bang_sections)
    then show ?thesis by (simp add: alone)
  qed (simp_all add: section_values alone)
qed

text \<open>The sections whose children are all leaves.\<close>

definition flat_sections :: "string list" where
  "flat_sections =
     [''program'', ''preview'', ''transition'', ''stream'', ''record'', ''replay'', ''virtualcam'', ''mute'',
      ''volume'', ''profile'', ''collection'']"

lemma segment_kinds:
  "set schema_segments = set single_leaves \<union> set flat_sections \<union> {''media''}"
  "set single_leaves \<inter> set flat_sections = {}" "''media'' \<notin> set flat_sections" "''media'' \<notin> set single_leaves"
  by code_simp+

lemma flat_section:
  assumes "object_laws (en_data en)" "s \<in> set flat_sections"
  shows "\<exists>node. build_section en s w = Some node \<and> leafy (en_data en) node (set (section_leaves en w s))"
proof -
  note laws = assms(1)
  have "list_all (\<lambda>s. \<exists>node. build_section en s w = Some node \<and> leafy (en_data en) node (set (section_leaves en w s)))
      flat_sections"
    unfolding flat_sections_def
    using scenes_leafy [OF laws] transition_leafy [OF laws] source_leafy [OF laws] names_leafy [OF laws]
      output_leafy [OF laws, of "outputs ! 0", unfolded output_subs] output_leafy [OF laws, of "outputs ! 1", unfolded output_subs]
      output_leafy [OF laws, of "outputs ! 2", unfolded output_subs] output_leafy [OF laws, of "outputs ! 3", unfolded output_subs]
    by (simp add: section_values output_sections section_leaves_def build_profile_section_def
        build_collection_section_def)
  with assms(2) show ?thesis by (simp add: list_all_iff)
qed

lemma no_leaves:
  assumes "s \<notin> set flat_sections"
  shows "section_leaves en w s = []"
  using assms by (simp add: flat_sections_def section_leaves_def)

lemma section_leaf_at:
  assumes "object_laws (en_data en)" "path_segment s" "\<forall>k \<in> set ss. c_string k"
  shows "leaf_at (en_data en) (build_section en s w) ss \<longleftrightarrow> document_leaf en w (s # ss)"
proof -
  consider "s \<notin> set schema_segments" | "s \<in> set single_leaves" | "s \<in> set flat_sections" | "s = ''media''"
    using segment_kinds(1) by blast
  then show ?thesis
  proof cases
    case 1
    then have "build_section en s w = None"
      using assms(2) by (auto simp: build_section_found path_segment_def)
    moreover have "section_leaves en w s = []" "s \<notin> set single_leaves" "s \<noteq> ''media''"
      using 1 no_leaves [of s en w] unfolding segment_kinds(1) by blast+
    ultimately show ?thesis by (simp add: document_leaf_Cons)
  next
    case 2
    moreover have "s \<notin> set flat_sections" "s \<noteq> ''media''" using 2 segment_kinds by blast+
    ultimately show ?thesis using single_leaf_at [OF assms(1) 2] by (simp add: document_leaf_Cons no_leaves)
  next
    case 3
    then have s: "s \<notin> set single_leaves" "s \<noteq> ''media''" using segment_kinds by blast+
    obtain node where node: "build_section en s w = Some node" "leafy (en_data en) node (set (section_leaves en w s))"
      using flat_section [OF assms(1) 3, of w] by blast
    have "(\<exists>k. ss = [k] \<and> c_str k \<in> set (section_leaves en w s)) \<longleftrightarrow>
        (\<exists>k. ss = [k] \<and> k \<in> set (section_leaves en w s))"
      using assms(3) by auto
    with s show ?thesis unfolding document_leaf_Cons node(1) leafy_leaf_at [OF node(2)] by blast
  next
    case 4
    have "section_leaves en w ''media'' = []" by (rule no_leaves [OF segment_kinds(3)])
    moreover have "(\<exists>k v. ss = [k, v] \<and> c_str k \<in> set (media_names en w) \<and> c_str v \<in> media_nodes) \<longleftrightarrow>
        (\<exists>k v. ss = [k, v] \<and> k \<in> set (media_names en w) \<and> v \<in> media_nodes)"
      using assms(3) by (auto simp del: set_append set_map)
    ultimately show ?thesis
      unfolding 4 section_values(8) leafy_children_leaf_at [OF media_section [OF assms(1)]] document_leaf_Cons
      using segment_kinds(4) by simp
  qed
qed

lemma document_leaves:
  assumes "object_laws (en_data en)" "\<forall>s \<in> set ss. path_segment s \<and> c_string s"
  shows "leaf_at (en_data en) (Some (build_root en w)) ss \<longleftrightarrow> document_leaf en w ss"
proof (cases ss)
  case Nil
  have "container (en_data en) (build_root en w)"
    by (simp add: container_def build_root_def Let_def object_lawsD [OF assms(1)])
  then show ?thesis by (simp add: Nil)
next
  case (Cons s rest)
  have "leaf_at (en_data en) (Some (build_root en w)) (s # rest) = leaf_at (en_data en) (build_section en s w) rest"
    unfolding leaf_at_def using descend_root [OF assms(1), of s w rest] assms(2) Cons by (simp add: c_string_def)
  with section_leaf_at [OF assms(1), of s rest w] assms(2) Cons show ?thesis by simp
qed

text \<open>
  The leaf \<open>state\<close> of a media source always holds 0 (\<^verbatim>\<open>OBS_MEDIA_STATE_NONE\<close>), whatever the source
  does; a poll of the same address answers with the state.
\<close>

lemma media_state_leaf:
  assumes "object_laws (en_data en)" "path_segment n" "c_string n" "n \<in> set (media_names en w)"
  shows "osc_query_schema_lookup en (join_path [''media'', n, media_state_node]) w =
    or_empty (dt_json (en_data en)
      (make_ro_int (en_data en) 0 (Some ''Media state (0 none, 1 playing, 4 paused, ...)'')))"
proof -
  let ?da = "en_data en" and ?ob = "en_obs en"
  let ?leaf = "make_ro_int ?da 0 (Some ''Media state (0 none, 1 playing, 4 paused, ...)'')"
  let ?c = "add_media_children ?da (make_container ?da (Some ''Media playback controls''))"
  have "container ?da (foldl (\<lambda>n x. add_child ?da n (fst x) (make_bang ?da None)) (make_container ?da t) media_verbs)"
    for t
    using children_fold_all [OF assms(1) _ children_make [OF assms(1)], where f = "\<lambda>_. make_bang ?da None"
        and name = fst and Q = "\<lambda>_. True" and xs = media_verbs]
    by (simp add: children_are_def)
  then have c: "child_of ?da ?c media_state_node = Some ?leaf"
    by (simp add: add_media_children_def case_prod_beta' child_add [OF assms(1)])
  have "children_are ?da (\<lambda>c. child_of ?da c media_state_node = Some ?leaf)
      (build_source_section en ''media'' w) (set (media_names en w))"
    using children_fold_all [OF assms(1) _ children_make [OF assms(1)],
        where Q = "\<lambda>c. child_of ?da c media_state_node = Some ?leaf" and f = "\<lambda>_. ?c"
        and name = "\<lambda>x. ob_name ?ob x w" and xs = "filter (\<lambda>x. ob_controllable_media ?ob x w) (walked_inputs en w)"] c
    by (simp add: build_source_section_def source_walk Let_def segment_names children_description [OF assms(1)]
        media_names_def)
  then obtain m where m: "child_of ?da (build_source_section en ''media'' w) n = Some m"
    "child_of ?da m media_state_node = Some ?leaf"
    using assms(4) unfolding children_are_def by blast
  have descend_child: "descend ?da (Some x) (k # ks) = descend ?da (child_of ?da x (c_str k)) ks" for x k ks
    by (simp add: child_of_def)
  have "split_path (join_path [''media'', n, media_state_node]) = [''media'', n, media_state_node]"
    by (rule split_join_path) (use assms(2) in \<open>simp add: path_segment_def media_state_node_def\<close>)
  moreover have "c_str media_state_node = media_state_node" by (simp add: media_state_node_def)
  ultimately show ?thesis
    using m assms(3)
    by (simp add: osc_query_schema_lookup_def walk_tree_def section_values descend_child del: descend.simps(2))
qed

subsection \<open>What the dispatcher makes of them\<close>

text \<open>
  The command a leaf stands for, by its path; the document describes \<open>subscribe\<close> and \<open>unsubscribe\<close>
  too, which the registry handles.  Without an argument a readable leaf is polled.
\<close>

fun leaf_command :: "('w, 'd) env \<Rightarrow> string list \<Rightarrow> osc_message \<Rightarrow> 'w ctl \<Rightarrow> 'w ctl" where
  "leaf_command en [s] msg c =
     (if s = ''screenshot'' then with_world (fe_screenshot (en_fe en)) c
      else with_world (fe_set_studio (en_fe en)
             (if arg_is_toggle msg then \<not> fe_studio_active (en_fe en) (snd c) else arg_bool msg 0 False)) c)"
| "leaf_command en [s, n] msg c =
     (if s = ''program'' then with_world (switch_program_scene en n) c
      else if s = ''preview'' then with_world (switch_preview_scene en n) c
      else if s = ''transition'' then
        with_world (if n = transition_go then fe_trigger_transition (en_fe en) else select_transition en n) c
      else if s = ''stream'' then with_world (run_output_command (en_fe en) OutStream msg n) c
      else if s = ''record'' then with_world (run_output_command (en_fe en) OutRecord msg n) c
      else if s = ''replay'' then with_world (run_output_command (en_fe en) OutReplay msg n) c
      else if s = ''virtualcam'' then with_world (run_output_command (en_fe en) OutVirtualcam msg n) c
      else if s = ''mute'' then mute_inputs (en_obs en) n (toggle_value msg) c
      else if s = ''volume'' then
        with_world (set_input_volume (en_obs en) n (osc_volume_multiplier (arg_float msg 0 f32_minus_one))) c
      else if s = ''profile'' then with_world (fe_set_profile (en_fe en) n) c
      else with_world (fe_set_collection (en_fe en) n) c)"
| "leaf_command en [s, n, verb] msg c = with_world (media_command (en_obs en) n verb) c"
| "leaf_command en _ msg c = c"

fun readable_leaf :: "string list \<Rightarrow> bool" where
  "readable_leaf [s] \<longleftrightarrow> s = ''studio''"
| "readable_leaf [s, n] \<longleftrightarrow> s = ''mute'' \<or> s = ''volume''"
| "readable_leaf [s, n, verb] \<longleftrightarrow> verb = media_state_node"
| "readable_leaf _ \<longleftrightarrow> False"

text \<open>No prefix of an earlier route shadows the one of a leaf: the chain of comparisons ends there.\<close>

lemma no_index:
  assumes "CHR ''/'' \<notin> set n"
  shows "take (Suc (Suc (Suc (Suc (Suc (Suc 0)))))) n \<noteq> ''index/''"
proof
  assume "take (Suc (Suc (Suc (Suc (Suc (Suc 0)))))) n = ''index/''"
  then have "CHR ''/'' \<in> set (take (Suc (Suc (Suc (Suc (Suc (Suc 0)))))) n)" by simp
  with assms show False by (meson in_set_takeD)
qed


lemma two: "join_path [s, n] = CHR ''/'' # s @ CHR ''/'' # n"
  by (simp add: join_path_def)

lemma run_two:
  assumes "path_segment n" "address msg = join_path [s, n]"
  shows "s = ''program'' \<Longrightarrow> run_command en msg c = leaf_command en [s, n] msg c"
    "s = ''preview'' \<Longrightarrow> run_command en msg c = leaf_command en [s, n] msg c"
    "s = ''transition'' \<Longrightarrow> run_command en msg c = leaf_command en [s, n] msg c"
    "s = ''stream'' \<Longrightarrow> run_command en msg c = leaf_command en [s, n] msg c"
    "s = ''record'' \<Longrightarrow> run_command en msg c = leaf_command en [s, n] msg c"
    "s = ''replay'' \<Longrightarrow> run_command en msg c = leaf_command en [s, n] msg c"
    "s = ''virtualcam'' \<Longrightarrow> run_command en msg c = leaf_command en [s, n] msg c"
    "s = ''mute'' \<Longrightarrow> run_command en msg c = leaf_command en [s, n] msg c"
    "s = ''volume'' \<Longrightarrow> run_command en msg c = leaf_command en [s, n] msg c"
    "s = ''profile'' \<Longrightarrow> run_command en msg c = leaf_command en [s, n] msg c"
    "s = ''collection'' \<Longrightarrow> run_command en msg c = leaf_command en [s, n] msg c"
  using assms(1) no_index [of n]
  by (simp_all add: run_command_def scene_commands_def source_commands_def object_commands_def Let_def two assms(2)
     path_segment_def with_world_def route_simps outputs_def)

lemma run_one:
  assumes "address msg = join_path [s]"
  shows "s = ''studio'' \<Longrightarrow> run_command en msg c = leaf_command en [s] msg c"
   "s = ''screenshot'' \<Longrightarrow> run_command en msg c = leaf_command en [s] msg c"
  by (simp_all add: run_command_def scene_commands_def source_commands_def object_commands_def Let_def join_path_def assms with_world_def route_simps outputs_def)

lemma run_media:
  assumes "path_segment n" "path_segment v" "address msg = join_path [''media'', n, v]"
  shows "run_command en msg c = leaf_command en [''media'', n, v] msg c"
  using assms(1,2) split_two_segments_append [of n v]
  by (auto simp: run_command_def scene_commands_def source_commands_def Let_def join_path_def assms(3) path_segment_def with_world_def route_simps outputs_def)

lemmas poll_defs = poll_routes_def poll_frontend_def poll_sources_def poll_all_objects_def poll_objects_def

lemma poll_two:
  assumes "path_segment n"
  shows "s = ''program'' \<Longrightarrow> poll_routes en (join_path [s, n]) to c = (False, c)"
    "s = ''preview'' \<Longrightarrow> poll_routes en (join_path [s, n]) to c = (False, c)"
    "s = ''transition'' \<Longrightarrow> poll_routes en (join_path [s, n]) to c = (False, c)"
    "s = ''stream'' \<Longrightarrow> poll_routes en (join_path [s, n]) to c = (False, c)"
    "s = ''record'' \<Longrightarrow> n \<noteq> ''paused'' \<Longrightarrow> poll_routes en (join_path [s, n]) to c = (False, c)"
    "s = ''replay'' \<Longrightarrow> poll_routes en (join_path [s, n]) to c = (False, c)"
    "s = ''virtualcam'' \<Longrightarrow> poll_routes en (join_path [s, n]) to c = (False, c)"
    "s = ''profile'' \<Longrightarrow> poll_routes en (join_path [s, n]) to c = (False, c)"
    "s = ''collection'' \<Longrightarrow> poll_routes en (join_path [s, n]) to c = (False, c)"
  using assms by (simp_all add: poll_defs two Let_def path_segment_def route_simps outputs_def)

lemma poll_media:
  assumes "path_segment n" "path_segment v"
  shows "v \<noteq> media_state_node \<Longrightarrow> poll_routes en (join_path [''media'', n, v]) to c = (False, c)"
    "v = media_state_node \<Longrightarrow> fst (poll_routes en (join_path [''media'', n, v]) to c)"
  using assms split_two_segments_append [of n v]
  by (simp_all add: poll_defs join_path_def Let_def path_segment_def route_simps outputs_def)

lemma poll_readable:
  assumes "path_segment n"
  shows "fst (poll_routes en (join_path [''mute'', n]) to c)" "fst (poll_routes en (join_path [''volume'', n]) to c)"
  using assms by (simp_all add: poll_defs join_path_def Let_def path_segment_def route_simps outputs_def)

lemma poll_one:
  "fst (poll_routes en (join_path [''studio'']) to c)"
  "poll_routes en (join_path [''screenshot'']) to c = (False, c)"
  by (simp_all add: poll_defs join_path_def Let_def route_simps outputs_def)

text \<open>Every leaf but the two of the subscriptions.\<close>

lemma leaf_kinds:
  assumes "document_leaf en w ss" "ss \<notin> {[''subscribe''], [''unsubscribe'']}"
  obtains "ss = [''studio'']" | "ss = [''screenshot'']"
    | s n where "ss = [s, n]" "s \<in> set flat_sections" "n \<in> set (section_leaves en w s)"
    | n v where "ss = [''media'', n, v]"
proof (cases ss)
  case (Cons s rest)
  consider "rest = []" "s \<in> set single_leaves" | n where "rest = [n]" "n \<in> set (section_leaves en w s)"
    | n v where "rest = [n, v]" "s = ''media''"
    using assms(1) unfolding Cons document_leaf_Cons by blast
  then show ?thesis
  proof cases
    case 1
    then show ?thesis using that(1,2) assms(2) by (simp add: Cons single_leaves_def) blast
  next
    case (2 n)
    then have "s \<in> set flat_sections" using no_leaves [of s en w] by fastforce
    with 2 show ?thesis using that(3) Cons by blast
  next
    case (3 n v)
    then show ?thesis using that(4) Cons by blast
  qed
qed (use assms in simp)

lemma flat_cases:
  assumes "s \<in> set flat_sections"
  shows "s = ''program'' \<or> s = ''preview'' \<or> s = ''transition'' \<or> s = ''stream'' \<or> s = ''record'' \<or> s = ''replay'' \<or>
    s = ''virtualcam'' \<or> s = ''mute'' \<or> s = ''volume'' \<or> s = ''profile'' \<or> s = ''collection''"
  using assms by (simp add: flat_sections_def)

lemma leaf_runs:
  assumes "document_leaf en w ss" "ss \<notin> {[''subscribe''], [''unsubscribe'']}" "\<forall>s \<in> set ss. path_segment s"
    "address msg = join_path ss"
  shows "run_command en msg c = leaf_command en ss msg c"
  using assms(1,2)
proof (cases rule: leaf_kinds)
  case 1
  then show ?thesis using run_one(1) [of msg "''studio''" en c] assms(4) by metis
next
  case 2
  then show ?thesis using run_one(2) [of msg "''screenshot''" en c] assms(4) by metis
next
  case (3 s n)
  then have "path_segment n" using assms(3) by simp
  note r = run_two [OF this assms(4) [unfolded 3(1)]]
  from flat_cases [OF 3(2)] show ?thesis unfolding 3(1) by (elim disjE) (erule r)+
next
  case (4 n v)
  then have "path_segment n" "path_segment v" using assms(3) by simp_all
  from run_media [OF this assms(4) [unfolded 4]] show ?thesis unfolding 4 .
qed

lemma record_subs: "n \<in> set (section_leaves en w ''record'') \<Longrightarrow> n \<noteq> ''paused''"
  by (auto simp: section_leaves_def sub_start_def sub_stop_def sub_toggle_def sub_pause_def)

lemma leaf_polls:
  assumes "document_leaf en w ss" "ss \<notin> {[''subscribe''], [''unsubscribe'']}" "\<forall>s \<in> set ss. path_segment s"
  shows "if readable_leaf ss then fst (poll_routes en (join_path ss) to c) else poll_routes en (join_path ss) to c = (False, c)"
  using assms(1,2)
proof (cases rule: leaf_kinds)
  case 1
  then show ?thesis using poll_one(1) by simp
next
  case 2
  then show ?thesis using poll_one(2) by simp
next
  case (3 s n)
  then have n: "path_segment n" using assms(3) by simp
  note p = poll_two [OF n, of s en to c] poll_readable(1,2) [OF n, of en to c]
  from flat_cases [OF 3(2)] show ?thesis unfolding 3(1)
    by (elim disjE) (use p record_subs [of n en w] 3(3) in simp_all)
next
  case (4 n v)
  then have "path_segment n" "path_segment v" using assms(3) by simp_all
  from poll_media [OF this, of en to c] show ?thesis by (simp add: 4)
qed
text \<open>A message to a leaf: a read of it, or its command (on a state whose reply batch is closed).\<close>

lemma leaf_dispatch:
  assumes "document_leaf en w ss" "ss \<notin> {[''subscribe''], [''unsubscribe'']}" "\<forall>s \<in> set ss. path_segment s"
    "address msg = join_path ss"
  shows "dispatch_ctl en msg to c =
    (if args msg = [] \<and> readable_leaf ss then snd (poll_dispatch en (join_path ss) to c)
     else leaf_command en ss msg (if args msg = [] then (end_batch (begin_batch to (fst c)), snd c) else c))"
  using leaf_polls [OF assms(1-3), of to "(begin_batch to (fst c), snd c)"] leaf_runs [OF assms]
  by (auto simp: dispatch_ctl_def poll_dispatch_def reply_batch_scope_def assms(4) split: prod.splits if_splits)

end
