(* ===== verification/OscAgreement.thy ===== *)
theory OscAgreement
  imports OscDocument OscEffects
begin

text \<open>
  A poll over UDP and a request for the OSCQuery document read the same OBS: for an input that its
  name alone identifies, the leaf the document holds at a feedback address and the reply a poll of
  that address queues carry the same mute flag, and the same position of the volume slider.
\<close>

subsection \<open>An input identified by its name\<close>

text \<open>
  What looking a source up by its name documents: it finds a source of that name when there is one,
  and changes nothing one can see of the sources.
\<close>

definition lookup_laws :: "('w, 'd) obs_api \<Rightarrow> bool" where
  "lookup_laws ob \<longleftrightarrow>
     (\<forall>n w r w1. ob_source_by_name ob n w = (r, w1) \<longrightarrow>
        (case r of None \<Rightarrow> \<forall>x \<in> set (ob_sources ob w). ob_name ob x w \<noteq> n
         | Some x \<Rightarrow> x \<in> set (ob_sources ob w) \<and> ob_name ob x w = n) \<and>
        (\<forall>y. ob_name ob y w1 = ob_name ob y w \<and> ob_type ob y w1 = ob_type ob y w \<and>
          ob_muted ob y w1 = ob_muted ob y w \<and> ob_volume ob y w1 = ob_volume ob y w))"

text \<open>\<open>x\<close> is an input and the only source of its name, which is one a path and a glob leave alone.\<close>

definition plain_input :: "('w, 'd) env \<Rightarrow> nat \<Rightarrow> string \<Rightarrow> 'w \<Rightarrow> bool" where
  "plain_input en x n w \<longleftrightarrow>
     path_segment n \<and> c_string n \<and> \<not> osc_has_wildcard (Some n) \<and>
     x \<in> set (ob_sources (en_obs en) w) \<and> osc_is_input (en_obs en) x w \<and> ob_name (en_obs en) x w = n \<and>
     (\<forall>y \<in> set (ob_sources (en_obs en) w). ob_name (en_obs en) y w = n \<longrightarrow> y = x)"

lemma plain_inputD:
  assumes "plain_input en x n w"
  shows "path_segment n" "c_string n" "n \<noteq> []" "CHR ''/'' \<notin> set n" "\<not> osc_has_wildcard (Some n)"
    "x \<in> set (walked_inputs en w)" "\<And>y. y \<in> set (walked_inputs en w) \<Longrightarrow> ob_name (en_obs en) y w = n \<Longrightarrow> y = x"
    "ob_name (en_obs en) x w = n" "osc_is_input (en_obs en) x w"
proof -
  have "hd n \<noteq> CHR ''*''"
    using assms by (cases n) (auto simp: plain_input_def osc_has_wildcard_def path_segment_def)
  then have "osc_glob_match ''*'' n" by (simp add: glob_any)
  with assms show "path_segment n" "c_string n" "n \<noteq> []" "CHR ''/'' \<notin> set n" "\<not> osc_has_wildcard (Some n)"
    "x \<in> set (walked_inputs en w)" "\<And>y. y \<in> set (walked_inputs en w) \<Longrightarrow> ob_name (en_obs en) y w = n \<Longrightarrow> y = x"
    "ob_name (en_obs en) x w = n" "osc_is_input (en_obs en) x w"
    by (auto simp: plain_input_def walked_inputs_def path_segment_def)
qed

subsection \<open>The leaf in the document\<close>

lemma input_child:
  assumes "object_laws (en_data en)" "plain_input en x n w"
  shows "child_of (en_data en) (foldl (\<lambda>t x. add_child (en_data en) t (ob_name (en_obs en) x w) (f x))
      (make_container (en_data en) None) (walked_inputs en w)) n = Some (f x)"
proof -
  note p = plain_inputD [OF assms(2)]
  let ?P = "\<lambda>y. True \<and> ob_name (en_obs en) y w = n"
  have "find ?P (rev (walked_inputs en w)) \<noteq> None" using p(6,8) by (auto simp: find_None_iff)
  then obtain y where "find ?P (rev (walked_inputs en w)) = Some y" by blast
  moreover from find_SomeD [OF this] p(7) have "y = x" by simp
  ultimately show ?thesis
    using child_fold [OF assms(1) child_container(1) [OF assms(1)], where P = "\<lambda>_. True"
        and name = "\<lambda>x. ob_name (en_obs en) x w" and f = f and xs = "walked_inputs en w" and k = n and t1 = None]
    by simp
qed

lemma feedback_paths: "join_path [''mute'', n] = mute_for n" "join_path [''volume'', n] = volume_for n"
  by (simp_all add: join_path_def mute_for_def volume_for_def prefixed_def mute_prefix_def volume_prefix_def)

lemma input_leaves:
  assumes "object_laws (en_data en)" "plain_input en x n w"
  shows "osc_query_schema_lookup en (mute_for n) w =
      or_empty (dt_json (en_data en) (make_rw_int (en_data en) (bool_long (ob_muted (en_obs en) x w)) 0 1 None))"
    "osc_query_schema_lookup en (volume_for n) w =
      or_empty (dt_json (en_data en)
        (make_rw_float (en_data en) (osc_volume_position (ob_volume (en_obs en) x w)) None))"
proof -
  note p = plain_inputD [OF assms(2)]
  have s: "split_path (join_path [s, n]) = [s, n]" if "path_segment s" for s
    by (rule split_join_path) (use that p(1) in simp)
  have d: "descend (en_data en) (Some y) [n] = child_of (en_data en) y n" for y
  proof -
    have "c_str n = n" using p(2) by simp
    then show ?thesis by (simp only: descend.simps option.case child_of_def)
  qed
  show "osc_query_schema_lookup en (mute_for n) w =
      or_empty (dt_json (en_data en) (make_rw_int (en_data en) (bool_long (ob_muted (en_obs en) x w)) 0 1 None))"
    using input_child [OF assms, of "\<lambda>x. make_rw_int (en_data en) (bool_long (ob_muted (en_obs en) x w)) 0 1 None"]
    by (simp add: osc_query_schema_lookup_def walk_tree_def feedback_paths [symmetric] s path_segment_def section_values d build_source_section_def
        source_walk Let_def segment_names child_description [OF assms(1)] del: descend.simps)
  show "osc_query_schema_lookup en (volume_for n) w =
      or_empty (dt_json (en_data en)
        (make_rw_float (en_data en) (osc_volume_position (ob_volume (en_obs en) x w)) None))"
    using input_child [OF assms, of "\<lambda>x. make_rw_float (en_data en) (osc_volume_position (ob_volume (en_obs en) x w)) None"]
    by (simp add: osc_query_schema_lookup_def walk_tree_def feedback_paths [symmetric] s path_segment_def section_values d build_source_section_def
        source_walk Let_def segment_names child_description [OF assms(1)] del: descend.simps)
qed

subsection \<open>The reply to a poll\<close>

lemma plain_lookup:
  assumes "lookup_laws (en_obs en)" "plain_input en x n w"
  obtains w1 where "ob_source_by_name (en_obs en) n w = (Some x, w1)"
    "\<And>y. ob_name (en_obs en) y w1 = ob_name (en_obs en) y w" "\<And>y. ob_type (en_obs en) y w1 = ob_type (en_obs en) y w"
    "\<And>y. ob_muted (en_obs en) y w1 = ob_muted (en_obs en) y w" "\<And>y. ob_volume (en_obs en) y w1 = ob_volume (en_obs en) y w"
proof -
  obtain r w1 where l: "ob_source_by_name (en_obs en) n w = (r, w1)" by fastforce
  from assms(1) l have r: "case r of None \<Rightarrow> \<forall>x \<in> set (ob_sources (en_obs en) w). ob_name (en_obs en) x w \<noteq> n
      | Some x \<Rightarrow> x \<in> set (ob_sources (en_obs en) w) \<and> ob_name (en_obs en) x w = n"
    and k: "\<forall>y. ob_name (en_obs en) y w1 = ob_name (en_obs en) y w \<and> ob_type (en_obs en) y w1 = ob_type (en_obs en) y w \<and>
      ob_muted (en_obs en) y w1 = ob_muted (en_obs en) y w \<and> ob_volume (en_obs en) y w1 = ob_volume (en_obs en) y w"
    unfolding lookup_laws_def by blast+
  have "r = Some x" using r assms(2) by (cases r) (auto simp: plain_input_def)
  show thesis by (rule that [of w1]) (use l k \<open>r = Some x\<close> in simp_all)
qed

lemma poll_single:
  assumes "poll_routes en a to (begin_batch to sv, w) = (True, collected [m] (begin_batch to sv), w')"
    and "can_queue sv" "ep_len to \<noteq> 0"
  shows "sv_send_queue (fst (dispatch_ctl en \<lparr>address = a, args = []\<rparr> to (sv, w))) =
    last_n max_send_queue (sv_send_queue sv @ [packet_to (enc_message m) to])"
  using end_batch_queue [OF assms(2,3), of "[m]"] assms(1)
  by (simp add: dispatch_ctl_def poll_dispatch_def reply_batch_scope_def batch_datagram_def)

lemma input_polls:
  assumes "lookup_laws (en_obs en)" "plain_input en x n w" "can_queue sv" "ep_len to \<noteq> 0"
  shows "sv_send_queue (fst (dispatch_ctl en \<lparr>address = mute_for n, args = []\<rparr> to (sv, w))) =
      last_n max_send_queue (sv_send_queue sv @
        [packet_to (enc_message \<lparr>address = mute_for n, args = [osc_bool (ob_muted (en_obs en) x w)]\<rparr>) to])"
    "sv_send_queue (fst (dispatch_ctl en \<lparr>address = volume_for n, args = []\<rparr> to (sv, w))) =
      last_n max_send_queue (sv_send_queue sv @
        [packet_to (enc_message \<lparr>address = volume_for n,
           args = [osc_flt (osc_volume_position (ob_volume (en_obs en) x w))]\<rparr>) to])"
proof -
  note p = plain_inputD [OF assms(2)]
  obtain w1 where l: "ob_source_by_name (en_obs en) n w = (Some x, w1)"
    "\<And>y. ob_name (en_obs en) y w1 = ob_name (en_obs en) y w" "\<And>y. ob_type (en_obs en) y w1 = ob_type (en_obs en) y w"
    "\<And>y. ob_muted (en_obs en) y w1 = ob_muted (en_obs en) y w" "\<And>y. ob_volume (en_obs en) y w1 = ob_volume (en_obs en) y w"
    by (rule plain_lookup [OF assms(1,2)]) (rule that)
  have b: "batching to (begin_batch to sv)" by (simp add: batching_def begin_batch_def)
  have c: "c_str (mute_for n) = mute_for n" "c_str (volume_for n) = volume_for n"
    using p(2) by (simp_all add: mute_for_def volume_for_def prefixed_def mute_prefix_def volume_prefix_def)
  have "poll_routes en (mute_for n) to (begin_batch to sv, w) = (True,
      collected [\<lparr>address = mute_for n, args = [osc_bool (ob_muted (en_obs en) x w)]\<rparr>] (begin_batch to sv),
      ob_release (en_obs en) x w1)"
    using p(3,5,8,9) l(1) l(2,3,4) [of x]
    by (simp add: poll_routes_mute poll_mute_inputs_def osc_visit_sources_def type_ok_def osc_is_input_def
        reply_collects [OF b] c Let_def)
  from poll_single [OF this assms(3,4)] show "sv_send_queue (fst (dispatch_ctl en \<lparr>address = mute_for n, args = []\<rparr> to (sv, w))) =
      last_n max_send_queue (sv_send_queue sv @
        [packet_to (enc_message \<lparr>address = mute_for n, args = [osc_bool (ob_muted (en_obs en) x w)]\<rparr>) to])" .
  have "poll_routes en (volume_for n) to s = (True, with_input (en_obs en) n
      (\<lambda>source s. reply to (volume_for n) [osc_flt (osc_volume_position (ob_volume (en_obs en) source (snd s)))] s) s)" for s
    using p(3) by (simp add: poll_routes_def poll_frontend_def poll_sources_def Let_def volume_for_def outputs_def route_simps)
  then have "poll_routes en (volume_for n) to (begin_batch to sv, w) = (True,
      collected [\<lparr>address = volume_for n, args = [osc_flt (osc_volume_position (ob_volume (en_obs en) x w))]\<rparr>] (begin_batch to sv),
      ob_release (en_obs en) x w1)"
    using p(9) l(1) l(3,5) [of x]
    by (simp add: with_input_def get_input_by_name_def osc_source_of_type_def osc_is_input_def
        reply_collects [OF b] c with_world_def)
  from poll_single [OF this assms(3,4)] show "sv_send_queue (fst (dispatch_ctl en \<lparr>address = volume_for n, args = []\<rparr> to (sv, w))) =
      last_n max_send_queue (sv_send_queue sv @
        [packet_to (enc_message \<lparr>address = volume_for n,
           args = [osc_flt (osc_volume_position (ob_volume (en_obs en) x w))]\<rparr>) to])" .
qed

end
