(* ===== verification/OscInstances.thy ===== *)
theory OscInstances
  imports OscSubscriber OscLifecycle OscAgreement
begin

text \<open>
  Concrete worlds for the interfaces the model takes as arguments: a socket that delivers a
  given byte string in chunks, settings objects as association lists, and a small OBS with one
  input that has two filters, one scene with one item, reference counts, connections and a
  configuration file.  The properties with a contract as hypothesis are applied to them, so the
  contracts can hold together.
\<close>

subsection \<open>A socket with pending bytes\<close>

definition byte_os :: "nat \<Rightarrow> bytes os_api" where
  "byte_os chunk =
     \<lparr>os_wsa = None, os_socket = (\<lambda>t w. (5, w)),
      os_reuseaddr = (\<lambda>fd w. w), os_bind = (\<lambda>fd port w. (True, w)), os_listen = (\<lambda>fd n w. (True, w)),
      os_shutdown = (\<lambda>fd w. w), os_close = (\<lambda>fd w. w), os_recv_timeout = (\<lambda>fd ms w. w),
      os_getaddrinfo = (\<lambda>host port w. None), os_sendto = (\<lambda>fd d a l w. w),
      os_recv = (\<lambda>fd n w. (take (min n chunk) w, drop (min n chunk) w)),
      os_send = (\<lambda>fd d w. (int (length d), w)), os_accept = (\<lambda>fd w. (7, w)), os_dns = None\<rparr>"

lemma byte_os_stream: "0 < chunk \<Longrightarrow> stream_socket (byte_os chunk) fd (\<lambda>w. w)"
  by (auto simp: stream_socket_def byte_os_def)

lemma byte_os_duplex: "0 < chunk \<Longrightarrow> duplex_socket (byte_os chunk) fd (\<lambda>w. w)"
  by (simp add: duplex_socket_def byte_os_stream) (simp add: byte_os_def)

subsection \<open>Settings objects\<close>

datatype jval =
  JBool bool | JInt int | JFloat f32 | JString string | JNull
| JObject "(string \<times> jval) list" | JArray "(string \<times> jval) list list"

type_synonym jnode = "(string \<times> jval) list"

definition jdata :: "jnode data_api" where
  "jdata =
     \<lparr>dt_new = [], dt_parse = (\<lambda>s. None), dt_json = (\<lambda>d. Some (concat (map fst d))),
      dt_bool = (\<lambda>d k. case map_of d k of Some (JBool b) \<Rightarrow> b | _ \<Rightarrow> False),
      dt_int = (\<lambda>d k. case map_of d k of Some (JInt i) \<Rightarrow> i | _ \<Rightarrow> 0),
      dt_float = (\<lambda>d k. case map_of d k of Some (JFloat x) \<Rightarrow> x | _ \<Rightarrow> 0),
      dt_string = (\<lambda>d k. case map_of d k of Some (JString s) \<Rightarrow> s | _ \<Rightarrow> []),
      dt_obj = (\<lambda>d k. case map_of d k of Some (JObject c) \<Rightarrow> Some c | _ \<Rightarrow> None),
      dt_set_bool = (\<lambda>d k b. AList.update k (JBool b) d),
      dt_set_int = (\<lambda>d k i. AList.update k (JInt i) d),
      dt_set_float = (\<lambda>d k x. AList.update k (JFloat x) d),
      dt_set_string = (\<lambda>d k s. AList.update k (JString s) d),
      dt_set_obj = (\<lambda>d k c. AList.update k (case c of None \<Rightarrow> JNull | Some n \<Rightarrow> JObject n) d),
      dt_set_array = (\<lambda>d k ds. AList.update k (JArray ds) d)\<rparr>"

lemma jdata_objects: "object_laws jdata"
  by (simp add: object_laws_def jdata_def update_conv' split: option.splits)

lemma jdata_scalars: "scalar_laws jdata"
  by (simp add: scalar_laws_def jdata_def update_conv')

subsection \<open>A small OBS\<close>

record demo =
  dm_refs :: "nat \<Rightarrow> int"
  dm_conns :: "connection set"
  dm_file :: jnode
  dm_muted :: "nat \<Rightarrow> bool"
  dm_pos :: "f32 \<times> f32"
  dm_scale :: "f32 \<times> f32"
  dm_rot :: f32
  dm_crop :: item_crop
  dm_busy :: bool
  dm_services :: "(nat \<times> 16 word) list"
  dm_wire :: "int \<Rightarrow> bytes"
  dm_wsa :: int
  dm_sent :: "(bytes \<times> sockaddr \<times> nat) list"

text \<open>Source 11 is the input \<^verbatim>\<open>Mic\<close> with filters 3 and 4, source 2 the scene \<^verbatim>\<open>Main\<close>, item 9 in it.\<close>

definition demo_name :: "nat \<Rightarrow> string" where
  "demo_name x = (if x = 11 then ''Mic'' else if x = 2 then ''Main'' else if x = 3 then ''Gain''
                  else if x = 4 then ''Gate'' else [])"

definition demo_lookup :: "string \<Rightarrow> demo \<Rightarrow> nat option \<times> demo" where
  "demo_lookup n w =
     (if n = ''Mic'' then (Some 11, w\<lparr>dm_refs := (dm_refs w)(11 := dm_refs w 11 + 1)\<rparr>)
      else if n = ''Main'' then (Some 2, w\<lparr>dm_refs := (dm_refs w)(2 := dm_refs w 2 + 1)\<rparr>)
      else (None, w))"

definition demo_obs :: "(demo, jnode) obs_api" where
  "demo_obs =
     \<lparr>ob_source_by_name = demo_lookup,
      ob_get_ref = (\<lambda>x w. (True, w\<lparr>dm_refs := (dm_refs w)(x := dm_refs w x + 1)\<rparr>)),
      ob_release = (\<lambda>x w. w\<lparr>dm_refs := (dm_refs w)(x := dm_refs w x - 1)\<rparr>),
      ob_type = (\<lambda>x w. if x = 2 then SourceScene else if x = 11 then SourceInput else SourceFilter),
      ob_name = (\<lambda>x w. demo_name x),
      ob_muted = (\<lambda>x w. dm_muted w x),
      ob_set_muted = (\<lambda>x b w. w\<lparr>dm_muted := (dm_muted w)(x := b)\<rparr>),
      ob_volume = (\<lambda>x w. f32_one), ob_set_volume = (\<lambda>x v w. w), ob_controllable_media = (\<lambda>x w. False),
      ob_enabled = (\<lambda>x w. True), ob_set_enabled = (\<lambda>x b w. w), ob_showing = (\<lambda>x w. True),
      ob_source_active = (\<lambda>x w. True), ob_filters = (\<lambda>x w. if x = 11 then [3, 4] else []),
      ob_media_state = (\<lambda>x w. 0), ob_media_play_pause = (\<lambda>x b w. w), ob_media_stop = (\<lambda>x w. w),
      ob_media_restart = (\<lambda>x w. w), ob_media_next = (\<lambda>x w. w), ob_media_previous = (\<lambda>x w. w),
      ob_sources = (\<lambda>w. [11, 2]), ob_scenes = (\<lambda>w. [2]),
      ob_scene_items = (\<lambda>x w. if x = 2 then [9] else []), ob_item_source = (\<lambda>i w. if i = 9 then Some 11 else None),
      ob_item_visible = (\<lambda>i w. True), ob_set_item_visible = (\<lambda>i b w. w),
      ob_item_locked = (\<lambda>i w. False), ob_set_item_locked = (\<lambda>i b w. w),
      ob_item_order = (\<lambda>i w. 0), ob_set_item_order = (\<lambda>i p w. w),
      ob_item_pos = (\<lambda>i w. dm_pos w), ob_set_item_pos = (\<lambda>i v w. w\<lparr>dm_pos := v\<rparr>),
      ob_item_scale = (\<lambda>i w. dm_scale w), ob_set_item_scale = (\<lambda>i v w. w\<lparr>dm_scale := v\<rparr>),
      ob_item_rot = (\<lambda>i w. dm_rot w), ob_set_item_rot = (\<lambda>i v w. w\<lparr>dm_rot := v\<rparr>),
      ob_item_crop = (\<lambda>i w. dm_crop w), ob_set_item_crop = (\<lambda>i v w. w\<lparr>dm_crop := v\<rparr>),
      ob_properties = (\<lambda>x w. [(''db'', PropFloat)]), ob_settings = (\<lambda>x w. []), ob_update = (\<lambda>x d w. w),
      ob_hotkeys = (\<lambda>w. [(7, ''hk'')]), ob_hotkey_trigger = (\<lambda>x b w. w)\<rparr>"

definition demo_fe :: "demo frontend_api" where
  "demo_fe =
     \<lparr>fe_current_scene = demo_lookup ''Main'', fe_current_preview = demo_lookup ''none'',
      fe_current_transition = demo_lookup ''none'', fe_transitions = (\<lambda>w. []),
      fe_set_scene = (\<lambda>x w. w), fe_set_preview = (\<lambda>x w. w), fe_set_transition = (\<lambda>x w. w),
      fe_studio_active = (\<lambda>w. False), fe_set_studio = (\<lambda>b w. w), fe_trigger_transition = (\<lambda>w. w),
      fe_screenshot = (\<lambda>w. w), fe_profiles = (\<lambda>w. Some [''P'']), fe_current_profile = (\<lambda>w. Some ''P''),
      fe_set_profile = (\<lambda>n w. w), fe_collections = (\<lambda>w. None), fe_current_collection = (\<lambda>w. None),
      fe_set_collection = (\<lambda>n w. w), fe_streaming_active = (\<lambda>w. False), fe_streaming_start = (\<lambda>w. w),
      fe_streaming_stop = (\<lambda>w. w), fe_recording_active = (\<lambda>w. False), fe_recording_start = (\<lambda>w. w),
      fe_recording_stop = (\<lambda>w. w), fe_recording_paused = (\<lambda>w. False), fe_recording_pause = (\<lambda>b w. w),
      fe_replay_active = (\<lambda>w. False), fe_replay_start = (\<lambda>w. w), fe_replay_stop = (\<lambda>w. w),
      fe_replay_save = (\<lambda>w. w), fe_virtualcam_active = (\<lambda>w. False), fe_virtualcam_start = (\<lambda>w. w),
      fe_virtualcam_stop = (\<lambda>w. w)\<rparr>"

definition demo_sig :: "demo signal_api" where
  "demo_sig =
     \<lparr>sg_connect = (\<lambda>c w. w\<lparr>dm_conns := insert c (dm_conns w)\<rparr>),
      sg_disconnect = (\<lambda>c w. w\<lparr>dm_conns := dm_conns w - {c}\<rparr>),
      sg_add_event_callback = (\<lambda>w. w), sg_remove_event_callback = (\<lambda>w. w)\<rparr>"

text \<open>A responder that hands out consecutive handles; binding fails while the port is busy.\<close>

definition demo_dns :: "demo dns_api" where
  "demo_dns =
     \<lparr>dns_gethostname = (\<lambda>n w. Some ''studio''),
      dns_register = (\<lambda>name type port w.
        (Inr (Suc (Max (insert 0 (fst ` set (dm_services w))))),
         w\<lparr>dm_services := (Suc (Max (insert 0 (fst ` set (dm_services w)))), port) # dm_services w\<rparr>)),
      dns_deallocate = (\<lambda>r w. w\<lparr>dm_services := filter (\<lambda>x. fst x \<noteq> r) (dm_services w)\<rparr>)\<rparr>"

lemma demo_dns_ok: "dns_contract demo_dns dm_services"
proof -
  have "Suc (Max (insert 0 (fst ` set xs))) \<notin> fst ` set xs" for xs :: "(nat \<times> 16 word) list"
  proof
    assume "Suc (Max (insert 0 (fst ` set xs))) \<in> fst ` set xs"
    then have "Suc (Max (insert 0 (fst ` set xs))) \<le> Max (insert 0 (fst ` set xs))"
      by (intro Max_ge) simp_all
    then show False by simp
  qed
  then show ?thesis by (auto simp: dns_contract_def demo_dns_def)
qed

definition demo_os :: "demo os_api" where
  "demo_os =
     \<lparr>os_wsa = Some \<lparr>wsa_startup = (\<lambda>w. (0, w\<lparr>dm_wsa := dm_wsa w + 1\<rparr>)), wsa_cleanup = (\<lambda>w. w\<lparr>dm_wsa := dm_wsa w - 1\<rparr>)\<rparr>,
      os_socket = (\<lambda>t w. (5, w)),
      os_reuseaddr = (\<lambda>fd w. w), os_bind = (\<lambda>fd port w. (\<not> dm_busy w, w)), os_listen = (\<lambda>fd n w. (True, w)),
      os_shutdown = (\<lambda>fd w. w), os_close = (\<lambda>fd w. w), os_recv_timeout = (\<lambda>fd ms w. w),
      os_getaddrinfo = (\<lambda>host port w. None),
      os_sendto = (\<lambda>fd d a l w. w\<lparr>dm_sent := dm_sent w @ [(d, a, l)]\<rparr>),
      os_recv = (\<lambda>fd n w. ([], w)),
      os_send = (\<lambda>fd d w. (int (length d), w\<lparr>dm_wire := (dm_wire w)(fd := dm_wire w fd @ d)\<rparr>)),
      os_accept = (\<lambda>fd w. (- 1, w)),
      os_dns = Some demo_dns\<rparr>"

definition demo_libm :: libm where
  "demo_libm = \<lparr>lm_log10 = (\<lambda>x. x), lm_pow = (\<lambda>x y. x), lm_oor = (\<lambda>x. 0)\<rparr>"

text \<open>Every text that is not empty is a LISTEN to itself.\<close>

definition demo_parse :: "string \<Rightarrow> jnode option" where
  "demo_parse s = (if s = [] then None else Some [(''COMMAND'', JString ''LISTEN''), (''DATA'', JString s)])"

definition demo_ws_env :: "jnode ws_env" where
  "demo_ws_env = \<lparr>js_parse = demo_parse, js_string = dt_string jdata, sha1_base64 = to_string\<rparr>"

definition demo_env :: "(demo, jnode) env" where
  "demo_env =
     \<lparr>en_os = demo_os, en_obs = demo_obs, en_fe = demo_fe, en_sig = demo_sig, en_data = jdata,
      en_lm = demo_libm, en_ws = demo_ws_env\<rparr>"

lemma demo_env_simps [simp]:
  "en_os demo_env = demo_os" "en_obs demo_env = demo_obs" "en_fe demo_env = demo_fe" "en_sig demo_env = demo_sig"
  "en_data demo_env = jdata" "en_lm demo_env = demo_libm" "en_ws demo_env = demo_ws_env"
  by (simp_all add: demo_env_def)

definition demo_md :: "(demo, jnode) module_api" where
  "demo_md =
     \<lparr>md_config_path = (\<lambda>f w. Some ''/etc/plugin-config.json''), md_mkdirs = (\<lambda>d w. w),
      md_load_json = (\<lambda>path bak w. Some (dm_file w)), md_save_json = (\<lambda>d path t b w. w\<lparr>dm_file := d\<rparr>),
      md_add_menu_item = (\<lambda>name w. w), md_get_string = (\<lambda>k w. None)\<rparr>"

definition demo_world :: demo where
  "demo_world =
     \<lparr>dm_refs = (\<lambda>_. 0), dm_conns = {}, dm_file = [], dm_muted = (\<lambda>_. False), dm_pos = (0, 0),
      dm_scale = (f32_one, f32_one), dm_rot = 0,
      dm_crop = \<lparr>crop_left = 0, crop_top = 0, crop_right = 0, crop_bottom = 0\<rparr>, dm_busy = False,
      dm_services = [], dm_wire = (\<lambda>_. []), dm_wsa = 0, dm_sent = []\<rparr>"

definition demo_ws :: "demo ws_state" where
  "demo_ws = \<lparr>ws_heap = (\<lambda>_. \<lparr>cn_fd = invalid_socket, cn_open = False\<rparr>), ws_conns = [], ws_reg = new_registry,
              ws_world = demo_world\<rparr>"

definition demo_plugin :: "demo plugin" where
  "demo_plugin = new_plugin demo_ws"

lemma demo_lookup_takes: "takes_ref dm_refs (demo_lookup n)"
  by (auto simp: takes_ref_def demo_lookup_def)

lemma demo_obs_balanced: "balanced_obs dm_refs demo_obs"
  by (simp add: balanced_obs_def keeps_refs_def demo_obs_def demo_lookup_takes)

lemma demo_fe_balanced: "balanced_frontend dm_refs demo_fe"
  by (simp add: balanced_frontend_def keeps_refs_def demo_fe_def demo_lookup_takes)

lemma demo_signals: "signal_contract dm_refs dm_conns demo_env"
  by (simp add: signal_contract_def demo_env_def demo_sig_def demo_obs_def)

lemma demo_wire: "wire_log demo_os (\<lambda>fd w. dm_wire w fd)"
  by (simp add: wire_log_def demo_os_def)

lemma demo_sends: "datagram_wire demo_os dm_sent"
  by (simp add: datagram_wire_def demo_os_def net_cleanup_def close_wake_def close_socket_def)

lemma demo_frame: "bonjour_frame demo_os dm_services"
  by (simp add: bonjour_frame_def demo_os_def net_init_def net_cleanup_def)

lemma demo_counted: "counted_plugin demo_env demo_md dm_wsa"
  by (simp add: counted_plugin_def counted_sockets_def demo_os_def demo_dns_def demo_md_def)

lemma demo_stable: "sources_stable demo_obs"
  by (simp add: sources_stable_def demo_obs_def)

lemma demo_items: "item_laws demo_obs"
  by (simp add: item_laws_def demo_obs_def)

lemma demo_access [simp]:
  "ob_muted demo_obs x w = dm_muted w x" "ob_sources demo_obs w = [11, 2]" "ob_name demo_obs x w = demo_name x"
  "ob_type demo_obs x w = (if x = 2 then SourceScene else if x = 11 then SourceInput else SourceFilter)"
  "ob_filters demo_obs x w = (if x = 11 then [3, 4] else [])" "fst (ob_get_ref demo_obs x w)"
  "ob_source_by_name demo_obs = demo_lookup"
  by (simp_all add: demo_obs_def)

lemma demo_lookups: "lookup_laws demo_obs"
  by (auto simp: lookup_laws_def demo_obs_def demo_lookup_def demo_name_def split: if_splits)

lemma demo_mic: "plain_input demo_env 11 ''Mic'' w"
  by (simp add: plain_input_def path_segment_def c_string_def osc_has_wildcard_def osc_is_input_def demo_name_def)

lemma demo_mutes: "mute_laws demo_obs"
  by (simp add: mute_laws_def demo_obs_def)

lemma demo_files: "file_laws demo_md ''/etc/plugin-config.json''"
  by (simp add: file_laws_def demo_md_def)

text \<open>A poll takes and gives back references only: the rest of the world is its view.\<close>

definition demo_view :: "demo \<Rightarrow> jnode \<times> (nat \<Rightarrow> bool)" where
  "demo_view w = (dm_file w, dm_muted w)"

lemma demo_reads: "reads_only demo_view demo_env"
  by (simp add: reads_only_def demo_view_def demo_env_def demo_obs_def demo_fe_def demo_lookup_def)

end
