(* ===== verification/OscDelivery.thy ===== *)
theory OscDelivery
  imports OscServer "HOL-Library.Sublist"
begin

text \<open>
  The transport over time (\<^verbatim>\<open>osc-server.cpp\<close>): an infinite schedule interleaves the operations of a
  running server, the receiver's and the sender's passes, in any order.  The lemmas show what a
  fair schedule delivers: everything queued is handed to \<^verbatim>\<open>sendto\<close>, in order, except what a full
  queue has displaced.
\<close>

subsection \<open>Runs\<close>

text \<open>The operations of the threads while the server runs; a batch that ends queues one datagram.\<close>

datatype transport_event =
    Queued out_packet
  | SenderPass
  | Received "(bytes \<times> sockaddr \<times> nat) option"
  | Retarget string int

text \<open>A run's state: the datagrams handed to \<^verbatim>\<open>sendto\<close> so far, the server and the world.\<close>

type_synonym 'w transport_state = "out_packet list \<times> server \<times> 'w"

fun transport_event_step :: "'w os_api \<Rightarrow> transport_event \<Rightarrow> 'w transport_state \<Rightarrow> 'w transport_state" where
  "transport_event_step os (Queued p) (sent, s, w) = (sent, push_packet p s, w)"
| "transport_event_step os SenderPass (sent, s, w) =
     (case send_pass os s w of
        Some (SendOne s' w') \<Rightarrow> (sent @ [hd (sv_send_queue s)], s', w')
      | _ \<Rightarrow> (sent, s, w))"
| "transport_event_step os (Received dgram) (sent, s, w) =
     (case recv_pass dgram s of (go, call, s') \<Rightarrow> (sent, s', w))"
| "transport_event_step os (Retarget host port) (sent, s, w) =
     (sent, set_feedback_target os host port w s, w)"

primrec transport_run :: "'w os_api \<Rightarrow> (nat \<Rightarrow> transport_event) \<Rightarrow> server \<Rightarrow> 'w \<Rightarrow> nat \<Rightarrow> 'w transport_state" where
  "transport_run os ev s w 0 = ([], s, w)"
| "transport_run os ev s w (Suc k) = transport_event_step os (ev k) (transport_run os ev s w k)"

abbreviation run_sent :: "'w transport_state \<Rightarrow> out_packet list" where
  "run_sent c \<equiv> fst c"

abbreviation run_queue :: "'w transport_state \<Rightarrow> out_packet list" where
  "run_queue c \<equiv> sv_send_queue (fst (snd c))"

text \<open>What the schedule offers to the queue, and how often a push finds it full.\<close>

primrec offered :: "(nat \<Rightarrow> transport_event) \<Rightarrow> nat \<Rightarrow> out_packet list" where
  "offered ev 0 = []"
| "offered ev (Suc k) =
     (case ev k of Queued p \<Rightarrow> if sendable p then offered ev k @ [p] else offered ev k | _ \<Rightarrow> offered ev k)"

primrec overflows :: "'w os_api \<Rightarrow> (nat \<Rightarrow> transport_event) \<Rightarrow> server \<Rightarrow> 'w \<Rightarrow> nat \<Rightarrow> nat" where
  "overflows os ev s w 0 = 0"
| "overflows os ev s w (Suc k) =
     (case ev k of
        Queued p \<Rightarrow>
          if sendable p \<and> length (run_queue (transport_run os ev s w k)) = max_send_queue
          then Suc (overflows os ev s w k) else overflows os ev s w k
      | _ \<Rightarrow> overflows os ev s w k)"

definition fair_sender :: "(nat \<Rightarrow> transport_event) \<Rightarrow> bool" where
  "fair_sender ev \<longleftrightarrow> (\<forall>n. \<exists>m \<ge> n. ev m = SenderPass)"

subsection \<open>What every run keeps\<close>

lemma transport_step_frame:
  assumes "can_queue s" "transport_event_step os e (sent, s, w) = (sent', s', w')"
  shows "can_queue s' \<and> sv_fd s' = sv_fd s"
proof (cases e)
  case (Queued p)
  with assms sq.ready_push [OF assms(1), of p] show ?thesis
    by (auto simp: push_packet_def enqueue_frame)
next
  case SenderPass
  with assms show ?thesis
    by (auto simp: send_pass_def can_queue_def Let_def split: list.splits if_splits)
next
  case (Received dgram)
  with assms show ?thesis
    by (auto simp: recv_pass_def can_queue_def Let_def split: option.splits if_splits)
next
  case (Retarget host port)
  with assms show ?thesis
    by (auto simp: set_feedback_target_def can_queue_def Let_def split: option.splits if_splits)
qed

lemma send_pass_running:
  "can_queue s \<Longrightarrow> send_pass os s w =
     (case sv_send_queue s of [] \<Rightarrow> None
      | p # q \<Rightarrow> Some (SendOne (s\<lparr>sv_send_queue := q\<rparr>) (os_sendto os (sv_fd s) (pk_data p) (pk_target p) (pk_target_len p) w)))"
  by (simp add: send_pass_def can_queue_def split: list.splits)

lemma queue_recv: "recv_pass dgram s = (go, call, s') \<Longrightarrow> sv_send_queue s' = sv_send_queue s"
  by (auto simp: recv_pass_def Let_def split: option.splits if_splits)

lemma queue_target: "sv_send_queue (set_feedback_target os host port w s) = sv_send_queue s"
  by (auto simp: set_feedback_target_def Let_def split: option.splits)

lemma suffix_last_n: "suffix (last_n n xs) xs"
  by (simp add: last_n_def suffix_drop)

lemma push_running:
  assumes "can_queue s" "sendable p"
  shows "sv_send_queue (push_packet p s) =
    (if length (sv_send_queue s) = max_send_queue then tl (sv_send_queue s) else sv_send_queue s) @ [p]"
proof -
  from assms(1) have l: "length (sv_send_queue s) \<le> max_send_queue" by (simp add: can_queue_def)
  moreover have "max_send_queue > 0" by (simp add: max_send_queue_def)
  ultimately have "sv_send_queue s \<noteq> []" if "length (sv_send_queue s) = max_send_queue" using that by auto
  with l show ?thesis
    using sq.contents_push [OF assms] tl_last_n [of "sv_send_queue s" max_send_queue p]
    by (auto simp: last_n_id)
qed

text \<open>The accounting invariant: \<open>T\<close> is everything ever queued, oldest first.\<close>

definition accounted :: "'w os_api \<Rightarrow> int \<Rightarrow> 'w \<Rightarrow> out_packet list \<Rightarrow> nat \<Rightarrow> 'w transport_state \<Rightarrow> bool" where
  "accounted os fd w0 T lost c \<longleftrightarrow>
     can_queue (fst (snd c)) \<and> sv_fd (fst (snd c)) = fd \<and> suffix (run_queue c) T \<and>
     subseq (run_sent c @ run_queue c) T \<and>
     length (run_sent c) + length (run_queue c) + lost = length T \<and>
     snd (snd c) = deliver os fd (run_sent c) w0"

lemma deliver_snoc:
  "deliver os fd (ps @ [p]) w =
     os_sendto os fd (pk_data p) (pk_target p) (pk_target_len p) (deliver os fd ps w)"
  by (simp add: deliver_def)

lemma accounted_push:
  assumes "accounted os fd w0 T lost (sent, s, w)"
  shows "accounted os fd w0 (if sendable p then T @ [p] else T)
    (if sendable p \<and> length (sv_send_queue s) = max_send_queue then Suc lost else lost)
    (sent, push_packet p s, w)"
proof (cases "sendable p")
  case True
  let ?q = "if length (sv_send_queue s) = max_send_queue then tl (sv_send_queue s) else sv_send_queue s"
  from assms have cq: "can_queue s" by (simp add: accounted_def)
  have tq: "suffix ?q (sv_send_queue s)" by (simp add: suffix_tl)
  have "subseq (sent @ ?q) (sent @ sv_send_queue s)"
    by (rule list_emb_append_mono [OF subseq_order.order_refl suffix_imp_subseq [OF tq]])
  with assms have sub: "subseq (sent @ ?q) T" by (auto simp: accounted_def intro: subseq_order.order_trans)
  from assms have "suffix (sv_send_queue s) T" by (simp add: accounted_def)
  with tq have suf: "suffix ?q T" by (rule suffix_order.order_trans)
  have fr: "can_queue (push_packet p s)" "sv_fd (push_packet p s) = sv_fd s"
    using transport_step_frame [OF cq, of os "Queued p" sent w] by simp_all
  have q: "sv_send_queue (push_packet p s) = ?q @ [p]" by (rule push_running [OF cq True])
  have "max_send_queue > 0" by (simp add: max_send_queue_def)
  then have len: "length sent + length (?q @ [p]) +
      (if length (sv_send_queue s) = max_send_queue then Suc lost else lost) = Suc (length T)"
    using assms by (simp add: accounted_def)
  have "subseq ((sent @ ?q) @ [p]) (T @ [p])" using sub by (rule list_emb_append_mono) simp
  with assms True fr q len suf show ?thesis by (simp add: accounted_def)
next
  case False
  then have "push_packet p s = s" by (auto simp: push_packet_def sendable_def enqueue_skip)
  with assms False show ?thesis by simp
qed

lemma accounted_send:
  assumes "accounted os fd w0 T lost (sent, s, w)"
  shows "accounted os fd w0 T lost (transport_event_step os SenderPass (sent, s, w))"
proof (cases "sv_send_queue s")
  case Nil
  with assms show ?thesis by (simp add: send_pass_running accounted_def)
next
  case (Cons p q)
  from assms have "suffix (p # q) T" by (simp add: accounted_def Cons)
  then have "suffix q T" by (rule suffix_ConsD)
  with assms Cons show ?thesis
    by (auto simp: send_pass_running accounted_def deliver_snoc can_queue_def)
qed

lemma accounted_other:
  assumes "accounted os fd w0 T lost (sent, s, w)" "sv_send_queue s' = sv_send_queue s"
    and "can_queue s'" "sv_fd s' = sv_fd s"
  shows "accounted os fd w0 T lost (sent, s', w)"
  using assms by (simp add: accounted_def)

lemma transport_run_accounted:
  assumes "can_queue s"
  shows "accounted os (sv_fd s) w (sv_send_queue s @ offered ev k) (overflows os ev s w k) (transport_run os ev s w k)"
proof (induction k)
  case 0
  with assms show ?case by (simp add: accounted_def deliver_def)
next
  case (Suc k)
  obtain sent s1 w1 where c: "transport_run os ev s w k = (sent, s1, w1)" by (metis prod_cases3)
  from Suc.IH c have cq: "can_queue s1" by (simp add: accounted_def)
  show ?case
  proof (cases "ev k")
    case (Queued p)
    with accounted_push [OF Suc.IH [unfolded c], of p] show ?thesis by (auto simp: c)
  next
    case SenderPass
    with accounted_send [OF Suc.IH [unfolded c]] show ?thesis by (simp add: c)
  next
    case (Received dgram)
    obtain go call s' where r: "recv_pass dgram s1 = (go, call, s')" by (metis prod_cases3)
    have "can_queue s' \<and> sv_fd s' = sv_fd s1"
      by (rule transport_step_frame [OF cq, of os "Received dgram" sent w1 sent _ w1]) (simp add: r)
    with accounted_other [OF Suc.IH [unfolded c] queue_recv [OF r]] Received r show ?thesis
      by (simp add: c)
  next
    case (Retarget host port)
    have "can_queue (set_feedback_target os host port w1 s1) \<and>
        sv_fd (set_feedback_target os host port w1 s1) = sv_fd s1"
      by (rule transport_step_frame [OF cq, of os "Retarget host port" sent w1 sent _ w1]) simp
    with accounted_other [OF Suc.IH [unfolded c] queue_target [of os host port w1 s1]] Retarget show ?thesis
      by (simp add: c)
  qed
qed

subsection \<open>What a fair schedule delivers\<close>

text \<open>How many datagrams have left the queue, one way or the other.\<close>

definition departed :: "'w transport_state \<Rightarrow> nat \<Rightarrow> nat" where
  "departed c lost = length (run_sent c) + lost"

lemma departed_mono:
  "i \<le> k \<Longrightarrow> departed (transport_run os ev s w i) (overflows os ev s w i) \<le>
     departed (transport_run os ev s w k) (overflows os ev s w k)"
proof (induction k rule: dec_induct)
  case (step k)
  obtain sent s1 w1 where c: "transport_run os ev s w k = (sent, s1, w1)" by (metis prod_cases3)
  have "departed (transport_run os ev s w k) (overflows os ev s w k) \<le>
      departed (transport_run os ev s w (Suc k)) (overflows os ev s w (Suc k))"
    by (cases "ev k") (auto simp: c departed_def split: option.splits send_result.splits prod.splits)
  with step.IH show ?case by linarith
qed simp

lemma departed_pass:
  assumes "can_queue s" "ev k = SenderPass" "run_queue (transport_run os ev s w k) \<noteq> []"
  shows "departed (transport_run os ev s w (Suc k)) (overflows os ev s w (Suc k)) =
    Suc (departed (transport_run os ev s w k) (overflows os ev s w k))"
proof -
  obtain sent s1 w1 where c: "transport_run os ev s w k = (sent, s1, w1)" by (metis prod_cases3)
  from transport_run_accounted [OF assms(1), of os w ev k] c have "can_queue s1" by (simp add: accounted_def)
  with assms show ?thesis
    by (simp add: c departed_def send_pass_running split: list.splits)
qed

lemma fair_departure:
  assumes "can_queue s" "fair_sender ev" "d \<le> length (sv_send_queue s @ offered ev n)"
  shows "\<exists>k \<ge> n. d \<le> departed (transport_run os ev s w k) (overflows os ev s w k)"
  using assms(3)
proof (induction d)
  case (Suc d)
  then obtain k where k: "k \<ge> n" "d \<le> departed (transport_run os ev s w k) (overflows os ev s w k)" by auto
  from assms(2) obtain m where m: "m \<ge> k" "ev m = SenderPass" by (auto simp: fair_sender_def)
  let ?c = "transport_run os ev s w m" and ?l = "overflows os ev s w m"
  have d: "d \<le> departed ?c ?l"
    using k(2) departed_mono [OF m(1), of os ev s w] by linarith
  show ?case
  proof (cases "run_queue ?c = []")
    case True
    from transport_run_accounted [OF assms(1), of os w ev m] True
    have "departed ?c ?l = length (sv_send_queue s @ offered ev m)"
      by (simp add: accounted_def departed_def)
    moreover have "length (offered ev n) \<le> length (offered ev m)"
      using le_trans [OF k(1) m(1)]
      by (induction m rule: dec_induct) (auto split: transport_event.splits)
    ultimately show ?thesis using Suc.prems k(1) m(1) by (intro exI [of _ m]) auto
  next
    case False
    from departed_pass [OF assms(1) m(2) False] d k(1) m(1) show ?thesis
      by (intro exI [of _ "Suc m"]) simp
  qed
qed auto

lemma subseq_full: "subseq xs ys \<Longrightarrow> length xs = length ys \<Longrightarrow> xs = ys"
  by (simp add: subseq_same_length)

lemma offered_prefix: "n \<le> k \<Longrightarrow> prefix (offered ev n) (offered ev k)"
  by (induction k rule: dec_induct)
    (auto split: transport_event.splits intro: prefix_order.order_trans)

text \<open>
  By some moment everything queued up to \<open>n\<close> has left the queue: sent in the order it was queued,
  or displaced, each overflow displacing one datagram; with no overflow all of it was sent.
\<close>

lemma fair_delivery:
  assumes "can_queue s" "fair_sender ev"
  shows "\<exists>k \<ge> n. let sent = run_sent (transport_run os ev s w k); lost = overflows os ev s w k in
    length (sv_send_queue s @ offered ev n) \<le> length sent + lost \<and>
    subseq sent (sv_send_queue s @ offered ev k) \<and>
    (lost = 0 \<longrightarrow> prefix (sv_send_queue s @ offered ev n) sent) \<and>
    snd (snd (transport_run os ev s w k)) = deliver os (sv_fd s) sent w"
proof -
  let ?T = "\<lambda>k. sv_send_queue s @ offered ev k"
  from fair_departure [OF assms order_refl, of n os w]
  obtain k where k: "k \<ge> n"
    "length (?T n) \<le> length (run_sent (transport_run os ev s w k)) + overflows os ev s w k"
    by (auto simp: departed_def)
  let ?c = "transport_run os ev s w k" and ?lost = "overflows os ev s w k"
  have a: "accounted os (sv_fd s) w (?T k) ?lost ?c" by (rule transport_run_accounted [OF assms(1)])
  have sub: "subseq (run_sent ?c) (?T k)"
    using a prefix_imp_subseq [of "run_sent ?c" "run_sent ?c @ run_queue ?c"]
    by (meson accounted_def prefixI subseq_order.order_trans)
  have "prefix (?T n) (run_sent ?c)" if "?lost = 0"
  proof -
    from a that have "run_sent ?c @ run_queue ?c = ?T k"
      by (intro subseq_full) (auto simp: accounted_def)
    then have "prefix (run_sent ?c) (?T k)" by (metis prefixI)
    moreover have "prefix (?T n) (?T k)" using offered_prefix [OF k(1)] by simp
    ultimately show ?thesis using k(2) that by (metis add_0_right prefix_length_prefix)
  qed
  with k sub a show ?thesis by (auto simp: accounted_def Let_def)
qed

end
