(* ===== verification/PropsWire.thy ===== *)
theory PropsWire
  imports OscInstances OscDelivery
begin

text \<open>
  The properties of the wire format, the pattern matcher and the transport, each with an
  application at a concrete input where it has hypotheses.
\<close>

subsection \<open>Packets\<close>


text \<open>C3. Building a message and parsing the bytes gives back the message, with every argument of
  every type, after the messages already collected; the build is what every reply and every
  feedback message is sent as.\<close>

theorem packet_round_trip:
  assumes "wire_message m" "length (enc_message m) < 2 ^ 64"
  shows "osc_parse_packet (enc_message m) out = Some (True, out @ [m])"
  using osc_parse_packet_build [of m out] assms by (simp add: enc_message_def)

definition sample_message :: osc_message where
  "sample_message = \<lparr>address = ''/a'', args = [osc_int 7, osc_str ''hi'', osc_blob [1, 2]]\<rparr>"

lemma sample_wire: "wire_message sample_message"
  by (auto simp: sample_message_def wire_message_def wire_arg_def c_string_def)

lemma sample_bytes: "length (enc_message sample_message) = 28"
  by code_simp

theorem packet_round_trip_witness:
  "osc_parse_packet (enc_message sample_message) [] = Some (True, [sample_message])"
  using packet_round_trip [of sample_message "[]"] sample_wire sample_bytes by simp

text \<open>C36. Whatever a datagram holds, the messages parsed from it have a non-empty address that
  starts with a slash and contains no NUL, and arguments of known types whose strings contain
  no NUL; a datagram that is rejected adds nothing.\<close>

theorem parsed_messages_well_formed:
  assumes "osc_parse_packet data out = Some (ok, out')"
  shows "\<exists>ms. out' = out @ ms \<and> (\<forall>m \<in> set ms. parsed_message m) \<and> (\<not> ok \<longrightarrow> ms = [])"
  using osc_parse_packet_parsed(1) [OF assms] .

theorem parsed_messages_well_formed_witness:
  "\<exists>ms. [sample_message] = [] @ ms \<and> (\<forall>m \<in> set ms. parsed_message m)"
proof -
  have "osc_parse_packet (enc_message sample_message) [] = Some (True, [sample_message])"
    using osc_parse_packet_build [of sample_message "[]"] sample_wire sample_bytes
    by (simp add: enc_message_def)
  from parsed_messages_well_formed [OF this] show ?thesis by blast
qed

text \<open>C37. A batch of replies is one datagram, a single message or a bundle, that the receiving
  side takes apart into exactly those messages in order, queued for the UI thread as one task
  with the sender.\<close>

theorem batch_becomes_one_task:
  assumes "ms \<noteq> []" "\<forall>m \<in> set ms. wire_element m" "length (batch_datagram (map enc_message ms)) < 2 ^ 64"
  shows "handle_datagram (batch_datagram (map enc_message ms)) sender tasks = Some (tasks @ [(ms, sender)])"
  by (rule handle_datagram_batch [OF assms])

lemma sample_batch: "length (batch_datagram (map enc_message [sample_message, sample_message])) = 80"
  by code_simp

theorem batch_becomes_one_task_witness:
  "handle_datagram (batch_datagram (map enc_message [sample_message, sample_message])) no_endpoint [] =
     Some [([sample_message, sample_message], no_endpoint)]"
  using batch_becomes_one_task [of "[sample_message, sample_message]" no_endpoint "[]"] sample_wire
    sample_bytes sample_batch by (simp add: wire_element_def)

subsection \<open>Patterns\<close>

text \<open>C4. The two-pointer glob loop decides the same relation as the textbook recursion for \<open>*\<close> and
  \<open>?\<close>, on every subject without a star in it (where the loop takes a star of the subject for
  the star of the pattern).\<close>

theorem glob_is_textbook_glob:
  assumes "CHR ''*'' \<notin> set s"
  shows "osc_glob_match p s \<longleftrightarrow> glob_spec p s"
  by (rule osc_glob_match_spec [OF assms])

theorem glob_is_textbook_glob_witness:
  "osc_glob_match ''M?c*'' ''Mic 1'' \<longleftrightarrow> glob_spec ''M?c*'' ''Mic 1''"
  using glob_is_textbook_glob [of "''Mic 1''" "''M?c*''"] by simp

text \<open>C39. Matching a pattern of length m against a subject of length n ends within
  (n + 1) * (m + 1) + m iterations of the loop: with that budget the loop returns, and returns the
  answer of the matcher.\<close>

theorem glob_cost:
  "glob_fuel ((length s + 1) * (length p + 1) + length p) p s None = Some (osc_glob_match p s)"
  by (rule glob_fuel_bound)

subsection \<open>The outbound queue\<close>

definition sample_server :: server where
  "sample_server = new_server\<lparr>sv_fd := 5, sv_handler := True, sv_running := True, sv_send_running := True\<rparr>"

definition sample_packet :: out_packet where
  "sample_packet = \<lparr>pk_target = SockIn 9000 1 [], pk_target_len = 16, pk_data = [1]\<rparr>"

lemma sample_can_queue: "can_queue sample_server"
  by (simp add: can_queue_def sample_server_def new_server_def invalid_socket_def)

text \<open>C6. Queueing a burst on a running server leaves in the queue the newest 1024 of the old and the
  new datagrams, in order, without those that have no target or no data; what is dropped is
  always the oldest.\<close>

theorem burst_keeps_newest:
  assumes "can_queue s"
  shows "sv_send_queue (foldl (\<lambda>s p. push_packet p s) s ps) =
    last_n max_send_queue (sv_send_queue s @ filter sendable ps)"
  using sq.contents_burst [OF assms] by blast

theorem burst_keeps_newest_witness:
  "sv_send_queue (foldl (\<lambda>s p. push_packet p s) sample_server [sample_packet, sample_packet]) =
     [sample_packet, sample_packet]"
  using burst_keeps_newest [OF sample_can_queue, of "[sample_packet, sample_packet]"]
  by (simp add: sample_packet_def sendable_def last_n_def max_send_queue_def sample_server_def new_server_def)

text \<open>C7. Stopping a running server delivers every queued datagram in order before it closes the
  socket, and resets the state of the run: no socket, no handler, no remembered sender, an empty
  queue; the feedback target is kept.\<close>

theorem stop_drains_queue:
  assumes "server_inv s" "sv_running s"
  shows "server_stop os s w =
    (s\<lparr>sv_running := False, sv_send_running := False, sv_fd := invalid_socket, sv_handler := False,
        sv_last_sender := no_addr, sv_last_sender_len := 0, sv_have_sender := False, sv_send_queue := []\<rparr>,
     net_cleanup os (close_wake os (sv_fd s) (deliver os (sv_fd s) (sv_send_queue s) w)))"
  using server_stop_running [of s os w] assms by (simp add: server_inv_def)

theorem stop_drains_queue_witness:
  "sv_fd (fst (server_stop (byte_os 1) sample_server [])) = invalid_socket"
proof -
  have "server_inv sample_server"
    by (simp add: server_inv_def sample_server_def new_server_def invalid_socket_def)
  moreover have "sv_running sample_server" by (simp add: sample_server_def)
  ultimately show ?thesis using stop_drains_queue [of sample_server "byte_os 1" "[]"] by simp
qed

text \<open>C5. Under a fair schedule, in which the sender makes a pass again and again while other threads
  queue datagrams, datagrams come in and the feedback target changes, in any order: for every
  moment there is a later one at which everything queued up to then has left the queue.  What was
  handed to \<^verbatim>\<open>sendto\<close> is in the order it was queued, nothing is sent twice, and only a push that
  finds the queue full costs a datagram; without one, everything was sent.\<close>

theorem fair_sender_delivers:
  assumes "can_queue s" "fair_sender ev"
  shows "\<exists>k \<ge> n. let sent = run_sent (transport_run os ev s w k); lost = overflows os ev s w k in
    length (sv_send_queue s @ offered ev n) \<le> length sent + lost \<and>
    subseq sent (sv_send_queue s @ offered ev k) \<and>
    (lost = 0 \<longrightarrow> prefix (sv_send_queue s @ offered ev n) sent) \<and>
    snd (snd (transport_run os ev s w k)) = deliver os (sv_fd s) sent w"
  by (rule fair_delivery [OF assms])

definition one_packet_schedule :: "nat \<Rightarrow> transport_event" where
  "one_packet_schedule k = (if k = 0 then Queued sample_packet else if even k then Received None else SenderPass)"

lemma one_packet_fair: "fair_sender one_packet_schedule"
  unfolding fair_sender_def
proof
  fix n :: nat
  have "one_packet_schedule (Suc (2 * n)) = SenderPass" by (simp add: one_packet_schedule_def)
  then show "\<exists>m \<ge> n. one_packet_schedule m = SenderPass" by (intro exI [of _ "Suc (2 * n)"]) simp
qed

lemma one_packet_no_overflow: "overflows os one_packet_schedule sample_server w k = 0"
  by (induction k) (simp_all add: one_packet_schedule_def max_send_queue_def sample_server_def new_server_def)

theorem fair_sender_delivers_witness:
  "\<exists>k \<ge> 1. prefix [sample_packet] (run_sent (transport_run (byte_os 1) one_packet_schedule sample_server [] k))"
  using fair_sender_delivers [OF sample_can_queue one_packet_fair, of 1 "byte_os 1" "[]"]
  by (simp add: one_packet_no_overflow Let_def)
    (auto simp: one_packet_schedule_def sample_packet_def sendable_def sample_server_def new_server_def)

end
