(* ===== verification/PropsNet.thy ===== *)
theory PropsNet
  imports OscInstances OscTopics
begin

text \<open>
  The properties of the subscriber registry, the WebSocket sessions and the HTTP server, each
  with an application at a concrete input where it has hypotheses.
\<close>

subsection \<open>Subscriptions\<close>






subsection \<open>WebSocket sessions\<close>



text \<open>C17. A command sent in fragments, with any masks and however the stream cuts them up, acts once,
  as the concatenation of its parts, and the session goes on behind it.\<close>

theorem fragments_act_once:
  assumes "stream_socket os fd pending" and "xs \<noteq> []" "\<forall>(key, p) \<in> set xs. length key = 4"
    and "length (concat (map snd xs)) \<le> max_message"
    and "pending (ws_world s) = client_fragments op_text xs @ rest"
  shows "\<exists>w. pending w = rest \<and>
      serve_loop os env c fd l s =
      serve_loop os env c fd \<lparr>wl_assembled = [], wl_assembling = 0\<rparr>
        (s\<lparr>ws_world := w, ws_reg := handle_text env c (concat (map snd xs)) (ws_reg s)\<rparr>)"
  by (rule serve_fragments [OF assms])

definition byte_ws :: "bytes \<Rightarrow> bytes ws_state" where
  "byte_ws w = \<lparr>ws_heap = (\<lambda>_. \<lparr>cn_fd = 7, cn_open = True\<rparr>), ws_conns = [0], ws_reg = new_registry, ws_world = w\<rparr>"

definition start_loop :: ws_loop where
  "start_loop = \<lparr>wl_assembled = [], wl_assembling = 0\<rparr>"

theorem fragments_act_once_witness:
  "\<exists>w. w = [] \<and>
    serve_loop (byte_os 3) demo_ws_env 0 7 start_loop (byte_ws (client_fragments op_text [([1, 2, 3, 4], [65]), ([5, 6, 7, 8], [66])])) =
    serve_loop (byte_os 3) demo_ws_env 0 7 \<lparr>wl_assembled = [], wl_assembling = 0\<rparr>
      ((byte_ws w)\<lparr>ws_reg := handle_text demo_ws_env 0 [65, 66] new_registry\<rparr>)"
  using fragments_act_once [OF byte_os_stream [of 3 7],
      of "[([1, 2, 3, 4], [65]), ([5, 6, 7, 8], [66])]"
        "byte_ws (client_fragments op_text [([1, 2, 3, 4], [65]), ([5, 6, 7, 8], [66])])" "[]" demo_ws_env 0 start_loop]
  by (simp add: byte_ws_def max_message_def)

text \<open>C27. A session ends: on every finite input the receive loop returns, whatever frames the client
  sends and however many of them are unmasked, oversized or cut off.\<close>

theorem session_ends:
  assumes "duplex_socket os fd pending"
  shows "\<exists>s'. serve_loop os env c fd l s = Some s'"
  by (rule serve_loop_returns [OF assms])

theorem session_ends_witness:
  "\<exists>s'. serve_loop (byte_os 3) demo_ws_env 0 7 \<lparr>wl_assembled = [], wl_assembling = 0\<rparr> (byte_ws [0x81, 0x80, 1]) = Some s'"
  by (rule session_ends [OF byte_os_duplex]) simp



text \<open>C12. A LISTEN has its effect: once a client has sent it for an address, each message published
  at that address reaches that client, and every other connection that listens to it, as exactly
  one binary frame, and no other connection gets a byte; reading the frame and parsing its
  payload gives back the message.\<close>

theorem listen_event_delivered:
  assumes "wire_log (en_os en) sent" "registry_inv reg" "length (listeners reg) < max_listeners"
    and "js_parse (en_ws en) (c_str (to_string command)) = Some d"
      "js_string (en_ws en) d ''COMMAND'' = ''LISTEN''" "js_string (en_ws en) d ''DATA'' = address m"
    and "wire_element m" "length (address m) \<le> max_pattern_len" "length (enc_message m) \<le> max_message"
    and "registry_of p = handle_text (en_ws en) c command reg"
    and "\<forall>q x. listens_to (registry_of p) q x \<longrightarrow> q \<in> set (ws_conns (pl_ws p))"
    and "inj_on (\<lambda>q. cn_fd (ws_heap (pl_ws p) q)) (set (ws_conns (pl_ws p)))"
    and "\<forall>q \<in> set (ws_conns (pl_ws p)). cn_open (ws_heap (pl_ws p) q)" "q \<in> set (ws_conns (pl_ws p))"
    and "stream_socket os fd pending" "pending v = build_frame op_binary (enc_message m) @ rest"
  shows "sent (cn_fd (ws_heap (pl_ws p) q)) (world (snd (osc_publish en (address m) (enc_message m) p))) =
      sent (cn_fd (ws_heap (pl_ws p) q)) (world p) @
        (if q = c \<or> listens_to reg q (address m) then build_frame op_binary (enc_message m) else []) \<and>
    (\<exists>hdr v1 v2. read_header os fd v = (Some hdr, v1) \<and> fh_opcode hdr = op_binary \<and> fh_fin hdr \<and>
      read_masked_payload os fd hdr v1 = (Some (enc_message m), v2) \<and> pending v2 = rest \<and>
      osc_parse_packet (enc_message m) [] = Some (True, [m]))"
proof -
  have a: "pattern_ok (address m)" "hd (address m) = CHR ''/''"
    using assms(7,8) by (auto simp: wire_element_def wire_message_def pattern_ok_def)
  have "registry_inv (registry_of p)"
    using assms(2,4-6) unfolding assms(10)
    by (simp add: handle_text_def registry_inv_listen_add Let_def)
  from publish_to_listeners [OF assms(1) this assms(11-14), of "address m" "enc_message m"]
    client_reads_event [OF assms(15,7,9,16)] handle_listen [OF assms(4-6) a assms(3)]
  show ?thesis unfolding assms(10) by auto
qed

definition listening_plugin :: "demo plugin" where
  "listening_plugin = demo_plugin\<lparr>pl_ws := demo_ws
     \<lparr>ws_heap := (\<lambda>q. \<lparr>cn_fd = int q + 10, cn_open = True\<rparr>), ws_conns := [0, 1],
      ws_reg := handle_text demo_ws_env 0 (to_bytes ''/mute/Mic'') new_registry\<rparr>\<rparr>"

definition mic_event :: osc_message where
  "mic_event = \<lparr>address = ''/mute/Mic'', args = [osc_int 1]\<rparr>"

lemma mic_event_wire: "wire_element mic_event" "length (enc_message mic_event) \<le> max_message"
proof -
  have "length (enc_message mic_event) = 20" by code_simp
  then show "wire_element mic_event" "length (enc_message mic_event) \<le> max_message"
    by (simp_all add: wire_element_def wire_message_def mic_event_def wire_arg_def osc_int_def c_string_def
        max_message_def empty_argument_def)
qed

theorem listen_event_delivered_witness:
  "dm_wire (world (snd (osc_publish demo_env ''/mute/Mic'' (enc_message mic_event) listening_plugin))) 10 =
     build_frame op_binary (enc_message mic_event)"
proof -
  have cmd: "c_str (to_string (to_bytes ''/mute/Mic'')) = ''/mute/Mic''" by code_simp
  have reg: "listens_to (registry_of listening_plugin) q x \<longleftrightarrow> q = 0 \<and> x = ''/mute/Mic''" for q x
    by (auto simp: listening_plugin_def demo_ws_env_def handle_text_def demo_parse_def cmd jdata_def
        osc_listen_add_def new_registry_def max_pattern_len_def max_listeners_def listens_to_def)
  have inv: "registry_inv new_registry" "length (listeners new_registry) < max_listeners"
    by (simp_all add: new_registry_def registry_inv_def max_listeners_def max_subscribers_def)
  have js: "js_parse (en_ws demo_env) (c_str (to_string (to_bytes ''/mute/Mic''))) =
      Some [(''COMMAND'', JString ''LISTEN''), (''DATA'', JString ''/mute/Mic'')]"
    unfolding cmd by (simp add: demo_ws_env_def demo_parse_def)
  have k: "js_string (en_ws demo_env) [(''COMMAND'', JString ''LISTEN''), (''DATA'', JString ''/mute/Mic'')] ''COMMAND'' = ''LISTEN''"
    "js_string (en_ws demo_env) [(''COMMAND'', JString ''LISTEN''), (''DATA'', JString ''/mute/Mic'')] ''DATA'' = address mic_event"
    by (simp_all add: demo_ws_env_def jdata_def mic_event_def)
  have l: "length (address mic_event) \<le> max_pattern_len" by (simp add: mic_event_def max_pattern_len_def)
  have r: "registry_of listening_plugin = handle_text (en_ws demo_env) 0 (to_bytes ''/mute/Mic'') new_registry"
    by (simp add: listening_plugin_def del: list.map)
  have c: "ws_conns (pl_ws listening_plugin) = [0, 1]" "cn_open (ws_heap (pl_ws listening_plugin) q)"
    "cn_fd (ws_heap (pl_ws listening_plugin) q) = int q + 10" for q
    by (simp_all add: listening_plugin_def)
  have "dm_wire (world listening_plugin) fd = []" for fd
    by (simp add: listening_plugin_def demo_ws_def demo_world_def world_def)
  then show ?thesis
    using listen_event_delivered [OF _ inv js k mic_event_wire(1) l mic_event_wire(2) r,
        of "\<lambda>fd w. dm_wire w fd" 0 "byte_os 3" 7 "\<lambda>w. w" "build_frame op_binary (enc_message mic_event)" "[]"]
      demo_wire byte_os_stream [of 3 7] reg
    by (simp add: c inj_on_def) (simp add: mic_event_def)
qed

subsection \<open>HTTP\<close>

text \<open>C19. A GET is answered from end to end: however the stream cuts the request up, the handler gets the
  path with its escapes decoded and its query stripped, and the client gets the complete answer,
  a 200 with the handler's text or a 404 when that is empty, before the socket is closed; no
  registration changes.\<close>

theorem http_get_answered:
  assumes "stream_socket os fd pending" "reply_socket os fd sent"
    and "\<not> keep (CHR '' '')" "\<not> keep (CHR ''?'')" "\<not> keep (CHR 0x0A)"
    and "set query \<inter> {CHR '' '', CHR 0x0A} = {}" "query = [] \<or> hd query = CHR ''?''" "CHR 0x0A \<notin> set version"
    and "\<forall>h \<in> set hs. header_ok ''sec-websocket-key'' h \<and> \<not> same_name (fst h) ''sec-websocket-key''"
    and "pending (ws_world s) =
      to_bytes ((''GET '' @ url_encode keep path @ query @ '' '' @ version) @ crlf @ render_headers hs)"
    and "length ((''GET '' @ url_encode keep path @ query @ '' '' @ version) @ crlf @ render_headers hs) \<le> 8192"
  shows "\<exists>w s'. pending w = [] \<and> handle_client os env handler c fd s = Some s' \<and> ws_reg s' = ws_reg s \<and>
    sent (ws_world s') = sent (ws_world s) @ to_bytes (http_answer (handler path w))"
  by (rule get_answered [OF assms])

definition logging_os :: "(bytes \<times> bytes) os_api" where
  "logging_os =
     \<lparr>os_wsa = None, os_socket = (\<lambda>t w. (5, w)),
      os_reuseaddr = (\<lambda>fd w. w), os_bind = (\<lambda>fd port w. (True, w)), os_listen = (\<lambda>fd n w. (True, w)),
      os_shutdown = (\<lambda>fd w. w), os_close = (\<lambda>fd w. w), os_recv_timeout = (\<lambda>fd ms w. w),
      os_getaddrinfo = (\<lambda>host port w. None), os_sendto = (\<lambda>fd d a l w. w),
      os_recv = (\<lambda>fd n w. (take (min n 10) (fst w), (drop (min n 10) (fst w), snd w))),
      os_send = (\<lambda>fd d w. (1, (fst w, snd w @ take 1 d))), os_accept = (\<lambda>fd w. (7, w)), os_dns = None\<rparr>"

lemma logging_os_ok: "stream_socket logging_os fd fst" "reply_socket logging_os fd snd"
  by (auto simp: logging_os_def stream_socket_def reply_socket_def Suc_le_eq)

definition logging_ws :: "bytes \<Rightarrow> (bytes \<times> bytes) ws_state" where
  "logging_ws request = \<lparr>ws_heap = (\<lambda>_. \<lparr>cn_fd = 7, cn_open = False\<rparr>), ws_conns = [], ws_reg = new_registry,
     ws_world = (request, [])\<rparr>"

theorem http_get_answered_witness:
  "\<exists>s'. handle_client logging_os demo_ws_env (\<lambda>path w. ''<'' @ path @ ''>'') 0 7
     (logging_ws (to_bytes (''GET '' @ url_encode (\<lambda>c. c = CHR ''/'') ''/a b'' @ ''?x HTTP/1.1'' @ crlf @ ''Host: h'' @ crlf @ crlf))) =
       Some s' \<and> snd (ws_world s') = to_bytes (http_answer ''</a b>'')"
proof -
  have "header_ok ''sec-websocket-key'' (''Host'', ''h'')" "\<not> same_name ''Host'' ''sec-websocket-key''" by code_simp+
  moreover have "length (url_encode (\<lambda>c. c = CHR ''/'') ''/a b'') \<le> 20" by code_simp
  ultimately show ?thesis
    using http_get_answered [OF logging_os_ok, where keep = "\<lambda>c. c = CHR ''/''" and query = "''?x''" and
        version = "''HTTP/1.1''" and hs = "[(''Host'', ''h'')]" and path = "''/a b''" and fd = 7 and env = demo_ws_env and
        handler = "\<lambda>path w. ''<'' @ path @ ''>''" and c = 0 and
        s = "logging_ws (to_bytes (''GET '' @ url_encode (\<lambda>c. c = CHR ''/'') ''/a b'' @ ''?x HTTP/1.1'' @ crlf @ ''Host: h'' @ crlf @ crlf))"]
    by (auto simp: logging_ws_def simp del: url_encode.simps)
qed

text \<open>C18. A WebSocket upgrade from end to end: however the stream cuts the request up, in whatever order
  and spelling of the names the headers come, the client gets the 101 with the accept key of the
  first key it sent, and its connection enters the receive loop, open and listed.\<close>

theorem websocket_upgrade_answered:
  assumes "duplex_socket os fd pending" "reply_socket os fd sent"
    and "CHR 0x0A \<notin> set line" "\<forall>h \<in> set hs. header_ok ''sec-websocket-key'' h \<and> header_ok ''upgrade'' h"
    and "find (\<lambda>h. same_name (fst h) ''sec-websocket-key'') hs = Some (name, key)"
    and "\<exists>h \<in> set hs. same_name (fst h) ''upgrade''"
    and "pending (ws_world s) = to_bytes (line @ crlf @ render_headers hs)"
    and "length (line @ crlf @ render_headers hs) \<le> 8192"
  shows "\<exists>w. pending w = [] \<and> sent w = sent (ws_world s) @ to_bytes (handshake_response env key) \<and>
    handle_client os env handler c fd s =
      map_option (serve_done os c)
        (serve_loop os env c fd \<lparr>wl_assembled = [], wl_assembling = 0\<rparr> (serve_open os c fd (s\<lparr>ws_world := w\<rparr>)))"
  by (rule upgrade_answered [OF assms])

lemma logging_os_duplex: "duplex_socket logging_os fd fst"
  using logging_os_ok(1) by (simp add: duplex_socket_def) (simp add: logging_os_def)

theorem websocket_upgrade_answered_witness:
  "\<exists>w. fst w = [] \<and> snd w = to_bytes (handshake_response demo_ws_env ''abc'') \<and>
    handle_client logging_os demo_ws_env (\<lambda>path w. []) 0 7
      (logging_ws (to_bytes (''GET / HTTP/1.1'' @ crlf @
         render_headers [(''UPGRADE'', ''websocket''), (''Sec-Websocket-KEY'', ''abc'')]))) =
    map_option (serve_done logging_os 0)
      (serve_loop logging_os demo_ws_env 0 7 \<lparr>wl_assembled = [], wl_assembling = 0\<rparr>
        (serve_open logging_os 0 7 ((logging_ws (to_bytes (''GET / HTTP/1.1'' @ crlf @
           render_headers [(''UPGRADE'', ''websocket''), (''Sec-Websocket-KEY'', ''abc'')])))\<lparr>ws_world := w\<rparr>)))"
proof -
  let ?hs = "[(''UPGRADE'', ''websocket''), (''Sec-Websocket-KEY'', ''abc'')]"
  have ok: "\<forall>h \<in> set ?hs. header_ok ''sec-websocket-key'' h \<and> header_ok ''upgrade'' h" by code_simp
  have k: "find (\<lambda>h. same_name (fst h) ''sec-websocket-key'') ?hs = Some (''Sec-Websocket-KEY'', ''abc'')" by code_simp
  have u: "\<exists>h \<in> set ?hs. same_name (fst h) ''upgrade''" by code_simp
  have l: "length (''GET / HTTP/1.1'' @ crlf @ render_headers ?hs) \<le> 8192" by code_simp
  show ?thesis
    using websocket_upgrade_answered [OF logging_os_duplex logging_os_ok(2) _ ok k u _ l,
        of "logging_ws (to_bytes (''GET / HTTP/1.1'' @ crlf @ render_headers ?hs))" demo_ws_env "\<lambda>path w. []" 0]
    by (simp add: logging_ws_def del: map_append render_headers.simps)
qed

text \<open>C38. At most 32 clients are served at a time, whatever order accepts, ends of threads, starts and
  stops of the server come in.\<close>

theorem http_clients_bounded:
  assumes "http_reachable os (h, serving, w)"
  shows "int (length serving) \<le> max_clients \<and> ht_live_clients h = int (length serving)"
  using http_reachable_inv [OF assms] by (simp add: http_inv_def max_clients_def)

lemma one_client:
  "\<exists>h w. http_reachable demo_os (h, [7], w)"
proof -
  obtain ok h w where s: "osc_http_start demo_os 9001 new_http demo_world = (ok, h, w)"
    by (cases "osc_http_start demo_os 9001 new_http demo_world") auto
  moreover have "ht_running (fst (snd (osc_http_start demo_os 9001 new_http demo_world)))" by code_simp
  ultimately have r: "ht_running h" by simp
  have live: "ht_live_clients h = 0"
    using s by (auto simp: osc_http_start_def new_http_def split: if_splits prod.splits)
  obtain h' w' where a: "accept_pass demo_os 7 True h w = (Accept_serve 7, h', w')"
    by (simp add: accept_pass_def invalid_socket_def Let_def max_clients_def live)
  have "http_reachable demo_os (h, [], w)"
    by (rule http_next [OF http_init http_start [OF s]])
  from http_next [OF this http_accept [OF r a]] show ?thesis by auto
qed

theorem http_clients_bounded_witness:
  "\<exists>h w. http_reachable demo_os (h, [7], w) \<and> ht_live_clients h = 1"
  using one_client http_clients_bounded by fastforce

end
