(* ===== verification/PropsObs.thy ===== *)
theory PropsObs
  imports OscInstances
begin

text \<open>
  The properties of the control plane: commands, polls, feedback and the helpers on OBS objects,
  each with an application in the small OBS of \<open>OscInstances\<close> where it has hypotheses.
\<close>

subsection \<open>Commands\<close>






text \<open>C30. A mute command with a wildcard sets the flag of exactly the inputs whose name matches, to the
  value sent or, for a toggle, to the opposite of what it was, and changes no other input.\<close>

theorem wildcard_mute_is_exact:
  assumes "mute_laws ob" "osc_has_wildcard (Some pattern)" "distinct (ob_sources ob (snd s))"
  shows "ob_muted ob y (snd (mute_inputs ob pattern value s)) =
    (if y \<in> set (ob_sources ob (snd s)) \<and> mute_target ob pattern y (snd s)
     then (case value of Some b \<Rightarrow> b | None \<Rightarrow> \<not> ob_muted ob y (snd s)) else ob_muted ob y (snd s))"
  by (rule mute_inputs_wildcard [OF assms])

lemma mic_target: "mute_target demo_obs ''M*'' 11 w"
proof -
  have "osc_glob_match ''M*'' ''Mic''"
    by (subst osc_glob_match_spec; simp; auto intro: exI [of _ 2])
  then show "mute_target demo_obs ''M*'' 11 w" by (simp add: mute_target_def demo_name_def)
qed

theorem wildcard_mute_is_exact_witness:
  "dm_muted (snd (mute_inputs demo_obs ''M*'' None (new_server, demo_world))) 11"
proof -
  have "osc_has_wildcard (Some ''M*'')" "distinct (ob_sources demo_obs (snd (new_server, demo_world)))"
    by (simp_all add: osc_has_wildcard_def)
  from wildcard_mute_is_exact [OF demo_mutes this, of 11 None] show ?thesis
    by (simp add: mic_target demo_world_def)
qed

text \<open>C31. Writing one transform field changes exactly that field: read back it is the value written
  (a crop is rounded to a whole number), and the other eight fields of the item are as they were.\<close>

theorem transform_write_is_exact:
  assumes "item_laws ob" "i < 9" "j < 9"
  shows "tf_get (osc_transform_fields lm ob ! j) item (tf_set (osc_transform_fields lm ob ! i) item v w) =
     (if i = j then stored_value lm i v else tf_get (osc_transform_fields lm ob ! j) item w)"
  by (rule transform_field_write [OF assms])

theorem transform_write_is_exact_witness:
  "tf_get (osc_transform_fields demo_libm demo_obs ! 1) 9
     (tf_set (osc_transform_fields demo_libm demo_obs ! 0) 9 f32_one demo_world) =
   tf_get (osc_transform_fields demo_libm demo_obs ! 1) 9 demo_world"
  using transform_write_is_exact [OF demo_items, of 0 1 demo_libm 9 f32_one demo_world] by simp

subsection \<open>Replies\<close>



text \<open>C32. A poll of the mute flags with a wildcard is answered exactly: OBS is left untouched, and the
  asking client gets one datagram with one message for each input whose name matches, in the
  order of OBS, with its address and its current flag; no match, no datagram.\<close>

theorem mute_poll_is_exact:
  assumes "osc_has_wildcard (Some pattern)" "can_queue sv" "ep_len to \<noteq> 0"
    and "ms = map (mute_reply (en_obs en) w) (filter (\<lambda>x. mute_target (en_obs en) pattern x w) (ob_sources (en_obs en) w))"
  shows "snd (dispatch_ctl en \<lparr>address = mute_for pattern, args = []\<rparr> to (sv, w)) = w \<and>
    sv_send_queue (fst (dispatch_ctl en \<lparr>address = mute_for pattern, args = []\<rparr> to (sv, w))) =
      (if ms = [] then sv_send_queue sv
       else last_n max_send_queue (sv_send_queue sv @ [packet_to (batch_datagram (map enc_message ms)) to]))"
  using dispatch_mute_poll [OF assms(1), of en to "(sv, w)"] end_batch_queue [OF assms(2,3), of ms] assms(4) by simp

theorem mute_poll_is_exact_witness:
  "sv_send_queue (fst (dispatch_ctl demo_env \<lparr>address = mute_for ''M*'', args = []\<rparr>
       \<lparr>ep_addr = SockIn 1 1 [], ep_len = 16\<rparr> (new_server\<lparr>sv_fd := 5, sv_send_running := True\<rparr>, demo_world))) \<noteq> []"
proof -
  let ?ms = "map (mute_reply demo_obs demo_world)
    (filter (\<lambda>x. mute_target demo_obs ''M*'' x demo_world) (ob_sources demo_obs demo_world))"
  have "11 \<in> set (filter (\<lambda>x. mute_target demo_obs ''M*'' x demo_world) (ob_sources demo_obs demo_world))"
    by (simp add: mic_target)
  then have "?ms \<noteq> []" by (metis empty_iff list.set(1) map_is_Nil_conv)
  moreover have "osc_has_wildcard (Some ''M*'')" by (simp add: osc_has_wildcard_def)
  moreover have "can_queue (new_server\<lparr>sv_fd := 5, sv_send_running := True\<rparr>)"
    by (simp add: can_queue_def new_server_def invalid_socket_def)
  ultimately show ?thesis
    using mute_poll_is_exact [of "''M*''" "new_server\<lparr>sv_fd := 5, sv_send_running := True\<rparr>"
        "\<lparr>ep_addr = SockIn 1 1 [], ep_len = 16\<rparr>" ?ms demo_env demo_world]
    by (simp add: demo_env_def last_n_def max_send_queue_def del: map_is_Nil_conv filter.simps)
qed

subsection \<open>Feedback\<close>






text \<open>C28. The throttle spaces events out: of the calls in the order of the clock, from an empty table, two
  that pass with the same key are at least the interval of the later one apart (for intervals up
  to five seconds, the age at which entries are pruned).\<close>

theorem throttle_spaces_events:
  assumes "sorted (now # map fst cs)" "\<forall>(t, k, ms) \<in> set cs. ms \<le> 5000"
    and "i < j" "j < length (passed_calls cs [])"
    and "passed_calls cs [] ! i = (t, k, ms)" "passed_calls cs [] ! j = (t', k, ms')"
  shows "ms' * 1000000 \<le> t' - t"
proof -
  have r: "remembers now [] []" by (simp add: remembers_def)
  from passed_calls_spaced [OF r assms(1,2), THEN spec, THEN spec, of i j] assms(3-6) show ?thesis by simp
qed

theorem throttle_spaces_events_witness:
  "\<exists>t t'. passed_calls [(0, ''Mic'', 33), (1000000, ''Mic'', 33), (40000000, ''Mic'', 33)] [] =
       [(t, ''Mic'', 33), (t', ''Mic'', 33)] \<and> 33 * 1000000 \<le> t' - t"
proof -
  have p: "passed_calls [(0, ''Mic'', 33), (1000000, ''Mic'', 33), (40000000, ''Mic'', 33)] [] =
      [(0, ''Mic'', 33), (40000000, ''Mic'', 33)]"
    by (simp add: throttled_def prune_at_def Let_def)
  have "33 * 1000000 \<le> (40000000 :: int) - 0"
    by (rule throttle_spaces_events [of 0 "[(0, ''Mic'', 33), (1000000, ''Mic'', 33), (40000000, ''Mic'', 33)]" 0 1
          0 "''Mic''" 33]) (simp_all add: p del: passed_calls.simps)
  with p show ?thesis by blast
qed



end
