(* ===== verification/PropsDocument.thy ===== *)
theory PropsDocument
  imports OscInstances
begin

text \<open>
  The properties of the OSCQuery document against the names OBS enumerates and against the
  dispatcher and its polls, and of a subscription from the datagram that asks for it to the event it brings.
\<close>

subsection \<open>The document\<close>

definition asking_client :: osc_endpoint where
  "asking_client = \<lparr>ep_addr = SockIn 1 1 [], ep_len = 16\<rparr>"








subsection \<open>A subscription from end to end\<close>

text \<open>C11. A client that has subscribed hears of the event: after its subscription datagram has come in and
  the UI thread has run its tasks, a mute signal of an input whose address the topic matches is
  handed to \<^verbatim>\<open>sendto\<close> for the client, as the datagram that encodes the event, even when the
  server is stopped right behind the signal.\<close>

theorem subscriber_hears_event:
  assumes "server_inv (pl_server p)" "sv_running (pl_server p)" "registry_ok (registry_of p)"
    and "cf_feedback_enabled (pl_config p)" "datagram_wire (en_os en) wire"
    and "inet_endpoint who" "pattern_ok topic" "room_for who (table_of (registry_of p))"
    and "wire_element (subscribe_message topic)" "osc_glob_match (c_str topic) (mute_for n)"
    and "ob_name (en_obs en) x (world p) = n"
  shows "let p2 = mute_signal_cb en x (Some b) (after_subscription en topic who p)
    in \<exists>e. endpoint_equal e who \<and>
      (enc_message \<lparr>address = mute_for n, args = [osc_bool b]\<rparr>, ep_addr e, ep_len e) \<in>
        set (wire (snd (server_stop (en_os en) (pl_server p2) (world p2))))"
  by (rule subscriber_hears [OF assms])

definition open_plugin :: "demo plugin" where
  "open_plugin = demo_plugin\<lparr>pl_server := new_server\<lparr>sv_fd := 5, sv_running := True, sv_handler := True,
     sv_send_running := True\<rparr>\<rparr>"

lemma subscribe_wire: "wire_element (subscribe_message ''/mute/*'')"
proof -
  have "length (enc_message (subscribe_message ''/mute/*'')) = 24" by code_simp
  then show ?thesis
    by (simp add: wire_element_def wire_message_def wire_arg_def subscribe_message_def addr_subscribe_def osc_str_def
        c_string_def empty_argument_def)
qed

theorem subscriber_hears_event_witness:
  "let p2 = mute_signal_cb demo_env 11 (Some True) (after_subscription demo_env ''/mute/*'' asking_client open_plugin)
   in \<exists>e. endpoint_equal e asking_client \<and>
     (enc_message \<lparr>address = ''/mute/Mic'', args = [osc_bool True]\<rparr>, ep_addr e, ep_len e) \<in>
       set (dm_sent (snd (server_stop demo_os (pl_server p2) (world p2))))"
proof -
  have s: "server_inv (pl_server open_plugin)" "sv_running (pl_server open_plugin)"
    by (simp_all add: open_plugin_def server_inv_def new_server_def invalid_socket_def)
  have reg: "registry_of open_plugin = new_registry" "cf_feedback_enabled (pl_config open_plugin)"
    by (simp_all add: open_plugin_def demo_plugin_def new_plugin_def demo_ws_def default_config_def)
  have r: "registry_ok (registry_of open_plugin)" "room_for asking_client (table_of (registry_of open_plugin))"
    using registry_ok_new by (simp_all add: reg room_for_def empty_table_def registry_bounds)
  have a: "inet_endpoint asking_client" "pattern_ok ''/mute/*''"
    by (simp_all add: asking_client_def inet_endpoint_def pattern_ok_def registry_bounds)
  have m: "mute_for ''Mic'' = ''/mute/Mic''" by (simp add: mute_for_def prefixed_def mute_prefix_def)
  have "osc_glob_match (c_str ''/mute/*'') (mute_for ''Mic'')"
    using osc_glob_match_spec [of "''/mute/Mic''" "''/mute/*''"] by (simp add: c_str_def m) (auto intro: exI [of _ 3])
  from subscriber_hears_event [where en = demo_env and wire = dm_sent, OF s r(1) reg(2) _ a r(2) subscribe_wire this, of 11 True]
  show ?thesis by (simp add: demo_sends demo_name_def m)
qed

end
