(* ===== verification/Spec2Isabelle.thy ===== *)
theory Spec2Isabelle
  imports PropsWire PropsNet PropsObs PropsDocument
begin

text \<open>
  A verification library for obs-osc, the plugin that lets OSC controllers drive OBS Studio.

  \<^bold>\<open>The program and its theories.\<close>  Datagrams arrive on a network thread, are parsed and queued as one
  task for the UI thread, where each message is a subscription, a poll or a command on objects
  of libobs.  Signals of OBS go the other way: a callback builds a message that is published to
  the subscribers, the fixed feedback target, the last sender and the WebSocket listeners.  An
  HTTP server answers OSCQuery requests with a JSON tree of everything that can be addressed.

  \<^item> \<open>OscPrelude\<close>, \<open>OscFloat\<close>: bytes, C strings and \<^verbatim>\<open>size_t\<close>; IEEE binary32 on \<open>32 word\<close>, with the
    conversions and the comparison the source uses.
  \<^item> \<open>OscMessage\<close> (\<^verbatim>\<open>osc-message.cpp\<close>): the wire codec.  Reads are checked: \<open>None\<close> is a read outside
    the datagram.  \<open>OscGlob\<close> and \<open>OscUtil\<close> (\<^verbatim>\<open>osc-util.cpp\<close>): patterns and selectors; walks over
    sources and scene items, volume mapping, transform fields.  \<open>OscAddresses\<close>
    (\<^verbatim>\<open>osc-addresses.cpp\<close>): the addresses and their builders.
  \<^item> \<open>OscNet\<close> (\<^verbatim>\<open>osc-net.cpp\<close>), \<open>OscServer\<close> (\<^verbatim>\<open>osc-server.cpp\<close>): sockets and the UDP transport with its
    bounded queue; \<open>OscDelivery\<close>: its runs under a schedule of the threads.  \<open>OscSubscribe\<close>
    (\<^verbatim>\<open>osc-subscribe.cpp\<close>): the registry; \<open>OscTopics\<close>: the table of topics it implements.
  \<^item> \<open>OscWs\<close> (\<^verbatim>\<open>osc-ws.cpp\<close>), \<open>OscHttp\<close> and \<open>OscRequests\<close> (\<^verbatim>\<open>osc-query-http.cpp\<close>), \<open>OscQuery\<close> (\<^verbatim>\<open>osc-query.cpp\<close>): WebSocket
    sessions, the HTTP server, the OSCQuery service; \<open>OscBonjour\<close> (\<^verbatim>\<open>osc-query-bonjour.cpp\<close>): its
    advertisement.  \<open>OscSchema\<close> (\<^verbatim>\<open>osc-query-schema.cpp\<close>): the
    document, one builder per section, and the path walk; \<open>OscDocument\<close>: the paths it ought to list,
    and what the dispatcher makes of each; \<open>OscAgreement\<close>: a poll and the document agree.
  \<^item> \<open>OscObs\<close>: the functions of libobs the plugin calls, a record of parameters.  \<open>OscObjects\<close>
    (\<^verbatim>\<open>osc-objects.cpp\<close>), \<open>OscControls\<close> (\<^verbatim>\<open>osc-controls.cpp\<close>): commands and polls, with \<open>OscReplies\<close>
    (what polls reply, the transport's invariant) and \<open>OscEffects\<close> (what commands change).
  \<^item> \<open>OscFeedback\<close> (\<^verbatim>\<open>osc-feedback.cpp\<close>): the gate, the throttle, the signal callbacks, filter hooks.
  \<^item> \<open>OscPlugin\<close> (\<^verbatim>\<open>plugin.cpp\<close>, \<^verbatim>\<open>osc-ui-task.cpp\<close>): configuration, settings with rollback, load and
    unload, the UI tasks.  \<open>OscSettings\<close> (\<^verbatim>\<open>osc-settings.cpp\<close>): the dialog.
    \<open>OscLifecycle\<close>: starts and stops paired with the socket layer's set-up and clean-up.  \<open>OscSystem\<close>: the whole
    plugin as a step relation.  \<open>OscEndToEnd\<close> and \<open>OscSubscriber\<close>: components composed, from
    bytes in to bytes out.
  \<^item> \<open>OscInstances\<close>: a small world that satisfies every contract, for the witnesses.
    \<open>PropsWire\<close>, \<open>PropsNet\<close>, \<open>PropsObs\<close>, \<open>PropsDocument\<close> and this theory: the properties.

  \<^bold>\<open>State.\<close>  The globals \<^verbatim>\<open>g_config\<close>, \<^verbatim>\<open>g_server\<close>, the registry, the connections, the OSCQuery
  statics, the throttle table and the filter hooks are the fields of one record \<open>plugin\<close>;
  everything outside (operating system, libobs, frontend, JSON, SHA-1, \<^verbatim>\<open>libm\<close>) is a type \<open>'w\<close> moved
  by the functions of the records \<open>os_api\<close>, \<open>dns_api\<close>, \<open>wsa_api\<close>, \<open>obs_api\<close>, \<open>frontend_api\<close>, \<open>data_api\<close>, \<open>signal_api\<close>,
  \<open>module_api\<close> and \<open>libm\<close>.  What a property needs of them is a named predicate of documented
  behaviour (\<open>balanced_obs\<close>: a lookup takes a reference, a release gives it back;
  \<open>stream_socket\<close>: \<^verbatim>\<open>recv\<close> returns a prefix of the stream; \<open>object_laws\<close>, \<open>scalar_laws\<close>: a JSON object
  returns what was set last).

  \<^bold>\<open>Threads.\<close>  Every operation that holds a mutex is one step; \<open>server_step\<close>, \<open>ws_step\<close>, \<open>http_step\<close> and
  \<open>plugin_step\<close> interleave operations in any order, and their invariants are proved by rule
  induction over the reachable states.

  \<^bold>\<open>Interfaces.\<close>  The locale \<open>outbox\<close> of \<open>OscServer\<close> states the contract of a bounded queue that drops
  the oldest (interpreted as \<open>sq\<close> on the transport); \<open>listen_registry\<close> of \<open>OscSubscribe\<close> that of the
  registrations the WebSocket sessions use (interpreted as \<open>lr\<close> on the registry);
  \<open>object_walk\<close> of \<open>OscUtil\<close> what a walk over sources or scene items keeps (interpreted for
  references, the transport and the replies of a poll: \<open>refs_walk\<close>, \<open>fst_walk\<close>, \<open>poll_walk\<close>);
  \<open>socket_user\<close> of \<open>OscLifecycle\<close> what the socket layer asks of a service that is started and stopped
  (\<open>udp_user\<close>, \<open>query_user\<close>).

  \<^bold>\<open>Bounds and termination.\<close>  The queue holds 1024 datagrams, the registry 32 subscribers of 64 patterns
  and 256 listeners, a WebSocket message 8192 bytes, the HTTP server 32 clients.  Loops are total
  functions with measures, the glob loop also with a budget of iterations (\<open>glob_fuel\<close>, enough by
  C39).  Only \<open>serve_loop\<close>, which a peer can keep busy for ever, is a partial function: \<open>None\<close> is
  not returning, and C27 proves it returns on every finite stream.

  \<^bold>\<open>Lemma groups.\<close>  Wire: C2, C3, C36, C37.  Patterns: C4, C39.  Transport: C5 to C7.
  Registry: C8.  Sessions and HTTP: C16 to C19, C26, C27, C38.  Dispatch, polls and
  objects: C13, C14, C29 to C32, C40.  Feedback: C15, C25, C28.  Document: C20 to C23.
  Configuration, dialog, advertisement and the whole plugin: C1, C9, C24, C33 to C35.  Compositions:
  a command and the document served after it (C10), a subscription and the event that follows
  (C11), a LISTEN and the events that follow (C12), an upgrade request and its session (C18), a GET
  and its answer (C19), the document and the dispatcher (C22), the document and a poll (C23).  C21 and C40 also record behaviour the
  code hardly means to have; so do the lemmas \<open>redirected_subscription_stays\<close>, \<open>stale_host_info\<close>,
  \<open>feedback_gate_ignores_peers\<close>, \<open>failed_send_leaves_socket\<close>, \<open>mute_section_children\<close> and
  \<open>media_state_leaf\<close>.

  \<^bold>\<open>Progress.\<close>  C5 is about infinite schedules: the only assumption is that the sender's thread gets
  to run again and again.  What arrives while the transport runs, in whatever order, delays a
  datagram but does not keep it from being sent, unless the queue overflows.

  \<^bold>\<open>Not modelled.\<close>  How Qt draws and lays out the dialog (its widgets' values, ranges, texts, rows and
  the user's actions are); log output; the scheduling of threads inside an operation and the weak
  memory order of the atomic flags; the serialisation of JSON, which libobs does; the registration
  callback of Bonjour, which is empty; module macros, prototypes and forward declarations.  A
  Winsock build differs in the model only in \<open>net_init\<close> and \<open>net_cleanup\<close>.
\<close>

subsection \<open>The plugin as a whole\<close>

text \<open>C1. In every state the plugin can reach, through any order of load, unload, settings, datagrams,
  queued tasks, signals, frontend events and changes of the world, the transport is consistent
  (a running listener has a socket, a sender and a handler, the queue holds at most 1024 sendable
  datagrams, a stopped one holds none), the registry is within its bounds, the OSCQuery service and
  its HTTP server agree on whether they run, every configured port is in range, and the tasks
  queued for the UI thread hold well-formed messages.\<close>

theorem plugin_invariant:
  assumes "plugin_reachable en md (p, tasks)"
  shows "server_inv (pl_server p) \<and> registry_inv (registry_of p) \<and> query_inv (pl_query p) \<and>
    ports_ok (pl_config p) \<and> tasks_inv tasks"
  using plugin_reachable_inv [OF assms] by (simp add: plugin_inv_def)

theorem plugin_invariant_witness:
  "server_inv (pl_server (snd (obs_module_load demo_env demo_md demo_plugin)))"
proof -
  have "plugin_reachable demo_env demo_md (demo_plugin, [])"
    unfolding demo_plugin_def by (rule sys_init) (simp add: demo_ws_def)
  moreover have "plugin_step demo_env demo_md (demo_plugin, []) (run_event demo_env demo_md EvLoad (demo_plugin, []))"
    by (rule step_event) simp
  ultimately have "plugin_reachable demo_env demo_md (snd (obs_module_load demo_env demo_md demo_plugin), [])"
    using sys_step by fastforce
  from plugin_invariant [OF this] show ?thesis by blast
qed

text \<open>C9. Applying settings is all or nothing per step: on success the configuration is the new one; when
  the new UDP port cannot be bound nothing of it changes; when the OSCQuery port cannot be bound
  only the UDP port, already in use, has changed.\<close>

theorem settings_are_transactional:
  "pl_config (snd (osc_apply_settings en md next p)) =
    (case fst (osc_apply_settings en md next p) of
       ApplyOk \<Rightarrow> next
     | UdpPortFailed \<Rightarrow> pl_config p
     | QueryPortFailed \<Rightarrow> (pl_config p)\<lparr>cf_port := cf_port next\<rparr>)"
  by (rule apply_settings_config) simp

text \<open>C24. A saved configuration is what the next start loads: saving and loading gives back every
  setting, for a configuration whose ports are in range and whose host is a C string.\<close>

theorem config_round_trip:
  assumes "scalar_laws (en_data en)" "file_laws md path"
    and "ports_ok (pl_config p)" "c_string (cf_feedback_host (pl_config p))"
  shows "pl_config (load_config en md (set_world (world (osc_save_config en md p)) q)) = pl_config p"
  by (rule save_then_load [OF assms])

theorem config_round_trip_witness:
  "pl_config (load_config demo_env demo_md (set_world (world (osc_save_config demo_env demo_md
     (demo_plugin\<lparr>pl_config := default_config\<lparr>cf_port := 9100, cf_feedback_host := ''10.0.0.2''\<rparr>\<rparr>))) demo_plugin)) =
   default_config\<lparr>cf_port := 9100, cf_feedback_host := ''10.0.0.2''\<rparr>"
proof -
  have "scalar_laws (en_data demo_env)" by (simp add: demo_env_def jdata_scalars)
  from config_round_trip [OF this demo_files, of "demo_plugin\<lparr>pl_config := default_config\<lparr>cf_port := 9100,
      cf_feedback_host := ''10.0.0.2''\<rparr>\<rparr>" demo_plugin]
  show ?thesis by (simp add: ports_ok_def default_config_def c_string_def)
qed




subsection \<open>The advertisement\<close>

text \<open>C34. On a system with Bonjour, after any number of restarts of the OSCQuery service, each with the
  configuration of its moment and each failing or not, the registrations the responder holds are
  the one the service remembers, under the HTTP port of the last restart, or none; a stopped
  service has none.\<close>

theorem advertisement_follows_service:
  assumes "os_dns os = Some dns" "dns_contract dns live" "bonjour_frame os live"
    and "query_inv q" "\<not> qy_running q" "qy_bonjour q = None" "live (ws_world s) = []" "cfgs \<noteq> []"
  shows "live (ws_world (snd (query_restarts os cfgs (q, s)))) =
      advertised (qy_bonjour (fst (query_restarts os cfgs (q, s)))) (word_of_int (http_port_of (last cfgs))) \<and>
    (\<not> qy_running (fst (query_restarts os cfgs (q, s))) \<longrightarrow> qy_bonjour (fst (query_restarts os cfgs (q, s))) = None)"
proof -
  have "announced live 0 q s" using assms(5-7) by (simp add: announced_def advertised_def)
  from announced_restarts [OF assms(1-4) this, of cfgs] assms(8) show ?thesis by (simp add: announced_def)
qed

theorem advertisement_follows_service_witness:
  "dm_services (ws_world (snd (query_restarts demo_os
     [default_config, default_config\<lparr>cf_query_enabled := False\<rparr>] (new_query, demo_ws)))) = []"
proof -
  have d: "os_dns demo_os = Some demo_dns" by (simp add: demo_os_def)
  have "\<not> qy_running (fst (query_restarts demo_os
      [default_config, default_config\<lparr>cf_query_enabled := False\<rparr>] (new_query, demo_ws)))" by code_simp
  with advertisement_follows_service [OF d demo_dns_ok demo_frame, of new_query demo_ws
      "[default_config, default_config\<lparr>cf_query_enabled := False\<rparr>]"]
  show ?thesis by (simp add: advertised_def new_query_def demo_ws_def demo_world_def query_inv_def new_http_def)
qed

text \<open>C35. Start-ups and clean-ups of Winsock are paired, as the socket layer asks of its users: after any
  sequence of confirmed settings, with every restart, failure and roll-back in it, stopping the two
  services has cleaned up once for each of them that was running, and for each start-up since.\<close>

theorem socket_startups_paired:
  assumes "counted_plugin en md u"
  shows "u (world (stop_listener en (stop_query en (settings_session en md cfgs p)))) =
    u (world p) - of_bool (sv_running (pl_server p)) - of_bool (qy_running (pl_query p))"
  by (rule session_closed_uses [OF assms])

definition explicit_config :: osc_config where
  "explicit_config = default_config\<lparr>cf_query_port := 9500\<rparr>"

theorem socket_startups_paired_witness:
  "dm_wsa (world (stop_listener demo_env (stop_query demo_env
     (settings_session demo_env demo_md [explicit_config, explicit_config\<lparr>cf_port := 9100\<rparr>] demo_plugin)))) = 0"
  using socket_startups_paired [OF demo_counted, of "[explicit_config, explicit_config\<lparr>cf_port := 9100\<rparr>]" demo_plugin]
  by (simp add: demo_plugin_def new_plugin_def new_server_def new_query_def demo_ws_def demo_world_def world_def)

subsection \<open>The OSCQuery document\<close>

text \<open>C20. A targeted request returns exactly what the full document holds at that path: building only the
  section the first segment names and descending in it gives the same node, and the same absence,
  as descending from the root of the complete document.\<close>

theorem targeted_lookup_is_subtree:
  assumes "object_laws (en_data en)" "NUL \<notin> set path"
  shows "osc_query_schema_lookup en path w =
    (case descend (en_data en) (Some (build_root en w)) (split_path path) of
       None \<Rightarrow> [] | Some node \<Rightarrow> or_empty (dt_json (en_data en) node))"
  by (rule walk_tree_document [OF assms])

theorem targeted_lookup_is_subtree_witness:
  "osc_query_schema_lookup demo_env ''/mute/Mic'' demo_world =
    (case descend jdata (Some (build_root demo_env demo_world)) [''mute'', ''Mic''] of
       None \<Rightarrow> [] | Some node \<Rightarrow> or_empty (dt_json jdata node))"
proof -
  have "split_path ''/mute/Mic'' = [''mute'', ''Mic'']"
    using split_join_path [of "[''mute'', ''Mic'']"] by (simp add: join_path_def path_segment_def)
  with targeted_lookup_is_subtree [of demo_env "''/mute/Mic''" demo_world] show ?thesis
    by (simp add: jdata_objects del: descend.simps cong: option.case_cong)
qed





end
